(* ===== verification/Prelude.thy ===== *)
theory Prelude
  imports Main "HOL-Library.Multiset"
begin

text \<open>
  Shared vocabulary of the development: the types the services exchange (ids, instants), the
  meaning of the SQL clauses that recur in the repositories (UPDATE .. WHERE, RETURNING, a partial
  unique index), and the list lemmas their proofs share. A table is the list of its rows.
\<close>

type_synonym uuid = string
  \<comment> \<open>the text of a UUID column or of \<open>randomUUID()\<close>\<close>
type_synonym instant = int
  \<comment> \<open>a point in time in milliseconds since the epoch (\<open>Date.now()\<close>, TIMESTAMPTZ)\<close>


subsection \<open>UPDATE, RETURNING and partial unique indexes\<close>

text \<open>\<open>UPDATE t SET f WHERE P\<close> and the rows its RETURNING clause yields (in table order).\<close>

definition upd_where :: "('r \<Rightarrow> bool) \<Rightarrow> ('r \<Rightarrow> 'r) \<Rightarrow> 'r list \<Rightarrow> 'r list" where
  "upd_where P f rows = map (\<lambda>r. if P r then f r else r) rows"

definition returning :: "('r \<Rightarrow> bool) \<Rightarrow> ('r \<Rightarrow> 'r) \<Rightarrow> 'r list \<Rightarrow> 'r list" where
  "returning P f rows = map f (filter P rows)"

text \<open>\<open>CREATE UNIQUE INDEX .. ON t (key) WHERE P\<close>: rows in P have pairwise different keys.\<close>

definition unique_where :: "('r \<Rightarrow> bool) \<Rightarrow> ('r \<Rightarrow> 'k) \<Rightarrow> 'r list \<Rightarrow> bool" where
  "unique_where P key rows \<longleftrightarrow> distinct (map key (filter P rows))"

lemma upd_where_Nil [simp]: "upd_where P f [] = []"
  by (simp add: upd_where_def)

lemma upd_where_Cons [simp]:
  "upd_where P f (r # rs) = (if P r then f r else r) # upd_where P f rs"
  by (simp add: upd_where_def)

lemma upd_where_append [simp]:
  "upd_where P f (xs @ ys) = upd_where P f xs @ upd_where P f ys"
  by (simp add: upd_where_def)

lemma length_upd_where [simp]: "length (upd_where P f rows) = length rows"
  by (simp add: upd_where_def)

lemma in_upd_where:
  "r \<in> set (upd_where P f rows) \<longleftrightarrow>
     (\<exists>r0 \<in> set rows. r = (if P r0 then f r0 else r0))"
  by (auto simp: upd_where_def)

lemma ball_upd_where:
  "(\<forall>r \<in> set (upd_where P f rows). Q r) \<longleftrightarrow> (\<forall>r \<in> set rows. Q (if P r then f r else r))"
  by (induction rows) auto

lemma bex_upd_where:
  "(\<exists>r \<in> set (upd_where P f rows). Q r) \<longleftrightarrow> (\<exists>r \<in> set rows. Q (if P r then f r else r))"
  by (induction rows) auto

lemma upd_where_id: "(\<And>r. r \<in> set rows \<Longrightarrow> \<not> P r) \<Longrightarrow> upd_where P f rows = rows"
  by (induction rows) auto

lemma map_upd_where_key:
  "(\<And>r. key (f r) = key r) \<Longrightarrow> map key (upd_where P f rows) = map key rows"
  by (induction rows) auto

lemma set_returning: "set (returning P f rows) = f ` {r \<in> set rows. P r}"
  by (auto simp: returning_def)

lemma returning_Nil_iff: "returning P f rows = [] \<longleftrightarrow> (\<forall>r \<in> set rows. \<not> P r)"
  by (auto simp: returning_def filter_empty_conv)

lemma filter_upd_where_out:
  "(\<And>r. P r \<Longrightarrow> \<not> Q (f r)) \<Longrightarrow> filter Q (upd_where P f rows) = filter (\<lambda>r. Q r \<and> \<not> P r) rows"
  by (induction rows) auto

lemma filter_upd_where_same:
  "(\<And>r. P r \<Longrightarrow> Q (f r) \<longleftrightarrow> Q r) \<Longrightarrow>
     filter Q (upd_where P f rows) = upd_where P f (filter Q rows)"
  by (induction rows) auto

text \<open>Rows that leave the index predicate keep it unique; so does a new row with a new key.\<close>

lemma distinct_map_filter_sub:
  "distinct (map key (filter Q rows)) \<Longrightarrow> (\<And>r. Q' r \<Longrightarrow> Q r) \<Longrightarrow>
     distinct (map key (filter Q' rows))"
  by (induction rows) (auto split: if_splits)

lemma unique_where_leave:
  assumes "unique_where Q key rows" and "\<And>r. P r \<Longrightarrow> \<not> Q (f r)"
  shows "unique_where Q key (upd_where P f rows)"
  using assms
  by (auto simp: unique_where_def filter_upd_where_out elim!: distinct_map_filter_sub)

lemma unique_where_keep:
  assumes "unique_where Q key rows" and "\<And>r. key (f r) = key r" and "\<And>r. Q (f r) = Q r"
  shows "unique_where Q key (upd_where P f rows)"
  using assms
  by (simp add: unique_where_def filter_upd_where_same map_upd_where_key)

lemma unique_where_snoc:
  "unique_where Q key (rows @ [r]) \<longleftrightarrow>
     unique_where Q key rows \<and> (Q r \<longrightarrow> (\<forall>r0 \<in> set rows. Q r0 \<longrightarrow> key r0 \<noteq> key r))"
  by (auto simp: unique_where_def) (metis image_eqI mem_Collect_eq)

lemma unique_whereD:
  "unique_where Q key rows \<Longrightarrow> r \<in> set rows \<Longrightarrow> r' \<in> set rows \<Longrightarrow> Q r \<Longrightarrow> Q r' \<Longrightarrow>
     key r = key r' \<Longrightarrow> r = r'"
  by (auto simp: unique_where_def distinct_map inj_on_def)

text \<open>The whole-table unique constraint is the index over all rows.\<close>

lemma unique_all: "unique_where (\<lambda>_. True) key rows \<longleftrightarrow> distinct (map key rows)"
  by (simp add: unique_where_def)

lemma find_upd_where_key:
  assumes "distinct (map key rows)" and "\<And>r. key (f r) = key r"
  shows "find (\<lambda>r. key r = k) (upd_where (\<lambda>r. key r = k) f rows) =
           map_option f (find (\<lambda>r. key r = k) rows)"
  using assms by (induction rows) auto

lemma find_SomeD: "find P xs = Some x \<Longrightarrow> x \<in> set xs \<and> P x"
  by (induction xs) (auto split: if_splits)

lemma find_distinct_eq:
  "distinct (map key rows) \<Longrightarrow> r \<in> set rows \<Longrightarrow> find (\<lambda>x. key x = key r) rows = Some r"
  by (induction rows) (auto simp: image_iff)

text \<open>The run of which only the answer is known.\<close>

lemma run_pair: "fst p = r \<Longrightarrow> p = (r, snd p)"
  by (cases p) simp

subsection \<open>Strings\<close>

text \<open>\<open>s.startsWith(p)\<close>.\<close>

definition starts_with :: "string \<Rightarrow> string \<Rightarrow> bool" where
  "starts_with p s \<longleftrightarrow> take (length p) s = p"

lemma starts_with_append [simp]: "starts_with p (p @ s)"
  by (simp add: starts_with_def)

lemma starts_withD: "starts_with p s \<Longrightarrow> s = p @ drop (length p) s"
  by (metis append_take_drop_id starts_with_def)

end
