(* ===== verification/Db_Tx.thy ===== *)
theory Db_Tx
  imports Prelude
begin

text \<open>
  The database client the three services share: a \<open>pg\<close> pool and the connections it lends. The
  repositories only see it through \<open>query\<close>, \<open>BEGIN\<close>, \<open>COMMIT\<close>, \<open>ROLLBACK\<close>, \<open>pool.connect()\<close> and
  \<open>release()\<close>; each call may fail, and other sessions may commit between two transactions. What the
  environment does is the \<open>script\<close> of the connection: one entry per call, saying what the other
  sessions have committed since the call before, the server's clock, and the fate of the call.
  The program runs in the monad \<open>dbm\<close> below, an exception is a value, and \<open>try\<close>/\<open>catch\<close>/\<open>finally\<close>
  are functions on it. A transaction is atomic with respect to the other sessions: the contents a
  transaction sees are those at its BEGIN and its own writes.
\<close>

subsection \<open>Errors\<close>

text \<open>
  Faults are the failures that do not come from the meaning of a statement: a lost connection, a
  serialization failure, a value the server cannot cast, a timeout. Their SQLSTATE codes are
  different from the constraint codes, which only the statements raise.
\<close>

datatype fault = Conn_Lost | Serialization_Failure | Bad_Cast | Stmt_Timeout

fun fault_code :: "fault \<Rightarrow> string" where
  "fault_code Conn_Lost = ''08006''"
| "fault_code Serialization_Failure = ''40001''"
| "fault_code Bad_Cast = ''22P02''"
| "fault_code Stmt_Timeout = ''57014''"

text \<open>
  What the TypeScript code throws: an error of \<open>pg\<close> with its \<open>code\<close> and \<open>constraint\<close>, a plain
  \<open>new Error(msg)\<close>, a NestJS HTTP exception with its status and error text, a Zod error.
\<close>

datatype exn =
    Db_Error string string
  | Js_Error string
  | Http_Error nat string
  | Zod_Error

definition fault_exn :: "fault \<Rightarrow> exn" where
  "fault_exn f = Db_Error (fault_code f) []"

definition unique_violation :: "string \<Rightarrow> exn" where
  "unique_violation c = Db_Error ''23505'' c"

definition foreign_key_violation :: "string \<Rightarrow> exn" where
  "foreign_key_violation c = Db_Error ''23503'' c"

definition tx_aborted :: exn where
  "tx_aborted = Db_Error ''25P02'' []"

fun exn_code :: "exn \<Rightarrow> string option" where
  "exn_code (Db_Error c k) = Some c"
| "exn_code _ = None"

fun exn_constraint :: "exn \<Rightarrow> string" where
  "exn_constraint (Db_Error c k) = k"
| "exn_constraint _ = []"

definition is_unique_violation :: "exn \<Rightarrow> bool" where
  "is_unique_violation e \<longleftrightarrow> exn_code e = Some ''23505''"

lemma fault_not_unique [simp]: "\<not> is_unique_violation (fault_exn f)"
  by (cases f) (simp_all add: is_unique_violation_def fault_exn_def)

lemma unique_is_unique [simp]: "is_unique_violation (unique_violation c)"
  by (simp add: is_unique_violation_def unique_violation_def)

lemma tx_aborted_not_unique [simp]: "\<not> is_unique_violation tx_aborted"
  by (simp add: is_unique_violation_def tx_aborted_def)

lemma foreign_not_unique [simp]: "\<not> is_unique_violation (foreign_key_violation c)"
  by (simp add: is_unique_violation_def foreign_key_violation_def)

lemma unique_constraint [simp]: "exn_constraint (unique_violation c) = c"
  by (simp add: unique_violation_def)

subsection \<open>Connections and the monad\<close>

datatype fate = Runs | Fails_before fault | Fails_after fault
  \<comment> \<open>\<open>Fails_after\<close>: the server did it, the answer was lost\<close>

record 'd tick =
  others :: "'d \<Rightarrow> 'd"
  clock :: instant
  fate :: fate

record 'd conn =
  committed :: 'd
  tx :: "'d option"
  tx_failed :: bool
  tx_now :: instant
  script :: "'d tick list"
  checked_out :: nat

type_synonym ('d, 'x, 'a) dbm =
  "('d, 'x) conn_scheme \<Rightarrow> (exn + 'a) \<times> ('d, 'x) conn_scheme"

text \<open>
  An SQL statement reads NOW() and the contents, and fails or gives its rows and new contents.
\<close>

type_synonym ('d, 'a) stmt = "instant \<Rightarrow> 'd \<Rightarrow> exn + ('a \<times> 'd)"

text \<open>The statement without its answer.\<close>

definition discarding :: "('d, 'a) stmt \<Rightarrow> ('d, unit) stmt" where
  "discarding st now d = (case st now d of Inl e \<Rightarrow> Inl e | Inr (a, d') \<Rightarrow> Inr ((), d'))"

lemma discarding_iff [simp]:
  "discarding st now d = Inr (u, d') \<longleftrightarrow> (\<exists>a. st now d = Inr (a, d'))"
  "discarding st now d = Inl e \<longleftrightarrow> st now d = Inl e"
  by (auto simp: discarding_def split: sum.splits)

definition retM :: "'a \<Rightarrow> ('d, 'x, 'a) dbm" where
  "retM a s = (Inr a, s)"

definition throwM :: "exn \<Rightarrow> ('d, 'x, 'a) dbm" where
  "throwM e s = (Inl e, s)"

text \<open>The outcome of a call that does not touch the connection.\<close>

definition liftM :: "exn + 'a \<Rightarrow> ('d, 'x, 'a) dbm" where
  "liftM r = (case r of Inl e \<Rightarrow> throwM e | Inr a \<Rightarrow> retM a)"

definition bindM :: "('d, 'x, 'a) dbm \<Rightarrow> ('a \<Rightarrow> ('d, 'x, 'b) dbm) \<Rightarrow> ('d, 'x, 'b) dbm" where
  "bindM m k s = (case m s of (Inl e, s') \<Rightarrow> (Inl e, s') | (Inr a, s') \<Rightarrow> k a s')"

definition try_catch :: "('d, 'x, 'a) dbm \<Rightarrow> (exn \<Rightarrow> ('d, 'x, 'a) dbm) \<Rightarrow> ('d, 'x, 'a) dbm" where
  "try_catch m h s = (case m s of (Inl e, s') \<Rightarrow> h e s' | (Inr a, s') \<Rightarrow> (Inr a, s'))"

text \<open>\<open>finally { f }\<close> where \<open>f\<close> only changes the state and does not throw.\<close>

definition finallyM ::
    "('d, 'x, 'a) dbm \<Rightarrow> (('d, 'x) conn_scheme \<Rightarrow> ('d, 'x) conn_scheme) \<Rightarrow> ('d, 'x, 'a) dbm" where
  "finallyM m f s = (case m s of (r, s') \<Rightarrow> (r, f s'))"

definition modifyM :: "(('d, 'x) conn_scheme \<Rightarrow> ('d, 'x) conn_scheme) \<Rightarrow> ('d, 'x, unit) dbm" where
  "modifyM f s = (Inr (), f s)"

definition getsM :: "(('d, 'x) conn_scheme \<Rightarrow> 'a) \<Rightarrow> ('d, 'x, 'a) dbm" where
  "getsM f s = (Inr (f s), s)"

text \<open>\<open>for (const x of xs) await body(x)\<close>\<close>

fun forM :: "'b list \<Rightarrow> ('b \<Rightarrow> ('d, 'x, unit) dbm) \<Rightarrow> ('d, 'x, unit) dbm" where
  "forM [] body = retM ()"
| "forM (x # xs) body = bindM (body x) (\<lambda>_. forM xs body)"

text \<open>The script's next entry; past its end nothing interferes and every call succeeds.\<close>

definition next_tick :: "('d, 'x) conn_scheme \<Rightarrow> 'd tick \<times> ('d, 'x) conn_scheme" where
  "next_tick s =
     (case script s of
        [] \<Rightarrow> (\<lparr>others = id, clock = tx_now s, fate = Runs\<rparr>, s)
      | t # ts \<Rightarrow> (t, s\<lparr>script := ts\<rparr>))"

definition connect :: "('d, 'x, unit) dbm" where
  "connect s =
     (case next_tick s of (t, s1) \<Rightarrow>
        (case fate t of
           Runs \<Rightarrow> (Inr (), s1\<lparr>checked_out := Suc (checked_out s1)\<rparr>)
         | Fails_before f \<Rightarrow> (Inl (fault_exn f), s1)
         | Fails_after f \<Rightarrow> (Inl (fault_exn f), s1)))"

definition release :: "('d, 'x) conn_scheme \<Rightarrow> ('d, 'x) conn_scheme" where
  "release s = s\<lparr>checked_out := checked_out s - 1\<rparr>"

definition begin_tx :: "('d, 'x, unit) dbm" where
  "begin_tx s =
     (case next_tick s of (t, s1) \<Rightarrow>
        (case tx s of
           Some w \<Rightarrow> if tx_failed s then (Inl tx_aborted, s1) else (Inr (), s1)
         | None \<Rightarrow>
             let d = others t (committed s) in
             (case fate t of
                Runs \<Rightarrow>
                  (Inr (), s1\<lparr>committed := d, tx := Some d, tx_failed := False, tx_now := clock t\<rparr>)
              | Fails_before f \<Rightarrow> (Inl (fault_exn f), s1\<lparr>committed := d\<rparr>)
              | Fails_after f \<Rightarrow> (Inl (fault_exn f), s1\<lparr>committed := d\<rparr>))))"

text \<open>COMMIT of an aborted transaction rolls it back and reports no error.\<close>

definition commit_tx :: "('d, 'x, unit) dbm" where
  "commit_tx s =
     (case next_tick s of (t, s1) \<Rightarrow>
        (case tx s of
           None \<Rightarrow> (Inr (), s1)
         | Some w \<Rightarrow>
             if tx_failed s then (Inr (), s1\<lparr>tx := None, tx_failed := False\<rparr>)
             else (case fate t of
                     Runs \<Rightarrow> (Inr (), s1\<lparr>committed := w, tx := None\<rparr>)
                   | Fails_before f \<Rightarrow> (Inl (fault_exn f), s1\<lparr>tx := None\<rparr>)
                   | Fails_after f \<Rightarrow> (Inl (fault_exn f), s1\<lparr>committed := w, tx := None\<rparr>))))"

text \<open>ROLLBACK always ends the transaction: if the call fails, the connection and with it the
  transaction are gone.\<close>

definition rollback_tx :: "('d, 'x, unit) dbm" where
  "rollback_tx s =
     (case next_tick s of (t, s1) \<Rightarrow>
        (case fate t of
           Runs \<Rightarrow> (Inr (), s1\<lparr>tx := None, tx_failed := False\<rparr>)
         | Fails_before f \<Rightarrow> (Inl (fault_exn f), s1\<lparr>tx := None, tx_failed := False\<rparr>)
         | Fails_after f \<Rightarrow> (Inl (fault_exn f), s1\<lparr>tx := None, tx_failed := False\<rparr>)))"

text \<open>
  A statement: inside a transaction it works on the transaction's contents and an error aborts the
  transaction; outside it is a transaction of its own (autocommit).
\<close>

definition query :: "('d, 'a) stmt \<Rightarrow> ('d, 'x, 'a) dbm" where
  "query st s =
     (case next_tick s of (t, s1) \<Rightarrow>
        (case tx s of
           Some w \<Rightarrow>
             if tx_failed s then (Inl tx_aborted, s1)
             else (case fate t of
                     Runs \<Rightarrow>
                       (case st (tx_now s) w of
                          Inl e \<Rightarrow> (Inl e, s1\<lparr>tx_failed := True\<rparr>)
                        | Inr (a, w') \<Rightarrow> (Inr a, s1\<lparr>tx := Some w'\<rparr>))
                   | Fails_before f \<Rightarrow> (Inl (fault_exn f), s1\<lparr>tx_failed := True\<rparr>)
                   | Fails_after f \<Rightarrow> (Inl (fault_exn f), s1\<lparr>tx_failed := True\<rparr>))
         | None \<Rightarrow>
             let d = others t (committed s) in
             (case fate t of
                Fails_before f \<Rightarrow> (Inl (fault_exn f), s1\<lparr>committed := d\<rparr>)
              | Runs \<Rightarrow>
                  (case st (clock t) d of
                     Inl e \<Rightarrow> (Inl e, s1\<lparr>committed := d\<rparr>)
                   | Inr (a, d') \<Rightarrow> (Inr a, s1\<lparr>committed := d'\<rparr>))
              | Fails_after f \<Rightarrow>
                  (case st (clock t) d of
                     Inl e \<Rightarrow> (Inl e, s1\<lparr>committed := d\<rparr>)
                   | Inr (a, d') \<Rightarrow> (Inl (fault_exn f), s1\<lparr>committed := d'\<rparr>)))))"

text \<open>
  The shape every transactional repository method has: \<open>pool.connect()\<close>, a body, on an exception
  \<open>try { ROLLBACK } catch {}\<close> and rethrow, and \<open>finally release()\<close>.
\<close>

definition with_conn :: "('d, 'x, 'a) dbm \<Rightarrow> ('d, 'x, 'a) dbm" where
  "with_conn m = bindM connect (\<lambda>_. finallyM m release)"

definition rolling_back :: "('d, 'x, 'a) dbm \<Rightarrow> ('d, 'x, 'a) dbm" where
  "rolling_back m =
     try_catch m (\<lambda>e. bindM (try_catch rollback_tx (\<lambda>_. retM ())) (\<lambda>_. throwM e))"

subsection \<open>Weakest preconditions\<close>

definition wp :: "('d, 'x, 'a) dbm \<Rightarrow> ('a \<Rightarrow> ('d, 'x) conn_scheme \<Rightarrow> bool) \<Rightarrow>
    (exn \<Rightarrow> ('d, 'x) conn_scheme \<Rightarrow> bool) \<Rightarrow> ('d, 'x) conn_scheme \<Rightarrow> bool" where
  "wp m Q E s \<longleftrightarrow> (case m s of (Inl e, s') \<Rightarrow> E e s' | (Inr a, s') \<Rightarrow> Q a s')"

named_theorems wp_simps "weakest preconditions of the control structures"

lemma wp_ret [wp_simps]: "wp (retM a) Q E = Q a"
  by (rule ext) (simp add: wp_def retM_def)

lemma wp_throw [wp_simps]: "wp (throwM e) Q E = E e"
  by (rule ext) (simp add: wp_def throwM_def)

lemma wp_liftM: "wp (liftM r) Q E s = (case r of Inl e \<Rightarrow> E e s | Inr a \<Rightarrow> Q a s)"
  by (simp add: liftM_def wp_simps split: sum.split)

lemma wp_bind [wp_simps]: "wp (bindM m k) Q E s = wp m (\<lambda>a. wp (k a) Q E) E s"
  by (simp add: wp_def bindM_def split: prod.splits sum.splits)

lemma wp_try [wp_simps]: "wp (try_catch m h) Q E s = wp m Q (\<lambda>e. wp (h e) Q E) s"
  by (simp add: wp_def try_catch_def split: prod.splits sum.splits)

lemma wp_finally [wp_simps]:
  "wp (finallyM m f) Q E s = wp m (\<lambda>a s'. Q a (f s')) (\<lambda>e s'. E e (f s')) s"
  by (simp add: wp_def finallyM_def split: prod.splits sum.splits)

lemma wp_modify [wp_simps]: "wp (modifyM f) Q E s = Q () (f s)"
  by (simp add: wp_def modifyM_def)

lemma wp_gets [wp_simps]: "wp (getsM f) Q E s = Q (f s) s"
  by (simp add: wp_def getsM_def)

lemma wp_if [wp_simps]: "wp (if b then m else m') Q E s = (if b then wp m Q E s else wp m' Q E s)"
  by simp

lemma wp_mono:
  "wp m Q E s \<Longrightarrow> (\<And>a s'. Q a s' \<Longrightarrow> Q' a s') \<Longrightarrow> (\<And>e s'. E e s' \<Longrightarrow> E' e s') \<Longrightarrow> wp m Q' E' s"
  by (auto simp: wp_def split: prod.splits sum.splits)

lemma wpD: "wp m Q E s \<Longrightarrow> m s = (r, s') \<Longrightarrow> (case r of Inl e \<Rightarrow> E e s' | Inr a \<Rightarrow> Q a s')"
  by (auto simp: wp_def split: sum.splits)

subsection \<open>What the other sessions may do\<close>

text \<open>
  A reasoning context \<open>G\<close> says what is assumed of the environment: \<open>rel G\<close> is a preorder that every
  interference respects, and unless \<open>faulty G\<close> no call fails; \<open>rely G s\<close> says the script obeys it.
  The states of a connection between calls: idle, in an open transaction, or pending (anything, with
  the committed contents \<open>d\<close>), with \<open>n\<close> lent connections and the rest \<open>m\<close> of the process's state.
\<close>

record 'd environment =
  rel :: "'d \<Rightarrow> 'd \<Rightarrow> bool"
  faulty :: bool

definition rely :: "'d environment \<Rightarrow> ('d, 'x) conn_scheme \<Rightarrow> bool" where
  "rely G s \<longleftrightarrow> reflp (rel G) \<and> transp (rel G) \<and>
     (\<forall>t \<in> set (script s). (\<forall>d. rel G d (others t d)) \<and> (faulty G \<or> fate t = Runs))"

definition pending where
  "pending G d n m s \<longleftrightarrow>
     rely G s \<and> committed s = d \<and> checked_out s = n \<and> conn.more s = m"

definition idle where
  "idle G d n m s \<longleftrightarrow> pending G d n m s \<and> tx s = None"

definition open_tx where
  "open_tx G d now w n m s \<longleftrightarrow>
     pending G d n m s \<and> tx s = Some w \<and> \<not> tx_failed s \<and> tx_now s = now"

lemmas conn_state_defs = pending_def idle_def open_tx_def rely_def

lemma idle_pending [simp]: "idle G d n m s \<Longrightarrow> pending G d n m s"
  by (simp add: idle_def)

lemma open_pending [simp]: "open_tx G d now w n m s \<Longrightarrow> pending G d n m s"
  by (simp add: open_tx_def)

lemma idle_refl: "idle G d n m s \<Longrightarrow> rel G d d"
  by (auto simp: conn_state_defs dest: reflpD)

lemma idle_trans: "idle G d n m s \<Longrightarrow> rel G a b \<Longrightarrow> rel G b c \<Longrightarrow> rel G a c"
  by (auto simp: conn_state_defs dest: transpD)

lemma release_idle [simp]: "idle G d (Suc n) m s \<Longrightarrow> idle G d n m (release s)"
  by (simp add: conn_state_defs release_def)

lemma next_tick_pending:
  "pending G d n m s \<Longrightarrow> next_tick s = (t, s1) \<Longrightarrow>
     pending G d n m s1 \<and> rel G d (others t d) \<and> tx s1 = tx s \<and> tx_failed s1 = tx_failed s \<and>
     tx_now s1 = tx_now s \<and> rely G s1 \<and> (faulty G \<or> fate t = Runs)"
  by (auto simp: next_tick_def conn_state_defs dest: reflpD split: list.splits)

lemma wp_connect:
  assumes "idle G d n m s"
    and "\<And>s'. idle G d (Suc n) m s' \<Longrightarrow> Q () s'"
    and "\<And>f s'. faulty G \<Longrightarrow> idle G d n m s' \<Longrightarrow> E (fault_exn f) s'"
  shows "wp connect Q E s"
proof -
  obtain t s1 where t: "next_tick s = (t, s1)" by (cases "next_tick s")
  with assms(1) have "idle G d n m s1" "faulty G \<or> fate t = Runs"
    using next_tick_pending [of G d n m s t s1] by (simp_all add: idle_def)
  with t assms(2,3) show ?thesis
    by (auto simp: wp_def connect_def conn_state_defs split: fate.splits)
qed

lemma wp_begin:
  assumes "idle G d n m s"
    and "\<And>d0 now s'. rel G d d0 \<Longrightarrow> open_tx G d0 now d0 n m s' \<Longrightarrow> Q () s'"
    and "\<And>d0 f s'. faulty G \<Longrightarrow> rel G d d0 \<Longrightarrow> idle G d0 n m s' \<Longrightarrow> E (fault_exn f) s'"
  shows "wp begin_tx Q E s"
proof -
  obtain t s1 where t: "next_tick s = (t, s1)" by (cases "next_tick s")
  with assms(1) have "pending G d n m s1" "rel G d (others t d)" "tx s = None" "tx s1 = None"
    "committed s = d"
      "faulty G \<or> fate t = Runs"
    using next_tick_pending [of G d n m s t s1] by (auto simp: idle_def pending_def)
  with t assms(2,3) show ?thesis
    by (auto simp: wp_def begin_tx_def conn_state_defs Let_def split: fate.splits)
qed

lemma wp_query:
  assumes "open_tx G d now w n m s"
    and "\<And>a w' s'. st now w = Inr (a, w') \<Longrightarrow> open_tx G d now w' n m s' \<Longrightarrow> Q a s'"
    and "\<And>e s'. st now w = Inl e \<Longrightarrow> pending G d n m s' \<Longrightarrow> E e s'"
    and "\<And>f s'. faulty G \<Longrightarrow> pending G d n m s' \<Longrightarrow> E (fault_exn f) s'"
  shows "wp (query st) Q E s"
proof -
  obtain t s1 where t: "next_tick s = (t, s1)" by (cases "next_tick s")
  with assms(1) have "open_tx G d now w n m s1" "faulty G \<or> fate t = Runs"
    using next_tick_pending [of G d n m s t s1] by (auto simp: open_tx_def)
  with t assms show ?thesis
    by (auto simp: wp_def query_def conn_state_defs split: fate.splits sum.splits)
qed

lemma wp_query_auto:
  assumes "idle G d n m s"
    and "\<And>d0 now a d' s'. rel G d d0 \<Longrightarrow> st now d0 = Inr (a, d') \<Longrightarrow> idle G d' n m s' \<Longrightarrow> Q a s'"
    and "\<And>d0 now e s'. rel G d d0 \<Longrightarrow> st now d0 = Inl e \<Longrightarrow> idle G d0 n m s' \<Longrightarrow> E e s'"
    and "\<And>d0 f s'. faulty G \<Longrightarrow> rel G d d0 \<Longrightarrow> idle G d0 n m s' \<Longrightarrow> E (fault_exn f) s'"
    and "\<And>d0 now a d' f s'. faulty G \<Longrightarrow> rel G d d0 \<Longrightarrow> st now d0 = Inr (a, d') \<Longrightarrow> idle G d' n m s' \<Longrightarrow>
           E (fault_exn f) s'"
  shows "wp (query st) Q E s"
proof -
  obtain t s1 where t: "next_tick s = (t, s1)" by (cases "next_tick s")
  with assms(1) have s1: "pending G d n m s1" "tx s = None" "tx s1 = None" "committed s = d"
      "faulty G \<or> fate t = Runs"
    and R: "rel G d (others t d)"
    using next_tick_pending [of G d n m s t s1] by (auto simp: idle_def pending_def)
  have idle: "idle G d' n m (s1\<lparr>committed := d'\<rparr>)" for d'
    using s1 by (simp add: conn_state_defs)
  show ?thesis
    using t s1 assms(2,3) [OF R] assms(4,5) [OF _ R] idle
    by (auto simp: wp_def query_def Let_def split: fate.splits sum.splits)
qed

lemma wp_commit:
  assumes "open_tx G d now w n m s"
    and "\<And>s'. idle G w n m s' \<Longrightarrow> Q () s'"
    and "\<And>f s'. faulty G \<Longrightarrow> idle G d n m s' \<Longrightarrow> E (fault_exn f) s'"
    and "\<And>f s'. faulty G \<Longrightarrow> idle G w n m s' \<Longrightarrow> E (fault_exn f) s'"
  shows "wp commit_tx Q E s"
proof -
  obtain t s1 where t: "next_tick s = (t, s1)" by (cases "next_tick s")
  with assms(1) have "open_tx G d now w n m s1" "faulty G \<or> fate t = Runs"
    using next_tick_pending [of G d n m s t s1] by (auto simp: open_tx_def)
  with t assms show ?thesis
    by (auto simp: wp_def commit_tx_def conn_state_defs split: fate.splits)
qed

lemma wp_rollback:
  assumes "pending G d n m s"
    and "\<And>s'. idle G d n m s' \<Longrightarrow> Q () s'"
    and "\<And>f s'. faulty G \<Longrightarrow> idle G d n m s' \<Longrightarrow> E (fault_exn f) s'"
  shows "wp rollback_tx Q E s"
proof -
  obtain t s1 where t: "next_tick s = (t, s1)" by (cases "next_tick s")
  with assms(1) have "pending G d n m s1" "faulty G \<or> fate t = Runs"
    using next_tick_pending [of G d n m s t s1] by auto
  with t assms(2,3) show ?thesis
    by (auto simp: wp_def rollback_tx_def conn_state_defs split: fate.splits)
qed

subsection \<open>The transaction contract\<close>

text \<open>
  What a repository method promises: run from an idle connection it behaves like one big statement
  \<open>st\<close>. If it returns, the statement has been executed once, on the contents \<open>d0\<close> the other sessions
  left; if it throws, nothing has been done, or only the answer to the COMMIT was lost. The
  connection is idle again and has been given back in every case.
\<close>

definition atomic_ok where
  "atomic_ok G st d n m a s' \<longleftrightarrow>
     (\<exists>d0 now d'. rel G d d0 \<and> st now d0 = Inr (a, d') \<and> idle G d' n m s')"

definition atomic_err where
  "atomic_err G st d n m e s' \<longleftrightarrow>
     (\<exists>d0 now. rel G d d0 \<and>
        (st now d0 = Inl e \<and> idle G d0 n m s' \<or>
         faulty G \<and> (\<exists>f. e = fault_exn f) \<and>
           (idle G d0 n m s' \<or> (\<exists>a d'. st now d0 = Inr (a, d') \<and> idle G d' n m s'))))"

lemma atomic_okI: "rel G d d0 \<Longrightarrow> st now d0 = Inr (a, d') \<Longrightarrow> idle G d' n m s' \<Longrightarrow> atomic_ok G st d n m a s'"
  by (auto simp: atomic_ok_def)

lemma atomic_errI_stmt: "rel G d d0 \<Longrightarrow> st now d0 = Inl e \<Longrightarrow> idle G d0 n m s' \<Longrightarrow> atomic_err G st d n m e s'"
  by (auto simp: atomic_err_def)

lemma atomic_errI_none: "faulty G \<Longrightarrow> rel G d d0 \<Longrightarrow> idle G d0 n m s' \<Longrightarrow> atomic_err G st d n m (fault_exn f) s'"
  by (auto simp: atomic_err_def)

lemma atomic_errI_lost:
  "faulty G \<Longrightarrow> rel G d d0 \<Longrightarrow> st now d0 = Inr (a, d') \<Longrightarrow> idle G d' n m s' \<Longrightarrow>
     atomic_err G st d n m (fault_exn f) s'"
  by (auto simp: atomic_err_def)

text \<open>
  The steps of a transactional method and the ends of its paths, in the form the proofs use them:
  the connection has been lent (\<open>Suc n\<close>), the transaction was opened on \<open>d0\<close> at \<open>now\<close>.
\<close>

lemmas tx_steps = wp_connect wp_begin wp_query wp_commit wp_rollback
  wp_rollback [OF open_pending] wp_rollback [OF idle_pending]

lemma end_connect: "faulty G \<Longrightarrow> idle G d n m s' \<Longrightarrow> atomic_err G st d n m (fault_exn f) s'"
  by (blast intro: atomic_errI_none idle_refl)

lemma end_none:
  "faulty G \<Longrightarrow> rel G d d0 \<Longrightarrow> idle G d0 (Suc n) m s' \<Longrightarrow> atomic_err G st d n m (fault_exn f) (release s')"
  by (blast intro: atomic_errI_none release_idle)

lemma end_begin:
  "faulty G \<Longrightarrow> rel G d d0 \<Longrightarrow> idle G d0 n m s' \<Longrightarrow> atomic_err G st d n m (fault_exn f) s'"
  by (blast intro: atomic_errI_none)

lemma end_stmt:
  "rel G d d0 \<Longrightarrow> open_tx G d0 now d0 n' m1 s1 \<Longrightarrow> idle G d0 (Suc n) m s' \<Longrightarrow> st now d0 = Inl e \<Longrightarrow>
     atomic_err G st d n m e (release s')"
  by (blast intro: atomic_errI_stmt release_idle)

lemma end_lost:
  "faulty G \<Longrightarrow> rel G d d0 \<Longrightarrow> open_tx G d0 now d0 n' m1 s1 \<Longrightarrow> idle G d' (Suc n) m s' \<Longrightarrow> st now d0 = Inr (a, d') \<Longrightarrow>
     atomic_err G st d n m (fault_exn f) (release s')"
  by (blast intro: atomic_errI_lost release_idle)

lemma end_ok:
  "rel G d d0 \<Longrightarrow> open_tx G d0 now d0 n' m1 s1 \<Longrightarrow> idle G d' (Suc n) m s' \<Longrightarrow> st now d0 = Inr (a, d') \<Longrightarrow>
     atomic_ok G st d n m a (release s')"
  by (blast intro: atomic_okI release_idle)

lemmas tx_ends = end_connect end_none end_begin end_stmt end_lost end_ok

text \<open>
  \<open>quiet\<close>: no other session commits anything during the run. \<open>reliable\<close>: no call fails.
  \<open>keeps_inv I\<close>: the other sessions preserve \<open>I\<close>.
\<close>

definition quiet :: "('d, 'x) conn_scheme \<Rightarrow> bool" where
  "quiet s \<longleftrightarrow> (\<forall>t \<in> set (script s). others t = id)"

definition reliable :: "('d, 'x) conn_scheme \<Rightarrow> bool" where
  "reliable s \<longleftrightarrow> (\<forall>t \<in> set (script s). fate t = Runs)"

definition keeps_inv :: "('d \<Rightarrow> bool) \<Rightarrow> ('d, 'x) conn_scheme \<Rightarrow> bool" where
  "keeps_inv I s \<longleftrightarrow> (\<forall>t \<in> set (script s). \<forall>d. I d \<longrightarrow> I (others t d))"

definition alone :: "bool \<Rightarrow> 'd environment" where
  "alone b = \<lparr>rel = (=), faulty = b\<rparr>"

definition preserving :: "('d \<Rightarrow> bool) \<Rightarrow> 'd environment" where
  "preserving I = \<lparr>rel = (\<lambda>d d'. I d \<longrightarrow> I d'), faulty = True\<rparr>"

lemma environment_sel [simp]:
  "rel (alone b) = (=)" "faulty (alone b) = b"
  "rel (preserving I) = (\<lambda>d d'. I d \<longrightarrow> I d')" "faulty (preserving I)"
  by (simp_all add: alone_def preserving_def)

lemma quiet_idle:
  "quiet s \<Longrightarrow> tx s = None \<Longrightarrow> idle (alone True) (committed s) (checked_out s) (conn.more s) s"
  by (auto simp: conn_state_defs quiet_def reflp_def transp_def)

lemma reliable_idle:
  "quiet s \<Longrightarrow> reliable s \<Longrightarrow> tx s = None \<Longrightarrow>
     idle (alone False) (committed s) (checked_out s) (conn.more s) s"
  by (auto simp: conn_state_defs quiet_def reliable_def reflp_def transp_def)

lemma keeps_inv_idle:
  "keeps_inv I s \<Longrightarrow> tx s = None \<Longrightarrow>
     idle (preserving I) (committed s) (checked_out s) (conn.more s) s"
  by (auto simp: conn_state_defs keeps_inv_def reflp_def transp_def)

lemma idleD:
  "idle G d n m s \<Longrightarrow> committed s = d \<and> checked_out s = n \<and> conn.more s = m \<and> tx s = None"
  by (simp add: conn_state_defs)

text \<open>A method that kept the contract, seen from outside: nothing done, or the statement done.\<close>

definition all_or_nothing where
  "all_or_nothing st d r s' \<longleftrightarrow>
     (case r of
        Inr a \<Rightarrow> \<exists>now. st now d = Inr (a, committed s')
      | Inl e \<Rightarrow> committed s' = d \<or> (\<exists>now a. st now d = Inr (a, committed s')))"

locale atomic_tx =
  fixes op :: "('d, 'x, 'a) dbm"
    and st :: "('d, 'a) stmt"
  assumes atomic_tx: "idle G d n m s \<Longrightarrow>
    wp op (\<lambda>a s'. \<exists>m'. atomic_ok G st d n m' a s') (\<lambda>e s'. \<exists>m'. atomic_err G st d n m' e s') s"
begin

lemma run_atomic:
  assumes "quiet s" and "tx s = None" and "op s = (r, s')"
  shows "all_or_nothing st (committed s) r s'"
    and "tx s' = None" and "checked_out s' = checked_out s"
  using wpD [OF atomic_tx [OF quiet_idle [OF assms(1,2)]] assms(3)]
  by (auto simp: all_or_nothing_def atomic_ok_def atomic_err_def dest!: idleD split: sum.splits)

lemma run_returns:
  assumes "quiet s" and "tx s = None" and "op s = (Inr a, s')"
  shows "\<exists>now. st now (committed s) = Inr (a, committed s')"
  using run_atomic(1) [OF assms] by (simp add: all_or_nothing_def)

lemma run_error:
  assumes "quiet s" and "tx s = None" and "op s = (Inl e, s')"
  shows "(\<exists>f. e = fault_exn f) \<or> (\<exists>now. st now (committed s) = Inl e)"
  using wpD [OF atomic_tx [OF quiet_idle [OF assms(1,2)]] assms(3)]
  by (auto simp: atomic_err_def)

lemma run_reliable:
  assumes "quiet s" and "reliable s" and "tx s = None" and "op s = (r, s')"
  shows "\<exists>now. (case r of Inr a \<Rightarrow> st now (committed s) = Inr (a, committed s')
                        | Inl e \<Rightarrow> st now (committed s) = Inl e \<and> committed s' = committed s)"
  using wpD [OF atomic_tx [OF reliable_idle [OF assms(1-3)]] assms(4)]
  by (auto simp: atomic_ok_def atomic_err_def dest!: idleD split: sum.splits)

lemma run_invariant:
  assumes "keeps_inv I s" and "tx s = None" and "op s = (r, s')" and "I (committed s)"
    and keep: "\<And>now d a d'. I d \<Longrightarrow> st now d = Inr (a, d') \<Longrightarrow> I d'"
  shows "I (committed s')" and "tx s' = None" and "checked_out s' = checked_out s"
proof -
  have "I (committed s') \<and> tx s' = None \<and> checked_out s' = checked_out s"
    using wpD [OF atomic_tx [OF keeps_inv_idle [OF assms(1,2)]] assms(3)] assms(4)
    by (auto simp: atomic_ok_def atomic_err_def dest!: idleD split: sum.splits intro: keep)
  then show "I (committed s')" "tx s' = None" "checked_out s' = checked_out s" by simp_all
qed

end

text \<open>
  The guarantee side: a run whose statement respects \<open>rel G\<close> moves the committed contents along
  \<open>rel G\<close> and gives the connection back, whatever the environment of \<open>G\<close> does.
\<close>

definition settled where
  "settled G d n s' \<longleftrightarrow> (\<exists>d' m'. rel G d d' \<and> idle G d' n m' s')"

lemma settledI: "idle G d n m s \<Longrightarrow> settled G d n s"
  unfolding settled_def by (intro exI conjI) (erule idle_refl)

lemma settledI2: "rel G a d \<Longrightarrow> idle G d n m s \<Longrightarrow> settled G a n s"
  unfolding settled_def by blast

lemma settled_trans: "idle G d n m s \<Longrightarrow> rel G a d \<Longrightarrow> settled G d n s' \<Longrightarrow> settled G a n s'"
  unfolding settled_def by (elim exE conjE, intro exI conjI) (rule idle_trans)

text \<open>The methods that touch nothing else of the process's state.\<close>

locale atomic_op =
  fixes op :: "('d, 'x, 'a) dbm"
    and st :: "('d, 'a) stmt"
  assumes atomic: "idle G d n m s \<Longrightarrow> wp op (atomic_ok G st d n m) (atomic_err G st d n m) s"
begin

text \<open>The contract as a rule for callers.\<close>

lemma wp_run:
  assumes "idle G d n m s"
    and "\<And>d0 now a d' s'. rel G d d0 \<Longrightarrow> st now d0 = Inr (a, d') \<Longrightarrow> idle G d' n m s' \<Longrightarrow> Q a s'"
    and "\<And>d0 now e s'. rel G d d0 \<Longrightarrow> st now d0 = Inl e \<Longrightarrow> idle G d0 n m s' \<Longrightarrow> E e s'"
    and "\<And>d0 f s'. faulty G \<Longrightarrow> rel G d d0 \<Longrightarrow> idle G d0 n m s' \<Longrightarrow> E (fault_exn f) s'"
    and "\<And>d0 now a d' f s'. faulty G \<Longrightarrow> rel G d d0 \<Longrightarrow> st now d0 = Inr (a, d') \<Longrightarrow> idle G d' n m s' \<Longrightarrow>
           E (fault_exn f) s'"
  shows "wp op Q E s"
proof (rule wp_mono [OF atomic [OF assms(1)]])
  show "Q a s'" if "atomic_ok G st d n m a s'" for a s'
    using that assms(2) by (auto simp: atomic_ok_def)
  show "E e s'" if "atomic_err G st d n m e s'" for e s'
    using that assms(3-5) by (auto simp: atomic_err_def)
qed

lemma wp_reliable:
  assumes "idle (alone False) d n m s"
    and "\<And>now a d' s'. st now d = Inr (a, d') \<Longrightarrow> idle (alone False) d' n m s' \<Longrightarrow> Q a s'"
    and "\<And>now e s'. st now d = Inl e \<Longrightarrow> idle (alone False) d n m s' \<Longrightarrow> E e s'"
  shows "wp op Q E s"
  by (rule wp_run [OF assms(1)]) (use assms(2,3) in auto)

text \<open>The method followed by work of the process that does not touch the database.\<close>

lemma wp_then:
  assumes "idle G d n m s"
    and "\<And>a d' s'. idle G d' n m s' \<Longrightarrow> wp (k a) (\<lambda>_ s''. \<exists>m'. idle G d' n m' s'') (\<lambda>_ _. False) s'"
  shows "wp (bindM op k) (\<lambda>_ s'. \<exists>m'. atomic_ok G (discarding st) d n m' () s')
    (\<lambda>e s'. \<exists>m'. atomic_err G (discarding st) d n m' e s') s"
  unfolding wp_bind
proof (rule wp_run [OF assms(1)])
  fix d0 now a d' s' assume "rel G d d0" "st now d0 = Inr (a, d')" "idle G d' n m s'"
  then show "wp (k a) (\<lambda>_ s'. \<exists>m'. atomic_ok G (discarding st) d n m' () s')
    (\<lambda>e s'. \<exists>m'. atomic_err G (discarding st) d n m' e s') s'"
    by (intro wp_mono [OF assms(2)]) (auto simp: atomic_ok_def, blast)
qed (auto simp: atomic_err_def, blast)

lemma run_frame:
  assumes "quiet s" and "tx s = None" and "op s = (r, s')"
  shows "conn.more s' = conn.more s"
  using wpD [OF atomic [OF quiet_idle [OF assms(1,2)]] assms(3)]
  by (auto simp: atomic_ok_def atomic_err_def dest!: idleD split: sum.splits)

end

sublocale atomic_op \<subseteq> atomic_tx op st
  by unfold_locales (rule wp_mono [OF atomic], auto)

lemma atomic_settled:
  assumes "idle G d n m s" and keep: "\<And>now d a d'. st now d = Inr (a, d') \<Longrightarrow> rel G d d'"
  shows "atomic_ok G st d n m' a s' \<Longrightarrow> settled G d n s'"
    and "atomic_err G st d n m' e s' \<Longrightarrow> settled G d n s'"
proof -
  have t: "rel G d d'" if "rel G d d0" "st now d0 = Inr (a, d')" for d0 now a d'
    using idle_trans [OF assms(1) that(1) keep [OF that(2)]] .
  show "atomic_ok G st d n m' a s' \<Longrightarrow> settled G d n s'"
    unfolding atomic_ok_def settled_def using t by blast
  show "atomic_err G st d n m' e s' \<Longrightarrow> settled G d n s'"
    unfolding atomic_err_def settled_def using t by blast
qed

context atomic_tx begin

lemma wp_settled:
  assumes "idle G d n m s" and "\<And>now d a d'. st now d = Inr (a, d') \<Longrightarrow> rel G d d'"
  shows "wp op (\<lambda>_. settled G d n) (\<lambda>_. settled G d n) s"
  by (rule wp_mono [OF atomic_tx [OF assms(1)]]) (auto intro: atomic_settled [OF assms])

end

text \<open>A single statement outside a transaction keeps the contract.\<close>

lemma wp_query_atomic:
  "idle G d n m s \<Longrightarrow> wp (query st) (atomic_ok G st d n m) (atomic_err G st d n m) s"
  by (rule wp_query_auto, assumption)
    (blast intro: atomic_okI atomic_errI_stmt atomic_errI_none atomic_errI_lost)+

interpretation autocommit: atomic_op "query st" st for st
  by unfold_locales (rule wp_query_atomic)

end
