(* ===== verification/Guarantee.thy ===== *)
theory Guarantee
  imports Db_Tx
begin

text \<open>
  The guarantee of a whole handler, compositionally: \<open>guarantees G op\<close> says that \<open>op\<close>, run from an idle
  connection in any environment that respects \<open>rel G\<close>, itself moves the committed contents along
  \<open>rel G\<close>, ends idle and gives every connection back, however it ends. One rule per construct of the
  monad, one for a method under the transaction contract.
\<close>

definition guarantees :: "'d environment \<Rightarrow> ('d, 'x, 'a) dbm \<Rightarrow> bool" where
  "guarantees G op \<longleftrightarrow>
     (\<forall>d n m s. idle G d n m s \<longrightarrow> wp op (\<lambda>_. settled G d n) (\<lambda>_. settled G d n) s)"

named_theorems guarantee "the guarantees of the control structures and of the methods"

lemma guaranteesD:
  "guarantees G op \<Longrightarrow> idle G d n m s \<Longrightarrow> wp op (\<lambda>_. settled G d n) (\<lambda>_. settled G d n) s"
  by (simp add: guarantees_def)

lemma guarantees_ret [guarantee]: "guarantees G (retM a)"
  by (auto simp: guarantees_def wp_ret intro: settledI)

lemma guarantees_throw [guarantee]: "guarantees G (throwM e)"
  by (auto simp: guarantees_def wp_throw intro: settledI)

lemma guarantees_lift [guarantee]: "guarantees G (liftM r)"
  unfolding liftM_def by (cases r) (simp_all add: guarantees_ret guarantees_throw)

lemma guarantees_next:
  assumes "guarantees G op" and "settled G d n s"
  shows "wp op (\<lambda>_. settled G d n) (\<lambda>_. settled G d n) s"
proof -
  obtain d' m' where d': "rel G d d'" "idle G d' n m' s" using assms(2) by (auto simp: settled_def)
  show ?thesis
    by (rule wp_mono [OF guaranteesD [OF assms(1) d'(2)]]) (rule settled_trans [OF d'(2,1)], assumption)+
qed

lemma guarantees_bind [guarantee]:
  "guarantees G op \<Longrightarrow> (\<And>a. guarantees G (k a)) \<Longrightarrow> guarantees G (bindM op k)"
  unfolding guarantees_def [of G "bindM op k"] wp_bind
  by (auto intro: wp_mono [OF guaranteesD] guarantees_next)

lemma guarantees_try [guarantee]:
  "guarantees G op \<Longrightarrow> (\<And>e. guarantees G (h e)) \<Longrightarrow> guarantees G (try_catch op h)"
  unfolding guarantees_def [of G "try_catch op h"] wp_try
  by (auto intro: wp_mono [OF guaranteesD] guarantees_next)

text \<open>Bookkeeping of the process: the fields of the connection are left alone.\<close>

definition bookkeeping :: "(('d, 'x) conn_scheme \<Rightarrow> ('d, 'x) conn_scheme) \<Rightarrow> bool" where
  "bookkeeping f \<longleftrightarrow>
     (\<forall>s. committed (f s) = committed s \<and> tx (f s) = tx s \<and> script (f s) = script s \<and>
          checked_out (f s) = checked_out s)"

lemma bookkeeping_idle:
  "bookkeeping f \<Longrightarrow> idle G d n m s \<Longrightarrow> idle G d n (conn.more (f s)) (f s)"
  by (simp add: conn_state_defs bookkeeping_def)

lemma bookkeeping_settled: "bookkeeping f \<Longrightarrow> settled G d n s \<Longrightarrow> settled G d n (f s)"
  unfolding settled_def by (blast intro: bookkeeping_idle)

lemma guarantees_modify [guarantee]: "bookkeeping f \<Longrightarrow> guarantees G (modifyM f)"
  by (auto simp: guarantees_def wp_modify intro: settledI bookkeeping_settled)

lemma guarantees_gets [guarantee]: "guarantees G (getsM f)"
  by (auto simp: guarantees_def wp_gets intro: settledI)

lemma guarantees_finally [guarantee]:
  "guarantees G op \<Longrightarrow> bookkeeping f \<Longrightarrow> guarantees G (finallyM op f)"
  unfolding guarantees_def [of G "finallyM op f"] wp_finally
  by (intro allI impI, erule (1) wp_mono [OF guaranteesD]; erule (1) bookkeeping_settled)

lemma guarantees_if [guarantee]:
  "(b \<Longrightarrow> guarantees G op) \<Longrightarrow> (\<not> b \<Longrightarrow> guarantees G op') \<Longrightarrow> guarantees G (if b then op else op')"
  by simp

lemma guarantees_option [guarantee]:
  "guarantees G op \<Longrightarrow> (\<And>x. guarantees G (f x)) \<Longrightarrow> guarantees G (case v of None \<Rightarrow> op | Some x \<Rightarrow> f x)"
  by (cases v) simp_all

lemma guarantees_sum [guarantee]:
  "(\<And>x. guarantees G (f x)) \<Longrightarrow> (\<And>y. guarantees G (g y)) \<Longrightarrow>
     guarantees G (case v of Inl x \<Rightarrow> f x | Inr y \<Rightarrow> g y)"
  by (cases v) simp_all

lemma guarantees_pair [guarantee]:
  "(\<And>x y. guarantees G (f x y)) \<Longrightarrow> guarantees G (case v of (x, y) \<Rightarrow> f x y)"
  by (cases v) simp

lemma guarantees_list [guarantee]:
  "guarantees G op \<Longrightarrow> (\<And>x xs. guarantees G (f x xs)) \<Longrightarrow> guarantees G (case v of [] \<Rightarrow> op | x # xs \<Rightarrow> f x xs)"
  by (cases v) simp_all

lemma guarantees_forM [guarantee]:
  "(\<And>x. guarantees G (body x)) \<Longrightarrow> guarantees G (forM xs body)"
  by (induction xs) (simp_all add: guarantee)

context atomic_tx begin

lemma guaranteed:
  assumes "\<And>now d a d'. st now d = Inr (a, d') \<Longrightarrow> rel G d d'"
  shows "guarantees G op"
  unfolding guarantees_def using wp_settled assms by blast

end

lemma guarantees_query:
  "(\<And>now d a d'. st now d = Inr (a, d') \<Longrightarrow> rel G d d') \<Longrightarrow> guarantees G (query st)"
  by (rule autocommit.guaranteed)

end
