(* ===== verification/Contracts.thy ===== *)
theory Contracts
  imports Prelude "HOL-Library.Monad_Syntax"
begin

text \<open>
  The message contracts of packages/contracts/src/events.ts and the correlation ids of
  packages/be-core/src/correlation.ts: JSON values, the Zod schemas as parsers from JSON to typed
  events, the routing keys, exchanges and queues, and \<open>resolveTraceId\<close>.
  The two string formats the schemas delegate to Zod (\<open>.uuid()\<close>, \<open>.datetime()\<close>) are a parameter;
  what the code relies on is the hypothesis \<open>zod_documented\<close>.
\<close>

subsection \<open>Hexadecimal, UUID shape and resolveTraceId\<close>

definition is_digit :: "char \<Rightarrow> bool" where
  "is_digit c \<longleftrightarrow> c \<in> set ''0123456789''"

definition is_hex :: "char \<Rightarrow> bool" where
  "is_hex c \<longleftrightarrow> c \<in> set ''0123456789abcdefABCDEF''"

definition is_dash :: "char \<Rightarrow> bool" where
  "is_dash c \<longleftrightarrow> c = CHR ''-''"

text \<open>The regular expression 8-4-4-4-12 of correlation.ts, one predicate per character.\<close>

definition uuid_pattern :: "(char \<Rightarrow> bool) list" where
  "uuid_pattern =
     replicate 8 is_hex @ [is_dash] @ replicate 4 is_hex @ [is_dash] @ replicate 4 is_hex @
     [is_dash] @ replicate 4 is_hex @ [is_dash] @ replicate 12 is_hex"

definition is_uuid :: "string \<Rightarrow> bool" where
  "is_uuid s \<longleftrightarrow> list_all2 (\<lambda>p c. p c) uuid_pattern s"

text \<open>\<open>header\<close> is the x-request-id header, \<open>fresh\<close> the value \<open>randomUUID()\<close> would give.\<close>

definition resolveTraceId :: "string option \<Rightarrow> uuid \<Rightarrow> uuid" where
  "resolveTraceId header fresh =
     (case header of
        Some h \<Rightarrow> if h \<noteq> [] \<and> is_uuid h then h else fresh
      | None \<Rightarrow> fresh)"

lemma is_uuid_length: "is_uuid s \<Longrightarrow> length s = 36"
  by (auto simp: is_uuid_def uuid_pattern_def dest: list_all2_lengthD)

lemma resolveTraceId_uuid: "is_uuid fresh \<Longrightarrow> is_uuid (resolveTraceId header fresh)"
  by (auto simp: resolveTraceId_def split: option.splits)

subsection \<open>JSON\<close>

datatype json =
    JNull
  | JBool bool
  | JInt int
  | JStr string
  | JArr "json list"
  | JObj "(string \<times> json) list"

fun jget :: "string \<Rightarrow> json \<Rightarrow> json option" where
  "jget k (JObj kvs) = map_of kvs k"
| "jget k _ = None"

subsection \<open>Date.prototype.toISOString\<close>

text \<open>The decimal digits of a number, padded with zeros to \<open>k\<close> places.\<close>

definition digit_char :: "int \<Rightarrow> char" where
  "digit_char n = ''0123456789'' ! nat (n mod 10)"

fun pad :: "nat \<Rightarrow> int \<Rightarrow> string" where
  "pad 0 n = []"
| "pad (Suc k) n = pad k (n div 10) @ [digit_char n]"

text \<open>\<open>String(n)\<close> of an integer.\<close>

fun digits :: "nat \<Rightarrow> string" where
  "digits n = (if n < 10 then [] else digits (n div 10)) @ [digit_char (int n)]"

definition int_string :: "int \<Rightarrow> string" where
  "int_string n = (if n < 0 then CHR ''-'' # digits (nat (- n)) else digits (nat n))"

lemma int_string_ex: "int_string 120 = ''120''" "int_string (- 7) = ''-7''" "int_string 0 = ''0''"
  by code_simp+

text \<open>Year, month and day of a number of days since 1970-01-01 (proleptic Gregorian calendar).\<close>

definition civil :: "int \<Rightarrow> int \<times> int \<times> int" where
  "civil days =
     (let z = days + 719468;
          era = z div 146097;
          doe = z mod 146097;
          yoe = (doe - doe div 1460 + doe div 36524 - doe div 146096) div 365;
          doy = doe - (365 * yoe + yoe div 4 - yoe div 100);
          mp = (5 * doy + 2) div 153;
          d = doy - (153 * mp + 2) div 5 + 1;
          m = (if mp < 10 then mp + 3 else mp - 9);
          y = yoe + era * 400 + (if m \<le> 2 then 1 else 0)
      in (y, m, d))"

definition toISOString :: "instant \<Rightarrow> string" where
  "toISOString t =
     (case civil (t div 86400000) of (y, m, d) \<Rightarrow>
        let r = t mod 86400000 in
        pad 4 y @ ''-'' @ pad 2 m @ ''-'' @ pad 2 d @ ''T'' @
        pad 2 (r div 3600000) @ '':'' @ pad 2 (r div 60000 mod 60) @ '':'' @
        pad 2 (r div 1000 mod 60) @ ''.'' @ pad 3 (r mod 1000) @ ''Z'')"

lemma toISOString_epoch: "toISOString 0 = ''1970-01-01T00:00:00.000Z''"
  by code_simp

lemma toISOString_2024: "toISOString 1704067200000 = ''2024-01-01T00:00:00.000Z''"
  by code_simp

lemma length_pad [simp]: "length (pad k n) = k"
  by (induction k arbitrary: n) auto

lemma length_toISOString: "length (toISOString t) = 24"
  by (simp add: toISOString_def Let_def split: prod.split)

subsection \<open>Zod\<close>

record zod_formats =
  z_uuid :: "string \<Rightarrow> bool"
  z_datetime :: "string \<Rightarrow> bool"

text \<open>
  Zod's documented behaviour as far as the schemas use it: \<open>.uuid()\<close> accepts the 8-4-4-4-12
  hexadecimal shape and nothing else, \<open>.datetime()\<close> accepts what \<open>toISOString\<close> prints for the years
  1970 to 9999.
\<close>

definition zod_documented :: "zod_formats \<Rightarrow> bool" where
  "zod_documented z \<longleftrightarrow>
     (\<forall>s. z_uuid z s = is_uuid s) \<and>
     (\<forall>t. 0 \<le> t \<and> t < 253402300800000 \<longrightarrow> z_datetime z (toISOString t))"

definition date_ok :: "instant \<Rightarrow> bool" where
  "date_ok t \<longleftrightarrow> 0 \<le> t \<and> t < 253402300800000"

lemma zod_documentedD:
  "zod_documented z \<Longrightarrow> z_uuid z s = is_uuid s"
  "zod_documented z \<Longrightarrow> date_ok t \<Longrightarrow> z_datetime z (toISOString t)"
  by (simp_all add: zod_documented_def date_ok_def)

text \<open>An instance: the shape checks themselves.\<close>

definition zod_shapes :: zod_formats where
  "zod_shapes = \<lparr>z_uuid = is_uuid, z_datetime = (\<lambda>s. length s = 24)\<rparr>"

lemma zod_shapes_documented: "zod_documented zod_shapes"
  by (simp add: zod_documented_def zod_shapes_def length_toISOString)

text \<open>Fields of a schema: a required field that passes the check, or the parse fails.\<close>

definition str_field :: "(string \<Rightarrow> bool) \<Rightarrow> string \<Rightarrow> json \<Rightarrow> string option" where
  "str_field ok k j =
     (case jget k j of Some (JStr s) \<Rightarrow> if ok s then Some s else None | _ \<Rightarrow> None)"

definition nonneg_field :: "string \<Rightarrow> json \<Rightarrow> int option" where
  "nonneg_field k j =
     (case jget k j of Some (JInt n) \<Rightarrow> if 0 \<le> n then Some n else None | _ \<Rightarrow> None)"

definition opt_uuid_field :: "zod_formats \<Rightarrow> string \<Rightarrow> json \<Rightarrow> uuid option option" where
  "opt_uuid_field z k j =
     (case jget k j of
        None \<Rightarrow> Some None
      | Some (JStr s) \<Rightarrow> if z_uuid z s then Some (Some s) else None
      | _ \<Rightarrow> None)"

definition literal_field :: "string \<Rightarrow> string \<Rightarrow> json \<Rightarrow> unit option" where
  "literal_field k v j = (if jget k j = Some (JStr v) then Some () else None)"

subsection \<open>The event schemas\<close>

record event_meta =
  m_eventId :: uuid
  m_traceId :: string
  m_occurredAt :: string

datatype event =
    SeatHeld event_meta uuid uuid uuid string int string
  | SeatReleased event_meta uuid "uuid option" string
  | SeatReserved event_meta uuid uuid uuid
  | PaymentSucceeded event_meta uuid uuid uuid uuid int string string
  | PaymentFailed event_meta uuid uuid uuid uuid string

fun event_schema :: "event \<Rightarrow> string" where
  "event_schema (SeatHeld _ _ _ _ _ _ _) = ''seat.held.v1''"
| "event_schema (SeatReleased _ _ _ _) = ''seat.released.v1''"
| "event_schema (SeatReserved _ _ _ _) = ''seat.reserved.v1''"
| "event_schema (PaymentSucceeded _ _ _ _ _ _ _ _) = ''payment.succeeded.v1''"
| "event_schema (PaymentFailed _ _ _ _ _ _) = ''payment.failed.v1''"

definition baseMeta :: "zod_formats \<Rightarrow> json \<Rightarrow> event_meta option" where
  "baseMeta z j =
     do { e \<leftarrow> str_field (z_uuid z) ''eventId'' j;
          t \<leftarrow> str_field (z_uuid z) ''traceId'' j;
          a \<leftarrow> str_field (z_datetime z) ''occurredAt'' j;
          Some \<lparr>m_eventId = e, m_traceId = t, m_occurredAt = a\<rparr> }"

definition SeatHeldV1 :: "zod_formats \<Rightarrow> json \<Rightarrow> event option" where
  "SeatHeldV1 z j =
     do { m \<leftarrow> baseMeta z j;
          literal_field ''schema'' ''seat.held.v1'' j;
          seat \<leftarrow> str_field (z_uuid z) ''seatId'' j;
          user \<leftarrow> str_field (z_uuid z) ''userId'' j;
          hold \<leftarrow> str_field (z_uuid z) ''holdId'' j;
          until \<leftarrow> str_field (z_datetime z) ''heldUntil'' j;
          price \<leftarrow> nonneg_field ''priceCents'' j;
          cur \<leftarrow> str_field (\<lambda>s. length s = 3) ''currency'' j;
          Some (SeatHeld m seat user hold until price cur) }"

definition release_reasons :: "string list" where
  "release_reasons = [''expired'', ''payment_failed'', ''user_cancelled'', ''sweeper'']"

definition SeatReleasedV1 :: "zod_formats \<Rightarrow> json \<Rightarrow> event option" where
  "SeatReleasedV1 z j =
     do { m \<leftarrow> baseMeta z j;
          literal_field ''schema'' ''seat.released.v1'' j;
          seat \<leftarrow> str_field (z_uuid z) ''seatId'' j;
          user \<leftarrow> opt_uuid_field z ''userId'' j;
          reason \<leftarrow> str_field (\<lambda>s. s \<in> set release_reasons) ''reason'' j;
          Some (SeatReleased m seat user reason) }"

definition SeatReservedV1 :: "zod_formats \<Rightarrow> json \<Rightarrow> event option" where
  "SeatReservedV1 z j =
     do { m \<leftarrow> baseMeta z j;
          literal_field ''schema'' ''seat.reserved.v1'' j;
          seat \<leftarrow> str_field (z_uuid z) ''seatId'' j;
          user \<leftarrow> str_field (z_uuid z) ''userId'' j;
          hold \<leftarrow> str_field (z_uuid z) ''holdId'' j;
          Some (SeatReserved m seat user hold) }"

definition PaymentSucceededV1 :: "zod_formats \<Rightarrow> json \<Rightarrow> event option" where
  "PaymentSucceededV1 z j =
     do { m \<leftarrow> baseMeta z j;
          literal_field ''schema'' ''payment.succeeded.v1'' j;
          pi \<leftarrow> str_field (z_uuid z) ''paymentIntentId'' j;
          seat \<leftarrow> str_field (z_uuid z) ''seatId'' j;
          user \<leftarrow> str_field (z_uuid z) ''userId'' j;
          hold \<leftarrow> str_field (z_uuid z) ''holdId'' j;
          amount \<leftarrow> nonneg_field ''amountCents'' j;
          cur \<leftarrow> str_field (\<lambda>s. length s = 3) ''currency'' j;
          psp \<leftarrow> str_field (\<lambda>_. True) ''pspIntentId'' j;
          Some (PaymentSucceeded m pi seat user hold amount cur psp) }"

definition PaymentFailedV1 :: "zod_formats \<Rightarrow> json \<Rightarrow> event option" where
  "PaymentFailedV1 z j =
     do { m \<leftarrow> baseMeta z j;
          literal_field ''schema'' ''payment.failed.v1'' j;
          pi \<leftarrow> str_field (z_uuid z) ''paymentIntentId'' j;
          seat \<leftarrow> str_field (z_uuid z) ''seatId'' j;
          user \<leftarrow> str_field (z_uuid z) ''userId'' j;
          hold \<leftarrow> str_field (z_uuid z) ''holdId'' j;
          reason \<leftarrow> str_field (\<lambda>_. True) ''reason'' j;
          Some (PaymentFailed m pi seat user hold reason) }"

text \<open>\<open>z.union\<close>: the first schema that accepts the value.\<close>

fun z_union :: "(json \<Rightarrow> event option) list \<Rightarrow> json \<Rightarrow> event option" where
  "z_union [] j = None"
| "z_union (p # ps) j = (case p j of Some e \<Rightarrow> Some e | None \<Rightarrow> z_union ps j)"

lemmas schema_defs =
  baseMeta_def SeatHeldV1_def SeatReleasedV1_def SeatReservedV1_def PaymentSucceededV1_def
  PaymentFailedV1_def str_field_def nonneg_field_def opt_uuid_field_def literal_field_def

subsection \<open>Routing keys, exchanges and queues\<close>

definition ROUTING_KEYS :: "(string \<times> string) list" where
  "ROUTING_KEYS =
     [(''SEAT_HELD'', ''seat.held''), (''SEAT_RELEASED'', ''seat.released''),
      (''SEAT_RESERVED'', ''seat.reserved''), (''PAYMENT_SUCCEEDED'', ''payment.succeeded''),
      (''PAYMENT_FAILED'', ''payment.failed'')]"

definition SEAT_EVENTS :: string where "SEAT_EVENTS = ''seat.events''"

definition PAYMENT_EVENTS :: string where "PAYMENT_EVENTS = ''payment.events''"

definition SEAT_PAYMENT_EVENTS :: string where "SEAT_PAYMENT_EVENTS = ''seat.payment-events''"

definition PAYMENT_SEAT_EVENTS :: string where "PAYMENT_SEAT_EVENTS = ''payment.seat-events''"

subsection \<open>Messages\<close>

text \<open>What a consumer does with a message: \<open>ch.ack\<close>, or \<open>ch.nack\<close> with its requeue flag; and what it
  reads of it, \<open>schema.parse(JSON.parse(content))\<close>, where an exception of either is None.\<close>

datatype settle = Ack | Nack bool

definition parse_event :: "(json \<Rightarrow> event option) \<Rightarrow> (string \<Rightarrow> json option) \<Rightarrow> string \<Rightarrow> event option" where
  "parse_event schema json_parse content =
     (case json_parse content of None \<Rightarrow> None | Some j \<Rightarrow> schema j)"

end
