(* ===== verification/Outbox_Table.thy ===== *)
theory Outbox_Table
  imports Guarantee Contracts
begin

text \<open>
  The transactional outbox table, the same in the seat and the payment database
  (migrations/20240101000000_init.sql, packages/be-core/src/outbox.ts), and the INSERT both
  services append events with. The two databases extend the record \<open>outbox_db\<close>.
\<close>

datatype outbox_state = PENDING | PROCESSING | DEAD

record outbox_row =
  o_id :: nat
  o_aggregate_id :: uuid
  o_event_type :: string
  o_payload :: json
  o_headers :: "(string \<times> string) list"
  o_state :: outbox_state
  o_attempts :: nat
  o_next_attempt_at :: instant
  o_created_at :: instant

record outbox_db =
  outbox :: "outbox_row list"
  outbox_seq :: nat

text \<open>
  \<open>INSERT INTO outbox (aggregate_id, event_type, payload, headers)\<close>: the id is the next value of
  the BIGSERIAL sequence, the other columns take their defaults.
\<close>

definition new_outbox_row ::
    "nat \<Rightarrow> instant \<Rightarrow> uuid \<Rightarrow> string \<Rightarrow> json \<Rightarrow> (string \<times> string) list \<Rightarrow> outbox_row" where
  "new_outbox_row i now agg ty payload headers =
     \<lparr>o_id = i, o_aggregate_id = agg, o_event_type = ty, o_payload = payload,
      o_headers = headers, o_state = PENDING, o_attempts = 0, o_next_attempt_at = now,
      o_created_at = now\<rparr>"

definition append_outbox ::
    "instant \<Rightarrow> uuid \<Rightarrow> string \<Rightarrow> json \<Rightarrow> (string \<times> string) list \<Rightarrow>
     'm outbox_db_scheme \<Rightarrow> 'm outbox_db_scheme" where
  "append_outbox now agg ty payload headers d =
     d\<lparr>outbox := outbox d @ [new_outbox_row (Suc (outbox_seq d)) now agg ty payload headers],
       outbox_seq := Suc (outbox_seq d)\<rparr>"

definition insert_outbox ::
    "uuid \<Rightarrow> string \<Rightarrow> json \<Rightarrow> (string \<times> string) list \<Rightarrow> ('m outbox_db_scheme, unit) stmt" where
  "insert_outbox agg ty payload headers now d = Inr ((), append_outbox now agg ty payload headers d)"

text \<open>The ids of the table are the values the sequence has given, each once.\<close>

definition outbox_ok :: "'m outbox_db_scheme \<Rightarrow> bool" where
  "outbox_ok d \<longleftrightarrow> distinct (map o_id (outbox d)) \<and> (\<forall>r \<in> set (outbox d). o_id r \<le> outbox_seq d)"

lemma outbox_append [simp]:
  "outbox (append_outbox now agg ty p hs d) =
     outbox d @ [new_outbox_row (Suc (outbox_seq d)) now agg ty p hs]"
  by (simp add: append_outbox_def)

lemma more_append [simp]:
  "outbox_db.more (append_outbox now agg ty p hs d) = outbox_db.more d"
  by (simp add: append_outbox_def)

lemma outbox_ok_append: "outbox_ok d \<Longrightarrow> outbox_ok (append_outbox now agg ty p hs d)"
  by (fastforce simp: outbox_ok_def append_outbox_def new_outbox_row_def)

lemma outbox_ok_cong: "outbox d' = outbox d \<Longrightarrow> outbox_seq d' = outbox_seq d \<Longrightarrow> outbox_ok d' = outbox_ok d"
  by (simp add: outbox_ok_def)

lemma new_outbox_row_sel [simp]:
  "o_id (new_outbox_row i now agg ty p hs) = i"
  "o_aggregate_id (new_outbox_row i now agg ty p hs) = agg"
  "o_event_type (new_outbox_row i now agg ty p hs) = ty"
  "o_payload (new_outbox_row i now agg ty p hs) = p"
  "o_headers (new_outbox_row i now agg ty p hs) = hs"
  "o_state (new_outbox_row i now agg ty p hs) = PENDING"
  "o_attempts (new_outbox_row i now agg ty p hs) = 0"
  "o_next_attempt_at (new_outbox_row i now agg ty p hs) = now"
  by (simp_all add: new_outbox_row_def)

end
