(* ===== verification/Outbox_Worker.thy ===== *)
theory Outbox_Worker
  imports Outbox_Table
begin

text \<open>
  OutboxWorker of both services (apps/seat-reservation/src/outbox/outbox.worker.ts and
  apps/payment/src/outbox/outbox.worker.ts), over any database that has the outbox table. The two
  files differ only in the exchange they choose, the parameter \<open>exch\<close>. A publish is confirmed by
  the broker, or not confirmed (the broker may have the message all the same), or throws; what each
  publish does is the list \<open>pub_fates\<close> of the process, and \<open>sent\<close> is what the broker has confirmed.
\<close>

subsection \<open>Exchange and routing key\<close>

definition seat_exchange :: "string \<Rightarrow> string" where
  "seat_exchange event_type =
     (if starts_with ''seat.'' event_type then SEAT_EVENTS else PAYMENT_EVENTS)"

definition payment_exchange :: "string \<Rightarrow> string" where
  "payment_exchange event_type =
     (if starts_with ''payment.'' event_type then PAYMENT_EVENTS else SEAT_EVENTS)"

text \<open>\<open>s.replace(/\.v\d+$/, '')\<close>\<close>

definition strip_version :: "string \<Rightarrow> string" where
  "strip_version s =
     (let ds = takeWhile is_digit (rev s); rest = drop (length ds) (rev s) in
      if ds \<noteq> [] \<and> take 2 rest = ''v.'' then rev (drop 2 rest) else s)"

lemma strip_version_schemas:
  "map strip_version [''seat.held.v1'', ''seat.released.v1'', ''seat.reserved.v1'',
     ''payment.succeeded.v1'', ''payment.failed.v1''] = map snd ROUTING_KEYS"
  "strip_version ''seat.v2.held'' = ''seat.v2.held''" "strip_version ''a.v'' = ''a.v''"
  "strip_version ''a.v12'' = ''a''"
  by code_simp+

subsection \<open>Publishing\<close>

record pub_msg =
  p_exchange :: string
  p_key :: string
  p_payload :: json
  p_headers :: "(string \<times> string) list"

datatype pub_fate = Confirmed | Unconfirmed | Publish_Throws exn

record 'd outbox_proc = "'d conn" +
  w_running :: bool
  sent :: "pub_msg list"
  pub_fates :: "pub_fate list"

definition publish :: "pub_msg \<Rightarrow> ('d, 'x outbox_proc_ext, bool) dbm" where
  "publish msg s =
     (case pub_fates s of
        [] \<Rightarrow> (Inr True, s\<lparr>sent := sent s @ [msg]\<rparr>)
      | Confirmed # fs \<Rightarrow> (Inr True, s\<lparr>pub_fates := fs, sent := sent s @ [msg]\<rparr>)
      | Unconfirmed # fs \<Rightarrow> (Inr False, s\<lparr>pub_fates := fs\<rparr>)
      | Publish_Throws e # fs \<Rightarrow> (Inl e, s\<lparr>pub_fates := fs\<rparr>))"

definition message_of :: "(string \<Rightarrow> string) \<Rightarrow> outbox_row \<Rightarrow> pub_msg" where
  "message_of exch row =
     \<lparr>p_exchange = exch (o_event_type row), p_key = strip_version (o_event_type row),
      p_payload = o_payload row, p_headers = o_headers row\<rparr>"

subsection \<open>The statements\<close>

definition update_outbox where
  "update_outbox P f d = d\<lparr>outbox := upd_where P f (outbox d)\<rparr>"

definition MAX_ATTEMPTS :: nat where "MAX_ATTEMPTS = 10"
definition BASE_BACKOFF_MS :: int where "BASE_BACKOFF_MS = 1000"

text \<open>\<open>UPDATE .. SET state='PENDING', next_attempt_at=NOW() WHERE state='PROCESSING' AND
  next_attempt_at < NOW() - interval '5 minutes'\<close>\<close>

definition recover_stuck :: "('m outbox_db_scheme, unit) stmt" where
  "recover_stuck now d =
     Inr ((), update_outbox (\<lambda>r. o_state r = PROCESSING \<and> o_next_attempt_at r < now - 300000)
       (\<lambda>r. r\<lparr>o_state := PENDING, o_next_attempt_at := now\<rparr>) d)"

text \<open>The SELECT with FOR UPDATE SKIP LOCKED: \<open>locked\<close> are the ids other workers have locked.\<close>

definition select_pending :: "(nat \<Rightarrow> bool) \<Rightarrow> ('m outbox_db_scheme, outbox_row list) stmt" where
  "select_pending locked now d =
     Inr (take 100 (sort_key o_next_attempt_at
       (filter (\<lambda>r. o_state r = PENDING \<and> o_next_attempt_at r \<le> now \<and> \<not> locked (o_id r)) (outbox d))), d)"

definition mark_processing :: "nat list \<Rightarrow> ('m outbox_db_scheme, unit) stmt" where
  "mark_processing ids now d =
     Inr ((), update_outbox (\<lambda>r. o_id r \<in> set ids) (\<lambda>r. r\<lparr>o_state := PROCESSING\<rparr>) d)"

definition delete_outbox :: "nat \<Rightarrow> ('m outbox_db_scheme, unit) stmt" where
  "delete_outbox i now d = Inr ((), d\<lparr>outbox := filter (\<lambda>r. o_id r \<noteq> i) (outbox d)\<rparr>)"

definition mark_dead :: "nat \<Rightarrow> nat \<Rightarrow> ('m outbox_db_scheme, unit) stmt" where
  "mark_dead attempts i now d =
     Inr ((), update_outbox (\<lambda>r. o_id r = i)
       (\<lambda>r. r\<lparr>o_state := DEAD, o_attempts := attempts, o_next_attempt_at := now + 3600000\<rparr>) d)"

definition reschedule :: "nat \<Rightarrow> int \<Rightarrow> nat \<Rightarrow> ('m outbox_db_scheme, unit) stmt" where
  "reschedule attempts backoff i now d =
     Inr ((), update_outbox (\<lambda>r. o_id r = i)
       (\<lambda>r. r\<lparr>o_state := PENDING, o_attempts := attempts, o_next_attempt_at := now + backoff\<rparr>) d)"

lemmas outbox_stmt_defs = recover_stuck_def select_pending_def mark_processing_def delete_outbox_def
  mark_dead_def reschedule_def

subsection \<open>tick and processRow\<close>

definition backoff_ms :: "nat \<Rightarrow> int" where
  "backoff_ms attempts = BASE_BACKOFF_MS * 2 ^ min attempts 8"

definition process_row ::
    "(string \<Rightarrow> string) \<Rightarrow> outbox_row \<Rightarrow> ('m outbox_db_scheme, 'x outbox_proc_ext, unit) dbm" where
  "process_row exch row =
     bindM (try_catch (publish (message_of exch row)) (\<lambda>e. retM False)) (\<lambda>ok.
     if ok then query (delete_outbox (o_id row))
     else
       let attempts = Suc (o_attempts row) in
       if MAX_ATTEMPTS \<le> attempts then query (mark_dead attempts (o_id row))
       else query (reschedule attempts (backoff_ms attempts) (o_id row)))"

text \<open>There is no ROLLBACK on the error paths: the connection goes back as it is.\<close>

definition outbox_tick ::
    "(string \<Rightarrow> string) \<Rightarrow> (nat \<Rightarrow> bool) \<Rightarrow> ('m outbox_db_scheme, 'x outbox_proc_ext, unit) dbm" where
  "outbox_tick exch locked =
     bindM (getsM w_running) (\<lambda>running.
     if running then retM ()
     else
       bindM (modifyM (\<lambda>s. s\<lparr>w_running := True\<rparr>)) (\<lambda>_.
       finallyM
         (with_conn
           (bindM (query recover_stuck) (\<lambda>_.
            bindM begin_tx (\<lambda>_.
            bindM (query (select_pending locked)) (\<lambda>rows.
            if rows = [] then rollback_tx
            else
              bindM (query (mark_processing (map o_id rows))) (\<lambda>_.
              bindM commit_tx (\<lambda>_.
              forM rows (process_row exch))))))))
         (\<lambda>s. s\<lparr>w_running := False\<rparr>)))"

text \<open>The two services' workers: the same code, each with its own choice of exchange.\<close>

definition seat_process_row ::
    "outbox_row \<Rightarrow> ('m outbox_db_scheme, 'x outbox_proc_ext, unit) dbm" where
  "seat_process_row = process_row seat_exchange"

definition payment_process_row ::
    "outbox_row \<Rightarrow> ('m outbox_db_scheme, 'x outbox_proc_ext, unit) dbm" where
  "payment_process_row = process_row payment_exchange"

definition payment_outbox_tick ::
    "(nat \<Rightarrow> bool) \<Rightarrow> ('m outbox_db_scheme, 'x outbox_proc_ext, unit) dbm" where
  "payment_outbox_tick = outbox_tick payment_exchange"

subsection \<open>No event is lost\<close>

text \<open>What of a row never changes, and the events a table holds.\<close>

definition ev_of :: "outbox_row \<Rightarrow> nat \<times> uuid \<times> string \<times> json \<times> (string \<times> string) list" where
  "ev_of r = (o_id r, o_aggregate_id r, o_event_type r, o_payload r, o_headers r)"

definition evs where
  "evs d = ev_of ` set (outbox d)"

fun message_ev where
  "message_ev exch (i, agg, ty, payload, headers) =
     \<lparr>p_exchange = exch ty, p_key = strip_version ty, p_payload = payload, p_headers = headers\<rparr>"

lemma message_ev_of: "message_ev exch (ev_of r) = message_of exch r"
  by (simp add: ev_of_def message_of_def)

lemma fst_ev_of [simp]: "fst (ev_of r) = o_id r"
  by (simp add: ev_of_def)

text \<open>
  What the worker assumes of the other sessions, and the statements other than the DELETE guarantee:
  the table stays well formed, no row disappears, and new rows have new ids.
\<close>

definition outbox_rel :: "'m outbox_db_scheme \<Rightarrow> 'm outbox_db_scheme \<Rightarrow> bool" where
  "outbox_rel d d' \<longleftrightarrow>
     (outbox_ok d \<longrightarrow> outbox_ok d' \<and> outbox_seq d \<le> outbox_seq d' \<and> evs d \<subseteq> evs d' \<and>
       (\<forall>k \<in> evs d'. fst k \<le> outbox_seq d \<longrightarrow> k \<in> evs d))"

text \<open>The same for a table from which confirmed rows may have been deleted.\<close>

definition carried ::
    "(string \<Rightarrow> string) \<Rightarrow> 'm outbox_db_scheme \<Rightarrow> 'm outbox_db_scheme \<Rightarrow> pub_msg list \<Rightarrow> bool" where
  "carried exch d0 d msgs \<longleftrightarrow>
     outbox_ok d \<and> outbox_seq d0 \<le> outbox_seq d \<and>
     (\<forall>k \<in> evs d0. k \<in> evs d \<or> message_ev exch k \<in> set msgs) \<and>
     (\<forall>k \<in> evs d. fst k \<le> outbox_seq d0 \<longrightarrow> k \<in> evs d0)"

lemma outbox_rel_refl [simp]: "outbox_rel d d"
  by (simp add: outbox_rel_def)

lemma outbox_rel_trans: "outbox_rel a b \<Longrightarrow> outbox_rel b c \<Longrightarrow> outbox_rel a c"
  unfolding outbox_rel_def by (meson order_trans subset_iff)

lemma carried_refl: "outbox_ok d \<Longrightarrow> carried exch d d msgs"
  by (simp add: carried_def)

lemma carried_rel:
  assumes "carried exch d0 d msgs" and "outbox_rel d d'"
  shows "carried exch d0 d' msgs"
proof -
  have ok: "outbox_ok d" "outbox_seq d0 \<le> outbox_seq d" using assms(1) by (simp_all add: carried_def)
  have d': "outbox_ok d'" "outbox_seq d \<le> outbox_seq d'" "evs d \<subseteq> evs d'"
    "\<forall>k \<in> evs d'. fst k \<le> outbox_seq d \<longrightarrow> k \<in> evs d"
    using assms(2) ok(1) by (simp_all add: outbox_rel_def)
  have "k \<in> evs d0" if "k \<in> evs d'" "fst k \<le> outbox_seq d0" for k
    using assms(1) d'(4) that ok(2) by (simp add: carried_def)
  then show ?thesis
    using assms(1) d'(1-3) ok(2) by (auto simp: carried_def)
qed

lemma carried_more: "carried exch d0 d msgs \<Longrightarrow> carried exch d0 d (msgs @ msgs')"
  by (auto simp: carried_def)

text \<open>Deleting a row whose message has been confirmed.\<close>

definition row_of :: "'m outbox_db_scheme \<Rightarrow> outbox_row \<Rightarrow> bool" where
  "row_of d0 row \<longleftrightarrow> (\<forall>k \<in> evs d0. fst k = o_id row \<longrightarrow> k = ev_of row)"

lemma evs_unique:
  assumes "outbox_ok d" and "k \<in> evs d" and "k' \<in> evs d" and "fst k = fst k'"
  shows "k = k'"
proof -
  obtain r r' where r: "r \<in> set (outbox d)" "k = ev_of r" "r' \<in> set (outbox d)" "k' = ev_of r'"
    using assms(2,3) by (auto simp: evs_def)
  then have "r = r'"
    using assms(1,4) by (auto simp: outbox_ok_def distinct_map dest: inj_onD)
  then show ?thesis using r by simp
qed

lemma carried_row_of:
  assumes "carried exch d0 d msgs" and "outbox_ok d0" and "row \<in> set (outbox d)"
  shows "row_of d0 row"
  unfolding row_of_def
proof (intro ballI impI)
  fix k assume k: "k \<in> evs d0" "fst k = o_id row"
  then have "o_id row \<le> outbox_seq d0" using assms(2) by (auto simp: outbox_ok_def evs_def)
  moreover have "ev_of row \<in> evs d" using assms(3) by (simp add: evs_def)
  ultimately have "ev_of row \<in> evs d0" using assms(1) by (simp add: carried_def)
  then show "k = ev_of row" using evs_unique [OF assms(2) k(1)] k(2) by simp
qed

lemma carried_delete:
  assumes "carried exch d0 d msgs" and "row_of d0 row" and "message_of exch row \<in> set msgs"
    and "delete_outbox (o_id row) now d = Inr (u, d')"
  shows "carried exch d0 d' msgs"
proof -
  have d': "d' = d\<lparr>outbox := filter (\<lambda>r. o_id r \<noteq> o_id row) (outbox d)\<rparr>"
    using assms(4) by (simp add: delete_outbox_def)
  have evs: "evs d' = {k \<in> evs d. fst k \<noteq> o_id row}" by (auto simp: evs_def d')
  have "outbox_ok d'" if "outbox_ok d"
    using that by (auto simp: outbox_ok_def d' distinct_map_filter)
  moreover have "message_ev exch k \<in> set msgs" if "k \<in> evs d0" "fst k = o_id row" for k
    using assms(2,3) that message_ev_of [of exch row] by (auto simp: row_of_def)
  ultimately show ?thesis
    using assms(1) by (auto simp: carried_def evs) (simp_all add: d')
qed

text \<open>The other statements respect \<open>outbox_rel\<close>.\<close>

lemma outbox_rel_update:
  assumes "\<And>r. ev_of (f r) = ev_of r"
  shows "outbox_rel d (update_outbox P f d)"
proof -
  have id: "o_id (f r) = o_id r" for r using assms [of r] by (simp add: ev_of_def)
  have ids: "map o_id (upd_where P f (outbox d)) = map o_id (outbox d)"
    using id by (rule map_upd_where_key)
  have "map ev_of (upd_where P f (outbox d)) = map ev_of (outbox d)"
    using assms by (rule map_upd_where_key)
  then have "evs (update_outbox P f d) = evs d"
    unfolding evs_def update_outbox_def by (simp del: set_map flip: set_map)
  moreover have "outbox_ok (update_outbox P f d)" if "outbox_ok d"
    using that unfolding outbox_ok_def update_outbox_def by (simp add: ids ball_upd_where id)
  ultimately show ?thesis by (simp add: outbox_rel_def update_outbox_def)
qed

lemma outbox_rel_stmts:
  "recover_stuck now d = Inr (u, d') \<Longrightarrow> outbox_rel d d'"
  "select_pending locked now d = Inr (rows, d') \<Longrightarrow> outbox_rel d d'"
  "mark_processing ids now d = Inr (u, d') \<Longrightarrow> outbox_rel d d'"
  "mark_dead attempts i now d = Inr (u, d') \<Longrightarrow> outbox_rel d d'"
  "reschedule attempts b i now d = Inr (u, d') \<Longrightarrow> outbox_rel d d'"
  by (auto simp: outbox_stmt_defs ev_of_def intro!: outbox_rel_update)

lemma outbox_rel_append: "outbox_rel d (append_outbox now agg ty p hs d)"
  using outbox_ok_append [of d now agg ty p hs]
  by (auto simp: outbox_rel_def append_outbox_def evs_def ev_of_def)

subsection \<open>The invariant of a tick\<close>

lemma outbox_frame:
  assumes "conn.more s' = conn.more (s :: ('d, 'x outbox_proc_ext) conn_scheme)"
  shows "sent s' = sent s" "w_running s' = w_running s" "pub_fates s' = pub_fates s"
  using assms by (cases s; cases s'; simp)+

lemma sent_frame:
  fixes s s' :: "('d, 'x outbox_proc_ext) conn_scheme"
  assumes "pending G d n m s" and "pending G' d' n' m s'"
  shows "sent s' = sent s"
  using outbox_frame(1) [of s' s] assms by (simp add: conn_state_defs)

text \<open>Between calls the connection is idle, on the error paths a transaction may be open; \<open>I\<close> holds of the
  committed contents and the messages confirmed so far.\<close>

definition safe_idle where
  "safe_idle G I n s \<longleftrightarrow> (\<exists>d m. idle G d n m s \<and> I d (sent s))"

definition safe where
  "safe G I n s \<longleftrightarrow> (\<exists>d m. pending G d n m s \<and> I d (sent s))"

definition stopped where
  "stopped P s \<longleftrightarrow> P s \<and> \<not> w_running s"

lemma safe_idleI: "idle G d n m s \<Longrightarrow> I d (sent s) \<Longrightarrow> safe_idle G I n s"
  by (auto simp: safe_idle_def)

lemma safe_idle_safe: "safe_idle G I n s \<Longrightarrow> safe G I n s"
  unfolding safe_idle_def safe_def by (elim exE conjE, intro exI conjI) (erule idle_pending)

lemma stop_idle:
  "safe_idle G I (Suc n) s \<Longrightarrow> stopped (safe_idle G I n) ((release s)\<lparr>w_running := False\<rparr>)"
  "safe_idle G I n s \<Longrightarrow> stopped (safe_idle G I n) (s\<lparr>w_running := False\<rparr>)"
  by (auto simp: stopped_def safe_idle_def release_def conn_state_defs)

lemma stop_safe:
  "safe G I (Suc n) s \<Longrightarrow> stopped (safe G I n) ((release s)\<lparr>w_running := False\<rparr>)"
  "safe G I n s \<Longrightarrow> stopped (safe G I n) (s\<lparr>w_running := False\<rparr>)"
  by (auto simp: stopped_def safe_def release_def conn_state_defs)

lemma still_safe:
  fixes s s' :: "('m outbox_db_scheme, 'x outbox_proc_ext) conn_scheme"
  assumes "pending G d n' m s" and "pending G d' n m s'" and "I d' (sent s)"
  shows "safe G I n s'"
  unfolding safe_def using assms(2,3) sent_frame [OF assms(1,2)] by (intro exI conjI) simp_all

lemma still_safe_idle:
  fixes s s' :: "('m outbox_db_scheme, 'x outbox_proc_ext) conn_scheme"
  assumes "pending G d n' m s" and "idle G d' n m s'" and "I d' (sent s)"
  shows "safe_idle G I n s'"
  using assms(2,3) sent_frame [OF assms(1) idle_pending [OF assms(2)]] by (intro safe_idleI) simp_all

lemma wp_publish:
  assumes "idle G d n m s"
    and "\<And>m' s'. idle G d n m' s' \<Longrightarrow> sent s' = sent s @ [msg] \<Longrightarrow> Q True s'"
    and "\<And>m' s'. idle G d n m' s' \<Longrightarrow> sent s' = sent s \<Longrightarrow> Q False s'"
    and "\<And>e m' s'. idle G d n m' s' \<Longrightarrow> sent s' = sent s \<Longrightarrow> E e s'"
  shows "wp (publish msg) Q E s"
  using assms by (auto simp: wp_def publish_def conn_state_defs split: list.split pub_fate.split)

text \<open>
  What an invariant of the worker has to satisfy: the contract between the worker's statements and
  the facts one wants of its ticks. \<open>K R d msgs\<close> speaks of the rows \<open>R\<close> the worker has claimed, the
  committed contents \<open>d\<close> and the messages \<open>msgs\<close> the broker has confirmed.
\<close>

locale tick_invariant =
  fixes G :: "'m outbox_db_scheme environment"
    and exch :: "string \<Rightarrow> string"
    and K :: "outbox_row set \<Rightarrow> 'm outbox_db_scheme \<Rightarrow> pub_msg list \<Rightarrow> bool"
  assumes recovers: "recover_stuck now d = Inr (u, d') \<Longrightarrow> rel G d d'"
    and marks: "mark_processing ids now d = Inr (u, d') \<Longrightarrow> rel G d d'"
    and buries: "mark_dead n i now d = Inr (u, d') \<Longrightarrow> rel G d d'"
    and delays: "reschedule n b i now d = Inr (u, d') \<Longrightarrow> rel G d d'"
    and others: "K R d msgs \<Longrightarrow> rel G d d' \<Longrightarrow> K R d' msgs"
    and claims: "K {} d msgs \<Longrightarrow> R \<subseteq> set (outbox d) \<Longrightarrow> K R d msgs"
    and finishes: "K R d msgs \<Longrightarrow> K {} d msgs"
    and sends: "K R d msgs \<Longrightarrow> row \<in> R \<Longrightarrow> K R d (msgs @ [message_of exch row])"
    and deletes: "K R d0 msgs \<Longrightarrow> K R d (msgs @ [message_of exch row]) \<Longrightarrow> row \<in> R \<Longrightarrow>
      delete_outbox (o_id row) now d = Inr (u, d') \<Longrightarrow> K R d' (msgs @ [message_of exch row])"
begin

lemma safe_finishes: "safe G (K R) n s \<Longrightarrow> safe G (K {}) n s" "safe_idle G (K R) n s \<Longrightarrow> safe_idle G (K {}) n s"
  unfolding safe_def safe_idle_def using finishes by blast+

lemma wp_safe_query:
  assumes "idle G d n m s" and "K R d (sent s)"
    and "\<And>d now u d'. K R d (sent s) \<Longrightarrow> st now d = Inr (u, d') \<Longrightarrow> K R d' (sent s)"
  shows "wp (query st) (\<lambda>_. safe_idle G (K R) n) (\<lambda>_. safe_idle G (K R) n) s"
proof -
  have fr: "sent s' = sent s" if "idle G d' n m s'" for d' s'
    using outbox_frame(1) [of s' s] that assms(1) by (simp add: conn_state_defs)
  have s1: "safe_idle G (K R) n s'" if "idle G d' n m s'" "K R d' (sent s)" for d' s'
    by (rule safe_idleI [where I = "K R", OF that(1)]) (use that(2) fr [OF that(1)] in simp)
  show ?thesis
    by (rule wp_query_auto [OF assms(1)]) (auto intro: s1 others [OF assms(2)] assms(3))
qed

lemma wp_process_row:
  assumes "safe_idle G (K R) n s" and "row \<in> R"
  shows "wp (process_row exch row) (\<lambda>_. safe_idle G (K R) n) (\<lambda>_. safe_idle G (K R) n) s"
proof -
  obtain d m where i: "idle G d n m s" and c: "K R d (sent s)"
    using assms(1) by (auto simp: safe_idle_def)
  have no: "wp (let attempts = Suc (o_attempts row) in
       if MAX_ATTEMPTS \<le> attempts then query (mark_dead attempts (o_id row))
       else query (reschedule attempts (backoff_ms attempts) (o_id row)))
      (\<lambda>_. safe_idle G (K R) n) (\<lambda>_. safe_idle G (K R) n) s'"
    if "idle G d n m' s'" "sent s' = sent s" for m' s'
    unfolding Let_def wp_if
    by (split if_split, intro conjI impI; rule wp_safe_query [OF that(1)])
      (use c that(2) in \<open>auto intro: others buries delays\<close>)
  have yes: "wp (query (delete_outbox (o_id row))) (\<lambda>_. safe_idle G (K R) n) (\<lambda>_. safe_idle G (K R) n) s'"
    if "idle G d n m' s'" "sent s' = sent s @ [message_of exch row]" for m' s'
    by (rule wp_safe_query [OF that(1)])
      (use c that(2) assms(2) in \<open>auto intro: sends deletes\<close>)
  show ?thesis
    unfolding process_row_def wp_bind wp_try wp_ret
    by (rule wp_publish [OF i]) (use yes no in auto)
qed

lemma wp_process_rows:
  assumes "safe_idle G (K R) n s" and "set rows \<subseteq> R"
  shows "wp (forM rows (process_row exch)) (\<lambda>_. safe_idle G (K R) n) (\<lambda>_. safe_idle G (K R) n) s"
  using assms
proof (induction rows arbitrary: s)
  case Nil
  then show ?case by (simp add: wp_ret)
next
  case (Cons row rows)
  then show ?case
    unfolding forM.simps wp_bind by (intro wp_mono [OF wp_process_row]) auto
qed

text \<open>Claiming the rows, committing, publishing them one by one.\<close>

lemma wp_tick_claimed:
  fixes s :: "('m outbox_db_scheme, 'x outbox_proc_ext) conn_scheme"
  assumes o: "open_tx G d now d n m s" and c: "K (set rows) d (sent s)"
  shows "wp (bindM (query (mark_processing (map o_id rows))) (\<lambda>_. bindM commit_tx (\<lambda>_.
      forM rows (process_row exch)))) (\<lambda>_. safe_idle G (K {}) n) (\<lambda>_. safe G (K {}) n) s"
  unfolding wp_bind
proof (rule wp_query [OF o], goal_cases)
  case (1 u w s1)
  note safe = safe_finishes(1) [OF still_safe [OF open_pending [OF o], where I = "K (set rows)"]]
    and idle = still_safe_idle [OF open_pending [OF o], where I = "K (set rows)"]
  have w: "K (set rows) w (sent s)"
    using others [OF c marks] 1(1) by blast
  show ?case
  proof (rule wp_commit [OF 1(2)], goal_cases)
    case (1 s2)
    show ?case
      by (rule wp_mono [OF wp_process_rows [OF idle [OF 1 w] subset_refl]])
        (auto intro: safe_idle_safe safe_finishes)
  qed (use safe [OF idle_pending] c w in blast)+
qed (use safe_finishes(1) [OF still_safe [OF open_pending [OF o], where I = "K (set rows)"]] c in blast)+

lemma wp_tick_tx:
  fixes s :: "('m outbox_db_scheme, 'x outbox_proc_ext) conn_scheme"
  assumes si: "safe_idle G (K {}) n s"
  shows "wp (bindM begin_tx (\<lambda>_. bindM (query (select_pending locked)) (\<lambda>rows.
      if rows = [] then rollback_tx
      else bindM (query (mark_processing (map o_id rows))) (\<lambda>_. bindM commit_tx (\<lambda>_.
        forM rows (process_row exch)))))) (\<lambda>_. safe_idle G (K {}) n) (\<lambda>_. safe G (K {}) n) s"
proof -
  obtain d m where i: "idle G d n m s" and c: "K {} d (sent s)"
    using si by (auto simp: safe_idle_def)
  note safe = still_safe [OF idle_pending [OF i], where I = "K {}"]
    and idle = still_safe_idle [OF idle_pending [OF i], where I = "K {}"]
  show ?thesis
    unfolding wp_bind [of begin_tx]
  proof (rule wp_begin [OF i], goal_cases)
    case (1 d1 now s1)
    have c1: "K {} d1 (sent s)" using others [OF c] 1(1) by simp
    show ?case
      unfolding wp_bind [of "query (select_pending locked)"]
    proof (rule wp_query [OF 1(2)], goal_cases)
      case (1 rows w s2)
      then have w: "w = d1" and rows: "set rows \<subseteq> set (outbox d1)"
        by (auto simp: select_pending_def dest!: in_set_takeD)
      have "K {} d1 (sent s2)"
        using c1 sent_frame [OF idle_pending [OF i] open_pending [OF 1(2)]] by simp
      then have c2: "K (set rows) d1 (sent s2)" using rows by (rule claims)
      have "wp rollback_tx (\<lambda>_. safe_idle G (K {}) n) (\<lambda>_. safe G (K {}) n) s2"
        by (rule wp_rollback [OF open_pending [OF 1(2)]]) (use idle safe [OF idle_pending] c1 in blast)+
      then show ?case
        unfolding wp_if using wp_tick_claimed [OF 1(2) [unfolded w] c2] by simp
    qed (use safe c1 in blast)+
  next
    case (2 d1 f s1)
    then show ?case using safe [OF idle_pending] others [OF c] by simp
  qed
qed

lemma wp_outbox_tick:
  fixes s :: "('m outbox_db_scheme, 'x outbox_proc_ext) conn_scheme"
  assumes i: "idle G d n m s" and ok: "K {} d (sent s)" and run: "\<not> w_running s"
  shows "wp (outbox_tick exch locked) (\<lambda>_. stopped (safe_idle G (K {}) n))
    (\<lambda>_. stopped (safe G (K {}) n)) s"
proof -
  let ?s = "s\<lparr>w_running := True\<rparr>"
  have i0: "idle G d n (conn.more ?s) ?s" using i by (simp add: conn_state_defs)
  have ok': "K {} d (sent s1)" if "idle G d k (conn.more ?s) s1" for k s1
    using ok outbox_frame(1) [of s1 ?s] that by (simp add: conn_state_defs)
  have recover: "wp (query recover_stuck) (\<lambda>_. safe_idle G (K {}) k) (\<lambda>_. safe_idle G (K {}) k) s1"
    if "idle G d1 k m1 s1" "K {} d1 (sent s1)"
    for d1 k m1 and s1 :: "('m outbox_db_scheme, 'x outbox_proc_ext) conn_scheme"
    by (rule wp_safe_query [OF that]) (blast intro: others recovers)
  show ?thesis
    unfolding outbox_tick_def with_conn_def wp_bind [of "query recover_stuck"] wp_bind [of "getsM w_running"]
      wp_bind [of "modifyM _"] wp_bind [of connect] wp_gets wp_modify wp_finally wp_if wp_ret
    apply (simp only: run if_False)
    apply (rule wp_connect [OF i0])
     apply (rule wp_mono [OF recover], assumption)
       apply (erule ok')
      apply (erule wp_mono [OF wp_tick_tx])
       apply (erule stop_idle)
      apply (erule stop_safe)
     apply (erule stop_safe(1) [OF safe_idle_safe])
    apply (rule stop_safe(2) [OF safe_idle_safe], rule safe_idleI, assumption, erule ok')
    done
qed

lemma tick_run:
  fixes s :: "('m outbox_db_scheme, 'x outbox_proc_ext) conn_scheme"
  assumes "idle G d n m s" and "K {} d (sent s)" and "\<not> w_running s" and "outbox_tick exch locked s = (r, s')"
  shows "K {} (committed s') (sent s') \<and> \<not> w_running s' \<and> checked_out s' = n \<and>
    (\<forall>a. r = Inr a \<longrightarrow> tx s' = None)"
  using wpD [OF wp_outbox_tick [OF assms(1-3)] assms(4)]
  by (auto simp: stopped_def safe_def safe_idle_def pending_def dest!: idleD split: sum.splits)

end

subsection \<open>The tick carries every event\<close>

text \<open>What the other sessions may do: append events, of the set \<open>E\<close>, and nothing that loses one.\<close>

definition appending :: "(nat \<times> uuid \<times> string \<times> json \<times> (string \<times> string) list) set \<Rightarrow> 'm outbox_db_scheme environment" where
  "appending E = \<lparr>rel = (\<lambda>d d'. outbox_rel d d' \<and> evs d' \<subseteq> evs d \<union> E), faulty = True\<rparr>"

lemma appending_sel [simp]:
  "rel (appending E) = (\<lambda>d d'. outbox_rel d d' \<and> evs d' \<subseteq> evs d \<union> E)" "faulty (appending E)"
  by (simp_all add: appending_def)

lemma appending_preorder: "reflp (rel (appending E))" "transp (rel (appending E))"
  by (auto intro!: reflpI transpI intro: outbox_rel_trans)

text \<open>The statements of the worker but the DELETE leave the events as they are.\<close>

lemma evs_update: "(\<And>r. ev_of (f r) = ev_of r) \<Longrightarrow> evs (update_outbox P f d) = evs d"
proof -
  assume "\<And>r. ev_of (f r) = ev_of r"
  then have "map ev_of (upd_where P f (outbox d)) = map ev_of (outbox d)" by (rule map_upd_where_key)
  then show ?thesis unfolding evs_def update_outbox_def by (simp del: set_map flip: set_map)
qed

lemma evs_stmts:
  "recover_stuck now d = Inr (u, d') \<Longrightarrow> evs d' = evs d"
  "mark_processing ids now d = Inr (u, d') \<Longrightarrow> evs d' = evs d"
  "mark_dead attempts i now d = Inr (u, d') \<Longrightarrow> evs d' = evs d"
  "reschedule attempts b i now d = Inr (u, d') \<Longrightarrow> evs d' = evs d"
  "delete_outbox i now d = Inr (u, d') \<Longrightarrow> evs d' \<subseteq> evs d"
  by (auto simp: outbox_stmt_defs evs_update ev_of_def) (auto simp: evs_def)

text \<open>The events the worker carries from \<open>d0\<close>, the messages \<open>msgs0\<close> having been sent before: every event is
  still there or has been sent since, and nothing is there or has been sent since but events of \<open>d0\<close> and
  those the others append.\<close>

definition carrying where
  "carrying exch E d0 msgs0 R d msgs \<longleftrightarrow> outbox_ok d0 \<and> (\<forall>row \<in> R. row_of d0 row \<and> ev_of row \<in> evs d0 \<union> E) \<and>
     evs d \<subseteq> evs d0 \<union> E \<and>
     (\<exists>ms. msgs = msgs0 @ ms \<and> carried exch d0 d ms \<and> set ms \<subseteq> message_ev exch ` (evs d0 \<union> E))"

lemma carrying_deletes:
  assumes "carrying exch E d0 msgs0 R d1 msgs" and k: "carrying exch E d0 msgs0 R d (msgs @ [message_of exch row])"
    and "row \<in> R" and del: "delete_outbox (o_id row) now d = Inr (u, d')"
  shows "carrying exch E d0 msgs0 R d' (msgs @ [message_of exch row])"
proof -
  obtain ms where ms: "msgs = msgs0 @ ms" using assms(1) by (auto simp: carrying_def)
  then have c: "carried exch d0 d (ms @ [message_of exch row])" using k by (auto simp: carrying_def)
  have "row_of d0 row" using k \<open>row \<in> R\<close> by (simp add: carrying_def)
  from carried_delete [OF c this _ del] show ?thesis
    using k ms evs_stmts(5) [OF del] by (auto simp: carrying_def)
qed

interpretation carry: tick_invariant "appending E" exch "carrying exch E d0 msgs0" for E exch d0 msgs0
proof unfold_locales
  fix R d msgs row
  assume k: "carrying exch E d0 msgs0 R d msgs" and r: "row \<in> R"
  then have "{message_of exch row} \<subseteq> message_ev exch ` (evs d0 \<union> E)"
    unfolding message_ev_of [symmetric] carrying_def by blast
  moreover obtain ms where ms: "msgs = msgs0 @ ms" "carried exch d0 d ms" "set ms \<subseteq> message_ev exch ` (evs d0 \<union> E)"
    using k by (auto simp: carrying_def)
  ultimately have "\<exists>ms. msgs @ [message_of exch row] = msgs0 @ ms \<and> carried exch d0 d ms \<and>
      set ms \<subseteq> message_ev exch ` (evs d0 \<union> E)"
    using carried_more by (intro exI [of _ "ms @ [message_of exch row]"]) simp
  then show "carrying exch E d0 msgs0 R d (msgs @ [message_of exch row])"
    using k by (simp add: carrying_def)
next
  fix R d and msgs :: "pub_msg list"
  assume "carrying exch E d0 msgs0 {} d msgs" and "R \<subseteq> set (outbox d)"
  then show "carrying exch E d0 msgs0 R d msgs"
    by (auto simp: carrying_def dest: carried_row_of) (auto simp: evs_def)
next
  fix R d d' and msgs :: "pub_msg list"
  assume "carrying exch E d0 msgs0 R d msgs" and "rel (appending E) d d'"
  then show "carrying exch E d0 msgs0 R d' msgs"
    unfolding carrying_def appending_sel using carried_rel by blast
next
  fix R d d1 d' row now and msgs :: "pub_msg list" and u :: unit
  assume "carrying exch E d0 msgs0 R d1 msgs" "carrying exch E d0 msgs0 R d (msgs @ [message_of exch row])"
    "row \<in> R" "delete_outbox (o_id row) now d = Inr (u, d')"
  then show "carrying exch E d0 msgs0 R d' (msgs @ [message_of exch row])" by (rule carrying_deletes)
qed (auto simp: carrying_def evs_stmts intro: outbox_rel_stmts)

end
