(* ===== verification/Seat_Db.thy ===== *)
theory Seat_Db
  imports Outbox_Table
begin

text \<open>
  The seat database (apps/seat-reservation/src/migrations/20240101000000_init.sql) and the SQL
  statements of holds.repository.ts, hold-sweeper.ts and seats.repository.ts: the rows, the partial
  unique indexes as the invariant \<open>seat_db_ok\<close>, and one definition per statement.
\<close>

datatype seat_status = SEAT_AVAILABLE | SEAT_HELD | SEAT_RESERVED

datatype hold_status = HELD | RELEASED | RESERVED

record seat_row =
  s_id :: uuid
  s_label :: string
  s_price_cents :: int
  s_currency :: string
  s_status :: seat_status

record hold_row =
  h_id :: uuid
  h_seat_id :: uuid
  h_user_id :: uuid
  h_status :: hold_status
  h_held_until :: instant
  h_created_at :: instant
  h_released_at :: "instant option"
  h_reserved_at :: "instant option"

record seat_db = outbox_db +
  seats :: "seat_row list"
  holds :: "hold_row list"
  consumed_events :: "(uuid \<times> string) list"

subsection \<open>Statements\<close>

abbreviation held :: "hold_row \<Rightarrow> bool" where
  "held h \<equiv> h_status h = HELD"

abbreviation expired :: "instant \<Rightarrow> hold_row \<Rightarrow> bool" where
  "expired now h \<equiv> held h \<and> h_held_until h < now"

text \<open>\<open>SET status = 'RELEASED', released_at = NOW()\<close> and \<open>SET status = 'RESERVED', reserved_at = NOW()\<close>.\<close>

definition release_row :: "instant \<Rightarrow> hold_row \<Rightarrow> hold_row" where
  "release_row now h = h\<lparr>h_status := RELEASED, h_released_at := Some now\<rparr>"

definition reserve_row :: "instant \<Rightarrow> hold_row \<Rightarrow> hold_row" where
  "reserve_row now h = h\<lparr>h_status := RESERVED, h_reserved_at := Some now\<rparr>"

definition update_holds where
  "update_holds P f d = d\<lparr>holds := upd_where P f (holds d)\<rparr>"

definition update_seats where
  "update_seats P f d = d\<lparr>seats := upd_where P f (seats d)\<rparr>"

text \<open>\<open>UPDATE holds SET status='RELEASED' .. WHERE seat_id=$1 AND status='HELD' AND held_until < NOW()\<close>\<close>

definition release_expired_on_seat :: "uuid \<Rightarrow> (seat_db, unit) stmt" where
  "release_expired_on_seat seatId now d =
     Inr ((), update_holds (\<lambda>h. h_seat_id h = seatId \<and> expired now h) (release_row now) d)"

text \<open>
  \<open>INSERT INTO holds .. RETURNING *\<close>. The unique indexes are checked in the order of their
  creation, the foreign key after them.
\<close>

definition insert_hold :: "uuid \<Rightarrow> uuid \<Rightarrow> uuid \<Rightarrow> instant \<Rightarrow> (seat_db, hold_row) stmt" where
  "insert_hold holdId seatId userId heldUntil now d =
     (let row = \<lparr>h_id = holdId, h_seat_id = seatId, h_user_id = userId, h_status = HELD,
                 h_held_until = heldUntil, h_created_at = now, h_released_at = None,
                 h_reserved_at = None\<rparr>
      in
      if \<exists>h \<in> set (holds d). h_id h = holdId then Inl (unique_violation ''holds_pkey'')
      else if \<exists>h \<in> set (holds d). held h \<and> h_seat_id h = seatId
        then Inl (unique_violation ''uniq_active_hold_per_seat'')
      else if \<exists>h \<in> set (holds d). held h \<and> h_user_id h = userId
        then Inl (unique_violation ''uniq_active_hold_per_user'')
      else if \<not> (\<exists>s \<in> set (seats d). s_id s = seatId)
        then Inl (foreign_key_violation ''holds_seat_id_fkey'')
      else Inr (row, d\<lparr>holds := holds d @ [row]\<rparr>))"

text \<open>\<open>UPDATE seats SET status = $2 WHERE id = $1\<close>\<close>

definition set_seat_status :: "uuid \<Rightarrow> seat_status \<Rightarrow> (seat_db, unit) stmt" where
  "set_seat_status seatId st now d =
     Inr ((), update_seats (\<lambda>s. s_id s = seatId) (\<lambda>s. s\<lparr>s_status := st\<rparr>) d)"

text \<open>
  \<open>UPDATE seats SET status='AVAILABLE' WHERE id=$1 AND NOT EXISTS (SELECT 1 FROM holds WHERE
  seat_id=$1 AND status='HELD')\<close>
\<close>

definition free_seat :: "uuid \<Rightarrow> seat_db \<Rightarrow> seat_db" where
  "free_seat seatId d =
     update_seats
       (\<lambda>s. s_id s = seatId \<and> \<not> (\<exists>h \<in> set (holds d). h_seat_id h = seatId \<and> held h))
       (\<lambda>s. s\<lparr>s_status := SEAT_AVAILABLE\<rparr>) d"

definition free_seat_stmt :: "uuid \<Rightarrow> (seat_db, unit) stmt" where
  "free_seat_stmt seatId now d = Inr ((), free_seat seatId d)"

text \<open>\<open>SELECT price_cents, currency FROM seats WHERE id = $1\<close>, first row or none\<close>

definition select_price :: "uuid \<Rightarrow> (seat_db, (int \<times> string) option) stmt" where
  "select_price seatId now d =
     Inr (map_option (\<lambda>s. (s_price_cents s, s_currency s))
            (find (\<lambda>s. s_id s = seatId) (seats d)), d)"

text \<open>\<open>UPDATE holds SET status='RELEASED' .. WHERE id=$1 AND status='HELD' RETURNING id, seat_id\<close>\<close>

definition release_by_id :: "uuid \<Rightarrow> (seat_db, (uuid \<times> uuid) list) stmt" where
  "release_by_id holdId now d =
     (let P = (\<lambda>h. h_id h = holdId \<and> held h) in
      Inr (map (\<lambda>h. (h_id h, h_seat_id h)) (returning P (release_row now) (holds d)),
           update_holds P (release_row now) d))"

text \<open>\<open>UPDATE holds SET status='RESERVED' .. WHERE id=$1 AND status='HELD' RETURNING seat_id, user_id\<close>\<close>

definition reserve_by_id :: "uuid \<Rightarrow> (seat_db, (uuid \<times> uuid) list) stmt" where
  "reserve_by_id holdId now d =
     (let P = (\<lambda>h. h_id h = holdId \<and> held h) in
      Inr (map (\<lambda>h. (h_seat_id h, h_user_id h)) (returning P (reserve_row now) (holds d)),
           update_holds P (reserve_row now) d))"

text \<open>\<open>INSERT INTO consumed_events .. ON CONFLICT DO NOTHING\<close>, with its row count\<close>

definition insert_consumed :: "uuid \<Rightarrow> string \<Rightarrow> (seat_db, nat) stmt" where
  "insert_consumed eventId grp now d =
     (if (eventId, grp) \<in> set (consumed_events d) then Inr (0, d)
      else Inr (1, d\<lparr>consumed_events := consumed_events d @ [(eventId, grp)]\<rparr>))"

text \<open>\<open>SELECT * FROM holds WHERE seat_id=$1 AND status='HELD' LIMIT 1\<close>\<close>

definition select_active_hold :: "uuid \<Rightarrow> (seat_db, hold_row option) stmt" where
  "select_active_hold seatId now d =
     Inr (find (\<lambda>h. h_seat_id h = seatId \<and> held h) (holds d), d)"

text \<open>
  The sweeper's batch: at most \<open>limit\<close> of the expired holds, in the order the scan meets them,
  without those another session has locked (\<open>FOR UPDATE SKIP LOCKED LIMIT $1\<close>). Which rows the scan
  yields, and in which order, is the server's: the parameter \<open>scan\<close>, of which only
  \<open>scan_ok\<close> is known.
\<close>

definition scan_ok :: "('r list \<Rightarrow> 'r list) \<Rightarrow> bool" where
  "scan_ok scan \<longleftrightarrow> (\<forall>rows. set (scan rows) \<subseteq> set rows)"

definition sweep_batch ::
    "(hold_row list \<Rightarrow> hold_row list) \<Rightarrow> nat \<Rightarrow> instant \<Rightarrow> seat_db \<Rightarrow> uuid list" where
  "sweep_batch scan limit now d = map h_id (take limit (scan (filter (expired now) (holds d))))"

definition sweep_expired ::
    "(hold_row list \<Rightarrow> hold_row list) \<Rightarrow> nat \<Rightarrow> (seat_db, (uuid \<times> uuid) list) stmt" where
  "sweep_expired scan limit now d =
     (let P = (\<lambda>h. h_id h \<in> set (sweep_batch scan limit now d)) in
      Inr (map (\<lambda>h. (h_id h, h_seat_id h)) (returning P (release_row now) (holds d)),
           update_holds P (release_row now) d))"

text \<open>A row of \<open>listAll\<close>: the seat and, where the LEFT JOIN found one, its active hold.\<close>

record seat_view =
  v_seat :: seat_row
  v_held_by :: "uuid option"
  v_held_until :: "instant option"

definition join_seat :: "hold_row list \<Rightarrow> seat_row \<Rightarrow> seat_view list" where
  "join_seat hs s =
     (case filter (\<lambda>h. h_seat_id h = s_id s \<and> held h) hs of
        [] \<Rightarrow> [\<lparr>v_seat = s, v_held_by = None, v_held_until = None\<rparr>]
      | ms \<Rightarrow> map (\<lambda>h. \<lparr>v_seat = s, v_held_by = Some (h_user_id h),
                          v_held_until = Some (h_held_until h)\<rparr>) ms)"

text \<open>\<open>ORDER BY s.label\<close> sorts by the database's collation: \<open>coll\<close> maps a label to its sort key.\<close>

definition select_seats :: "(string \<Rightarrow> 'k::linorder) \<Rightarrow> (seat_db, seat_view list) stmt" where
  "select_seats coll now d =
     Inr (sort_key (\<lambda>v. coll (s_label (v_seat v))) (concat (map (join_seat (holds d)) (seats d))), d)"

lemmas seat_stmt_defs =
  release_expired_on_seat_def insert_hold_def set_seat_status_def free_seat_stmt_def
  select_price_def release_by_id_def reserve_by_id_def insert_consumed_def
  select_active_hold_def sweep_expired_def select_seats_def insert_outbox_def

subsection \<open>Reading the tables after an update\<close>

lemma update_holds_sel [simp]:
  "holds (update_holds P f d) = upd_where P f (holds d)"
  "seats (update_holds P f d) = seats d"
  "outbox (update_holds P f d) = outbox d"
  "outbox_seq (update_holds P f d) = outbox_seq d"
  "consumed_events (update_holds P f d) = consumed_events d"
  by (simp_all add: update_holds_def)

lemma update_seats_sel [simp]:
  "seats (update_seats P f d) = upd_where P f (seats d)"
  "holds (update_seats P f d) = holds d"
  "outbox (update_seats P f d) = outbox d"
  "outbox_seq (update_seats P f d) = outbox_seq d"
  "consumed_events (update_seats P f d) = consumed_events d"
  by (simp_all add: update_seats_def)

lemma append_outbox_seat_sel [simp]:
  "seats (append_outbox now agg ty p hs d) = seats d"
  "holds (append_outbox now agg ty p hs d) = holds d"
  "consumed_events (append_outbox now agg ty p hs d) = consumed_events d"
  by (simp_all add: append_outbox_def)

lemma free_seat_sel [simp]:
  "holds (free_seat seatId d) = holds d"
  "outbox (free_seat seatId d) = outbox d"
  "outbox_seq (free_seat seatId d) = outbox_seq d"
  "consumed_events (free_seat seatId d) = consumed_events d"
  by (simp_all add: free_seat_def)

lemma release_row_sel [simp]:
  "h_id (release_row now h) = h_id h"
  "h_seat_id (release_row now h) = h_seat_id h"
  "h_user_id (release_row now h) = h_user_id h"
  "h_status (release_row now h) = RELEASED"
  "h_held_until (release_row now h) = h_held_until h"
  "h_created_at (release_row now h) = h_created_at h"
  "h_released_at (release_row now h) = Some now"
  "h_reserved_at (release_row now h) = h_reserved_at h"
  by (simp_all add: release_row_def)

lemma reserve_row_sel [simp]:
  "h_id (reserve_row now h) = h_id h"
  "h_seat_id (reserve_row now h) = h_seat_id h"
  "h_user_id (reserve_row now h) = h_user_id h"
  "h_status (reserve_row now h) = RESERVED"
  "h_held_until (reserve_row now h) = h_held_until h"
  "h_created_at (reserve_row now h) = h_created_at h"
  "h_released_at (reserve_row now h) = h_released_at h"
  "h_reserved_at (reserve_row now h) = Some now"
  by (simp_all add: reserve_row_def)

subsection \<open>The invariant of the seat database\<close>

text \<open>What the schema enforces: the keys, the two partial unique indexes, the foreign key.\<close>

definition seat_schema_ok :: "seat_db \<Rightarrow> bool" where
  "seat_schema_ok d \<longleftrightarrow>
     distinct (map s_id (seats d)) \<and> distinct (map h_id (holds d)) \<and>
     unique_where held h_seat_id (holds d) \<and> unique_where held h_user_id (holds d) \<and>
     h_seat_id ` set (holds d) \<subseteq> s_id ` set (seats d) \<and>
     distinct (consumed_events d) \<and> outbox_ok d"

text \<open>
  What the code keeps beside it: a seat is shown as held exactly while it has a held hold, and a
  seat shown as reserved has a reserved hold.
\<close>

definition has_hold :: "hold_row list \<Rightarrow> hold_status \<Rightarrow> uuid \<Rightarrow> bool" where
  "has_hold hs v k \<longleftrightarrow> (\<exists>h \<in> set hs. h_seat_id h = k \<and> h_status h = v)"

definition shown_ok :: "hold_row list \<Rightarrow> seat_row \<Rightarrow> bool" where
  "shown_ok hs s \<longleftrightarrow>
     (s_status s = SEAT_HELD \<longleftrightarrow> has_hold hs HELD (s_id s)) \<and>
     (s_status s = SEAT_RESERVED \<longrightarrow> has_hold hs RESERVED (s_id s))"

definition seat_status_ok :: "seat_db \<Rightarrow> bool" where
  "seat_status_ok d \<longleftrightarrow> (\<forall>s \<in> set (seats d). shown_ok (holds d) s)"

definition seat_db_ok :: "seat_db \<Rightarrow> bool" where
  "seat_db_ok d \<longleftrightarrow> seat_schema_ok d \<and> seat_status_ok d"

lemma seat_schema_append [simp]:
  "seat_schema_ok d \<Longrightarrow> seat_schema_ok (append_outbox now agg ty p hs d)"
  by (simp add: seat_schema_ok_def outbox_ok_append)

lemma seat_status_append [simp]:
  "seat_status_ok (append_outbox now agg ty p hs d) = seat_status_ok d"
  by (simp add: seat_status_ok_def)

lemma seat_schema_update_seats [simp]:
  assumes "seat_schema_ok d" and "\<And>s. s_id (f s) = s_id s"
  shows "seat_schema_ok (update_seats P f d)"
proof -
  have "map s_id (upd_where P f (seats d)) = map s_id (seats d)"
    using assms(2) by (rule map_upd_where_key)
  moreover have "s_id ` set (upd_where P f (seats d)) = s_id ` set (seats d)"
    using calculation by (metis list.set_map)
  ultimately show ?thesis
    using assms(1) by (simp add: seat_schema_ok_def outbox_ok_def)
qed

lemma seat_schema_free_seat [simp]: "seat_schema_ok d \<Longrightarrow> seat_schema_ok (free_seat seatId d)"
  by (simp add: free_seat_def)

text \<open>A change of holds that only takes rows out of HELD keeps the schema's invariant.\<close>

lemma seat_schema_update_holds:
  assumes "seat_schema_ok d"
    and f: "\<And>h. h_id (f h) = h_id h" "\<And>h. h_seat_id (f h) = h_seat_id h" "\<And>h. \<not> held (f h)"
  shows "seat_schema_ok (update_holds P f d)"
proof -
  have ids: "map h_id (upd_where P f (holds d)) = map h_id (holds d)"
    using f(1) by (rule map_upd_where_key)
  have "map h_seat_id (upd_where P f (holds d)) = map h_seat_id (holds d)"
    using f(2) by (rule map_upd_where_key)
  then have seats: "h_seat_id ` set (upd_where P f (holds d)) = h_seat_id ` set (holds d)"
    by (metis list.set_map)
  show ?thesis
    using assms ids seats
    by (simp add: seat_schema_ok_def outbox_ok_def unique_where_leave)
qed

lemma seat_schema_insert_hold:
  "seat_schema_ok d \<Longrightarrow> insert_hold holdId seatId userId until now d = Inr (h, d') \<Longrightarrow>
     seat_schema_ok d'"
  by (auto simp: insert_hold_def Let_def seat_schema_ok_def outbox_ok_def unique_where_snoc
      split: if_splits) blast

text \<open>With the schema's invariant an id names one hold.\<close>

lemma hold_by_id_unique:
  "seat_schema_ok d \<Longrightarrow> h \<in> set (holds d) \<Longrightarrow> h' \<in> set (holds d) \<Longrightarrow> h_id h = h_id h' \<Longrightarrow> h = h'"
  by (auto simp: seat_schema_ok_def distinct_map inj_on_def)

lemma held_seat_unique:
  "seat_schema_ok d \<Longrightarrow> h \<in> set (holds d) \<Longrightarrow> h' \<in> set (holds d) \<Longrightarrow> held h \<Longrightarrow> held h' \<Longrightarrow>
     h_seat_id h = h_seat_id h' \<Longrightarrow> h = h'"
  using unique_whereD [of held h_seat_id "holds d" h h'] by (simp add: seat_schema_ok_def)

lemma held_user_unique:
  "seat_schema_ok d \<Longrightarrow> h \<in> set (holds d) \<Longrightarrow> h' \<in> set (holds d) \<Longrightarrow> held h \<Longrightarrow> held h' \<Longrightarrow>
     h_user_id h = h_user_id h' \<Longrightarrow> h = h'"
  using unique_whereD [of held h_user_id "holds d" h h'] by (simp add: seat_schema_ok_def)

lemma returning_by_id:
  assumes "seat_schema_ok d" and "h \<in> set (holds d)" and "held h"
  shows "filter (\<lambda>x. h_id x = h_id h \<and> held x) (holds d) = [h]"
proof -
  have "filter (\<lambda>x. h_id x = h_id h \<and> held x) hs = [h]"
    if "distinct (map h_id hs)" "h \<in> set hs" for hs
    using that assms(3) by (induction hs) (auto simp: filter_empty_conv image_iff)
  then show ?thesis using assms by (simp add: seat_schema_ok_def)
qed

subsection \<open>How a seat is shown\<close>

lemma has_hold_append [simp]:
  "has_hold (hs @ hs') v k \<longleftrightarrow> has_hold hs v k \<or> has_hold hs' v k"
  "has_hold [] v k \<longleftrightarrow> False"
  "has_hold (h # hs) v k \<longleftrightarrow> h_seat_id h = k \<and> h_status h = v \<or> has_hold hs v k"
  by (auto simp: has_hold_def)

text \<open>A change of rows of other seats does not matter.\<close>

lemma has_hold_other:
  "(\<And>h. h \<in> set hs \<Longrightarrow> P h \<Longrightarrow> h_seat_id h \<noteq> k) \<Longrightarrow> (\<And>h. h_seat_id (f h) = h_seat_id h) \<Longrightarrow>
     has_hold (upd_where P f hs) v k = has_hold hs v k"
  by (induction hs) auto

lemma has_hold_release:
  "(\<And>h. P h \<Longrightarrow> held h) \<Longrightarrow>
     has_hold (upd_where P (release_row now) hs) RESERVED k = has_hold hs RESERVED k"
  by (induction hs) auto

lemma has_hold_release_held:
  "has_hold (upd_where P (release_row now) hs) HELD k \<Longrightarrow> has_hold hs HELD k"
  by (induction hs) (auto split: if_splits)

text \<open>
  While a transaction is under way the seats \<open>K\<close> may still be shown as held although their hold has
  just been released; \<open>free_seat\<close> settles one of them.
\<close>

definition stale_ok :: "uuid set \<Rightarrow> seat_db \<Rightarrow> bool" where
  "stale_ok K d \<longleftrightarrow>
     (\<forall>s \<in> set (seats d).
        (s_id s \<notin> K \<longrightarrow> shown_ok (holds d) s) \<and>
        (has_hold (holds d) HELD (s_id s) \<longrightarrow> s_status s = SEAT_HELD) \<and>
        (s_status s = SEAT_RESERVED \<longrightarrow> has_hold (holds d) RESERVED (s_id s)))"

lemma stale_ok_empty [simp]: "stale_ok {} d = seat_status_ok d"
  unfolding stale_ok_def seat_status_ok_def shown_ok_def by blast

lemma stale_ok_append [simp]: "stale_ok K (append_outbox now agg ty p hs d) = stale_ok K d"
  by (simp add: stale_ok_def)

lemma stale_ok_release:
  assumes "seat_status_ok d" and P: "\<And>h. P h \<Longrightarrow> held h"
    and K: "\<And>h. h \<in> set (holds d) \<Longrightarrow> P h \<Longrightarrow> h_seat_id h \<in> K"
  shows "stale_ok K (update_holds P (release_row now) d)"
proof -
  let ?hs = "upd_where P (release_row now) (holds d)"
  have "has_hold ?hs v k = has_hold (holds d) v k" if "k \<notin> K" for v k
    by (rule has_hold_other) (use K that in auto)
  moreover have "has_hold ?hs RESERVED k = has_hold (holds d) RESERVED k" for k
    using P by (rule has_hold_release)
  moreover have "has_hold ?hs HELD k \<Longrightarrow> has_hold (holds d) HELD k" for k
    by (rule has_hold_release_held)
  ultimately show ?thesis
    using assms(1) unfolding stale_ok_def seat_status_ok_def shown_ok_def update_holds_sel by metis
qed

lemma free_seat_eq:
  "free_seat k d =
     (if has_hold (holds d) HELD k then d
      else update_seats (\<lambda>s. s_id s = k) (\<lambda>s. s\<lparr>s_status := SEAT_AVAILABLE\<rparr>) d)"
proof (cases "has_hold (holds d) HELD k")
  case True
  then have "\<exists>h \<in> set (holds d). h_seat_id h = k \<and> held h" by (simp add: has_hold_def)
  then show ?thesis using True by (simp add: free_seat_def update_seats_def upd_where_def)
next
  case False
  then have "\<not> (\<exists>h \<in> set (holds d). h_seat_id h = k \<and> held h)" by (simp add: has_hold_def)
  then show ?thesis using False by (simp add: free_seat_def)
qed

lemma shown_ok_available:
  "\<not> has_hold hs HELD (s_id s) \<Longrightarrow> shown_ok hs (s\<lparr>s_status := SEAT_AVAILABLE\<rparr>)"
  by (simp add: shown_ok_def)

lemma stale_ok_free:
  assumes "stale_ok K d"
  shows "stale_ok (K - {k}) (free_seat k d)"
proof (cases "has_hold (holds d) HELD k")
  case True
  then show ?thesis
    using assms unfolding free_seat_eq stale_ok_def shown_ok_def by auto
next
  case False
  then show ?thesis
    using assms by (simp add: free_seat_eq stale_ok_def ball_upd_where shown_ok_available)
qed

end
