(* ===== verification/Dated.thy ===== *)
theory Dated
  imports Db_Tx
begin

text \<open>
  The instant of a transaction. PostgreSQL's NOW() is the server's clock at BEGIN, and a transactional
  method begins with two calls, \<open>pool.connect()\<close> and BEGIN; so on a connection where no call fails its
  instant is the reading of the script's second entry. The contract here is the one of \<open>atomic_tx\<close> with
  that instant in place of some instant. Likewise the contents a call meets are those the script's
  entries up to it have left, as long as the run itself has written nothing.
\<close>

subsection \<open>When\<close>

text \<open>The server's clock at the call number \<open>i\<close> from now; past the end of the script it has stopped.\<close>

definition call_clock :: "nat \<Rightarrow> ('d, 'x) conn_scheme \<Rightarrow> instant" where
  "call_clock i s = (if i < length (script s) then clock (script s ! i) else tx_now s)"

definition begun :: "('d, 'x) conn_scheme \<Rightarrow> instant" where
  "begun s = call_clock 1 s"

text \<open>What a method did, run undisturbed and without a failure from \<open>d\<close>.\<close>

definition dated_ok where
  "dated_ok st now d n m a s' \<longleftrightarrow> (\<exists>d'. st now d = Inr (a, d') \<and> idle (alone False) d' n m s')"

definition dated_err where
  "dated_err st now d n m e s' \<longleftrightarrow> st now d = Inl e \<and> idle (alone False) d n m s'"

lemma wp_connect_dated:
  assumes "idle (alone False) d n m s"
    and "\<And>s'. call_clock 0 s' = begun s \<Longrightarrow> idle (alone False) d (Suc n) m s' \<Longrightarrow> Q () s'"
  shows "wp connect Q E s"
proof -
  obtain t s1 where t: "next_tick s = (t, s1)" by (cases "next_tick s")
  with assms(1) have "idle (alone False) d n m s1" "fate t = Runs"
    using next_tick_pending [of "alone False" d n m s t s1] by (simp_all add: idle_def)
  moreover from this(1) have "idle (alone False) d (Suc n) m (s1\<lparr>checked_out := Suc (checked_out s1)\<rparr>)"
    by (simp add: conn_state_defs)
  moreover have "call_clock 0 (s1\<lparr>checked_out := Suc (checked_out s1)\<rparr>) = begun s"
    using t by (auto simp: next_tick_def call_clock_def begun_def split: list.splits)
  ultimately show ?thesis
    using t assms(2) by (simp add: wp_def connect_def)
qed

lemma wp_begin_dated:
  assumes "call_clock 0 s = now" and "idle (alone False) d n m s"
    and "\<And>s'. open_tx (alone False) d now d n m s' \<Longrightarrow> Q () s'"
  shows "wp begin_tx Q E s"
proof -
  obtain t s1 where t: "next_tick s = (t, s1)" by (cases "next_tick s")
  with assms(2) have "pending (alone False) d n m s1" "others t d = d" "tx s = None" "tx s1 = None"
    "committed s = d" "fate t = Runs"
    using next_tick_pending [of "alone False" d n m s t s1] by (auto simp: idle_def pending_def)
  moreover have "clock t = now"
    using t assms(1) by (auto simp: next_tick_def call_clock_def split: list.splits)
  ultimately show ?thesis
    using t assms(3) by (auto simp: wp_def begin_tx_def conn_state_defs Let_def)
qed

lemma dated_end_ok:
  "idle (alone False) d' (Suc n) m s' \<Longrightarrow> st now d = Inr (a, d') \<Longrightarrow> dated_ok st now d n m a (release s')"
  by (auto simp: dated_ok_def)

lemma dated_end_stmt:
  "idle (alone False) d (Suc n) m s' \<Longrightarrow> st now d = Inl e \<Longrightarrow> dated_err st now d n m e (release s')"
  by (simp add: dated_err_def)

lemma no_fault: "faulty (alone False) \<Longrightarrow> P"
  by simp

lemmas dated_ends = dated_end_ok dated_end_stmt

locale dated_tx = atomic_tx +
  assumes dated: "idle (alone False) d n m s \<Longrightarrow>
    wp op (\<lambda>a s'. \<exists>m'. dated_ok st (begun s) d n m' a s') (\<lambda>e s'. \<exists>m'. dated_err st (begun s) d n m' e s') s"
begin

lemma run_dated:
  assumes "quiet s" and "reliable s" and "tx s = None" and "op s = (r, s')"
  shows "case r of
      Inr a \<Rightarrow> st (begun s) (committed s) = Inr (a, committed s')
    | Inl e \<Rightarrow> st (begun s) (committed s) = Inl e \<and> committed s' = committed s"
  using wpD [OF dated [OF reliable_idle [OF assms(1-3)]] assms(4)]
  by (auto simp: dated_ok_def dated_err_def dest!: idleD split: sum.splits)

end

text \<open>The same for the methods that touch nothing else of the process.\<close>

locale dated_op = atomic_op op st
  for op :: "('d, 'x, 'a) dbm" and st :: "('d, 'a) stmt" +
  assumes dated_here: "idle (alone False) d n m s \<Longrightarrow>
    wp op (dated_ok st (begun s) d n m) (dated_err st (begun s) d n m) s"
begin

lemma wp_dated:
  assumes "idle (alone False) d n m s"
    and "\<And>a d' s'. st (begun s) d = Inr (a, d') \<Longrightarrow> idle (alone False) d' n m s' \<Longrightarrow> Q a s'"
    and "\<And>e s'. st (begun s) d = Inl e \<Longrightarrow> idle (alone False) d n m s' \<Longrightarrow> E e s'"
  shows "wp op Q E s"
  using assms(2,3) by (intro wp_mono [OF dated_here [OF assms(1)]]) (auto simp: dated_ok_def dated_err_def)

end

sublocale dated_op \<subseteq> dated_tx op st
  by unfold_locales (rule wp_mono [OF dated_here], auto)

subsection \<open>What\<close>

text \<open>The committed contents the call number \<open>k\<close> from now meets, after calls that only read.\<close>

definition met :: "nat \<Rightarrow> ('d, 'x) conn_scheme \<Rightarrow> 'd" where
  "met k s = fold others (take (Suc k) (script s)) (committed s)"

lemma met_later: "committed s' = met 0 s \<Longrightarrow> script s' = tl (script s) \<Longrightarrow> met k s' = met (Suc k) s"
  by (cases "script s") (simp_all add: met_def)

lemma wp_query_met:
  assumes i: "idle G d n m s"
    and run: "\<And>now a d' s'. rel G d (met 0 s) \<Longrightarrow> st now (met 0 s) = Inr (a, d') \<Longrightarrow> idle G d' n m s' \<Longrightarrow>
      script s' = tl (script s) \<Longrightarrow> Q a s'"
  shows "wp (query st) Q (\<lambda>_ _. True) s"
proof -
  obtain t s1 where t: "next_tick s = (t, s1)" by (cases "next_tick s")
  with i have s1: "pending G d n m s1" "tx s = None" "tx s1 = None" "committed s = d"
    and R: "rel G d (others t d)"
    using next_tick_pending [of G d n m s t s1] by (auto simp: idle_def pending_def)
  have met: "others t d = met 0 s" "script s1 = tl (script s)"
    using t s1(4) by (auto simp: next_tick_def met_def split: list.splits)
  have idle: "idle G d' n m (s1\<lparr>committed := d'\<rparr>)" for d'
    using s1 by (simp add: conn_state_defs)
  show ?thesis
    using t s1 run [OF R [unfolded met(1)] _ idle] met
    by (auto simp: wp_def query_def Let_def split: fate.splits sum.splits)
qed

end
