(* ===== verification/Holds.thy ===== *)
theory Holds
  imports Seat_Db Dated
begin

text \<open>
  HoldsRepository of apps/seat-reservation/src/holds/holds.repository.ts: placing, releasing and
  reserving a hold, each one transaction with its outbox row. For each method: the method itself,
  in the monad of Db_Tx with the calls, the catch blocks and the rollbacks of the source; the
  statement it amounts to (\<open>.._spec\<close>); the interpretation of the transaction contract, which says
  that the method is that statement, all or nothing; and what the statement does.
\<close>

subsection \<open>The process of the seat service\<close>

record seat_env =
  HOLD_TTL_SECONDS :: int
  SWEEP_BATCH_LIMIT :: nat
  RETRY_AFTER_SECONDS :: int

datatype bus_msg =
    Bus_Held uuid uuid instant
  | Bus_Released "uuid option"
  | Bus_Reserved "uuid option" "uuid option"

text \<open>The in-process state beside the connection: what the event bus has emitted, the counters of
  metrics.controller.ts, the headers set on the response.\<close>

record seat_proc = "seat_db conn" +
  bus :: "bus_msg list"
  seatsHeldTotal :: nat
  seatsReleasedTotal :: nat
  seatsReservedTotal :: nat
  holdConflictsTotal :: nat
  res_headers :: "(string \<times> string) list"

subsection \<open>The events\<close>

definition seat_held_payload ::
    "uuid \<Rightarrow> uuid \<Rightarrow> uuid \<Rightarrow> uuid \<Rightarrow> instant \<Rightarrow> int \<Rightarrow> string \<Rightarrow> string \<Rightarrow> instant \<Rightarrow> json" where
  "seat_held_payload eventId seatId userId holdId heldUntil priceCents currency traceId occ =
     JObj [(''schema'', JStr ''seat.held.v1''), (''eventId'', JStr eventId),
       (''seatId'', JStr seatId), (''userId'', JStr userId), (''holdId'', JStr holdId),
       (''heldUntil'', JStr (toISOString heldUntil)), (''priceCents'', JInt priceCents),
       (''currency'', JStr currency), (''traceId'', JStr traceId),
       (''occurredAt'', JStr (toISOString occ))]"

definition seat_released_payload ::
    "uuid \<Rightarrow> uuid \<Rightarrow> string \<Rightarrow> string \<Rightarrow> instant \<Rightarrow> json" where
  "seat_released_payload eventId seatId reason traceId occ =
     JObj [(''schema'', JStr ''seat.released.v1''), (''eventId'', JStr eventId),
       (''seatId'', JStr seatId), (''reason'', JStr reason), (''traceId'', JStr traceId),
       (''occurredAt'', JStr (toISOString occ))]"

definition seat_reserved_payload ::
    "uuid \<Rightarrow> uuid \<Rightarrow> uuid \<Rightarrow> uuid \<Rightarrow> string \<Rightarrow> instant \<Rightarrow> json" where
  "seat_reserved_payload eventId seatId userId holdId traceId occ =
     JObj [(''schema'', JStr ''seat.reserved.v1''), (''eventId'', JStr eventId),
       (''seatId'', JStr seatId), (''userId'', JStr userId), (''holdId'', JStr holdId),
       (''traceId'', JStr traceId), (''occurredAt'', JStr (toISOString occ))]"

text \<open>Each of them is accepted by its schema of packages/contracts.\<close>

lemma seat_held_payload_conforms:
  assumes "zod_documented z" and "is_uuid eventId" "is_uuid seatId" "is_uuid userId" "is_uuid holdId"
    "is_uuid traceId" and "date_ok heldUntil" "date_ok occ" and "0 \<le> price" and "length currency = 3"
  shows "SeatHeldV1 z (seat_held_payload eventId seatId userId holdId heldUntil price currency traceId occ) =
    Some (SeatHeld \<lparr>m_eventId = eventId, m_traceId = traceId, m_occurredAt = toISOString occ\<rparr>
      seatId userId holdId (toISOString heldUntil) price currency)"
  using assms by (simp add: seat_held_payload_def schema_defs zod_documentedD)

lemma seat_released_payload_conforms:
  assumes "zod_documented z" and "is_uuid eventId" "is_uuid seatId" "is_uuid traceId"
    and "date_ok occ" and "reason \<in> set release_reasons"
  shows "SeatReleasedV1 z (seat_released_payload eventId seatId reason traceId occ) =
    Some (SeatReleased \<lparr>m_eventId = eventId, m_traceId = traceId, m_occurredAt = toISOString occ\<rparr>
      seatId None reason)"
  using assms by (simp add: seat_released_payload_def schema_defs zod_documentedD)

lemma seat_reserved_payload_conforms:
  assumes "zod_documented z" and "is_uuid eventId" "is_uuid seatId" "is_uuid userId" "is_uuid holdId"
    "is_uuid traceId" and "date_ok occ"
  shows "SeatReservedV1 z (seat_reserved_payload eventId seatId userId holdId traceId occ) =
    Some (SeatReserved \<lparr>m_eventId = eventId, m_traceId = traceId, m_occurredAt = toISOString occ\<rparr>
      seatId userId holdId)"
  using assms by (simp add: seat_reserved_payload_def schema_defs zod_documentedD)

subsection \<open>insertHoldTx\<close>

datatype conflict_reason = seat_held | user_has_hold

datatype hold_result = Hold_Ok hold_row | Hold_Conflict conflict_reason

text \<open>\<open>reason = err.constraint === 'uniq_active_hold_per_user' ? 'user_has_hold' : 'seat_held'\<close>\<close>

definition conflict_of :: "exn \<Rightarrow> conflict_reason" where
  "conflict_of e =
     (if exn_constraint e = ''uniq_active_hold_per_user'' then user_has_hold else seat_held)"

definition lookupPrice :: "uuid \<Rightarrow> (seat_db, 'x, (int \<times> string) option) dbm" where
  "lookupPrice seatId = query (select_price seatId)"

text \<open>
  \<open>nowJs\<close> is \<open>Date.now()\<close> at the call, \<open>occ\<close> the second \<open>new Date()\<close>, \<open>holdId\<close> and \<open>eventId\<close> the two
  random UUIDs.
\<close>

definition insertHoldTx ::
    "seat_env \<Rightarrow> instant \<Rightarrow> uuid \<Rightarrow> uuid \<Rightarrow> instant \<Rightarrow> uuid \<Rightarrow> uuid \<Rightarrow> string \<Rightarrow>
     (seat_db, 'x, hold_result) dbm" where
  "insertHoldTx env nowJs holdId eventId occ seatId userId traceId =
     (let heldUntil = nowJs + HOLD_TTL_SECONDS env * 1000 in
      with_conn (rolling_back
        (bindM begin_tx (\<lambda>_.
         bindM (query (release_expired_on_seat seatId)) (\<lambda>_.
         try_catch
           (bindM (query (insert_hold holdId seatId userId heldUntil)) (\<lambda>hold.
            bindM (query (set_seat_status seatId SEAT_HELD)) (\<lambda>_.
            bindM (lookupPrice seatId) (\<lambda>p1.
            bindM (lookupPrice seatId) (\<lambda>p2.
            bindM (query (insert_outbox (h_id hold) ''seat.held.v1''
              (seat_held_payload eventId seatId userId (h_id hold) heldUntil
                 (case p1 of Some p \<Rightarrow> fst p | None \<Rightarrow> 0)
                 (case p2 of Some p \<Rightarrow> snd p | None \<Rightarrow> ''USD'') traceId occ)
              [(''traceId'', traceId), (''userId'', userId)])) (\<lambda>_.
            bindM commit_tx (\<lambda>_. retM (Hold_Ok hold))))))))
           (\<lambda>e. if is_unique_violation e
                then bindM rollback_tx (\<lambda>_. retM (Hold_Conflict (conflict_of e)))
                else throwM e))))))"

definition insert_hold_spec ::
    "seat_env \<Rightarrow> instant \<Rightarrow> uuid \<Rightarrow> uuid \<Rightarrow> instant \<Rightarrow> uuid \<Rightarrow> uuid \<Rightarrow> string \<Rightarrow>
     (seat_db, hold_result) stmt" where
  "insert_hold_spec env nowJs holdId eventId occ seatId userId traceId now d =
     (let heldUntil = nowJs + HOLD_TTL_SECONDS env * 1000;
          d1 = update_holds (\<lambda>h. h_seat_id h = seatId \<and> expired now h) (release_row now) d in
      case insert_hold holdId seatId userId heldUntil now d1 of
        Inl e \<Rightarrow> if is_unique_violation e then Inr (Hold_Conflict (conflict_of e), d) else Inl e
      | Inr (hold, d2) \<Rightarrow>
          let d3 = update_seats (\<lambda>s. s_id s = seatId) (\<lambda>s. s\<lparr>s_status := SEAT_HELD\<rparr>) d2;
              p = map_option (\<lambda>s. (s_price_cents s, s_currency s))
                    (find (\<lambda>s. s_id s = seatId) (seats d3)) in
          Inr (Hold_Ok hold,
               append_outbox now (h_id hold) ''seat.held.v1''
                 (seat_held_payload eventId seatId userId (h_id hold) heldUntil
                    (case p of Some q \<Rightarrow> fst q | None \<Rightarrow> 0)
                    (case p of Some q \<Rightarrow> snd q | None \<Rightarrow> ''USD'') traceId occ)
                 [(''traceId'', traceId), (''userId'', userId)] d3))"

lemma insertHoldTx_atomic_lemma:
  "idle G d n m s \<Longrightarrow>
     wp (insertHoldTx env nowJs holdId eventId occ seatId userId traceId)
       (atomic_ok G (insert_hold_spec env nowJs holdId eventId occ seatId userId traceId) d n m)
       (atomic_err G (insert_hold_spec env nowJs holdId eventId occ seatId userId traceId) d n m) s"
  unfolding insertHoldTx_def with_conn_def rolling_back_def lookupPrice_def Let_def wp_simps
  by ((rule tx_steps, assumption)
      | simp only: fault_not_unique if_False
      | (split if_split, intro conjI impI)
      | (rule tx_ends, assumption+)
      | (force simp: insert_hold_spec_def release_expired_on_seat_def set_seat_status_def
           select_price_def insert_outbox_def Let_def split: option.splits))+

lemma insertHoldTx_dated_lemma:
  "idle (alone False) d n m s \<Longrightarrow>
     wp (insertHoldTx env nowJs holdId eventId occ seatId userId traceId)
       (dated_ok (insert_hold_spec env nowJs holdId eventId occ seatId userId traceId) (begun s) d n m)
       (dated_err (insert_hold_spec env nowJs holdId eventId occ seatId userId traceId) (begun s) d n m) s"
  unfolding insertHoldTx_def with_conn_def rolling_back_def lookupPrice_def Let_def wp_simps
  apply (rule wp_connect_dated, assumption)
  apply (rule wp_begin_dated, assumption, assumption)
  by ((rule tx_steps, assumption)
      | (erule no_fault)
      | simp only: fault_not_unique if_False
      | (split if_split, intro conjI impI)
      | (rule dated_ends, assumption)
      | (force simp: insert_hold_spec_def release_expired_on_seat_def set_seat_status_def
           select_price_def insert_outbox_def Let_def split: option.splits))+

interpretation insert_hold_tx: dated_op
  "insertHoldTx env nowJs holdId eventId occ seatId userId traceId"
  "insert_hold_spec env nowJs holdId eventId occ seatId userId traceId"
  for env nowJs holdId eventId occ seatId userId traceId
  by unfold_locales (rule insertHoldTx_atomic_lemma insertHoldTx_dated_lemma, assumption)+

text \<open>
  What a successful hold does to the database: the expired hold of the seat is released, the new
  hold is added, the seat is shown as held, one event is appended, and nothing else changes.
\<close>

definition hold_placed ::
    "seat_env \<Rightarrow> instant \<Rightarrow> uuid \<Rightarrow> uuid \<Rightarrow> instant \<Rightarrow> uuid \<Rightarrow> uuid \<Rightarrow> string \<Rightarrow>
     seat_db \<Rightarrow> hold_row \<Rightarrow> seat_db \<Rightarrow> bool" where
  "hold_placed env nowJs holdId eventId occ seatId userId traceId d h d' \<longleftrightarrow>
     (\<exists>now price.
        h = \<lparr>h_id = holdId, h_seat_id = seatId, h_user_id = userId, h_status = HELD,
             h_held_until = nowJs + HOLD_TTL_SECONDS env * 1000, h_created_at = now,
             h_released_at = None, h_reserved_at = None\<rparr> \<and>
        holds d' =
          upd_where (\<lambda>x. h_seat_id x = seatId \<and> expired now x) (release_row now) (holds d) @ [h] \<and>
        seats d' = upd_where (\<lambda>x. s_id x = seatId) (\<lambda>x. x\<lparr>s_status := SEAT_HELD\<rparr>) (seats d) \<and>
        consumed_events d' = consumed_events d \<and>
        (\<exists>x \<in> set (seats d). s_id x = seatId \<and> price = (s_price_cents x, s_currency x)) \<and>
        outbox d' = outbox d @
          [new_outbox_row (Suc (outbox_seq d)) now holdId ''seat.held.v1''
             (seat_held_payload eventId seatId userId holdId
                (nowJs + HOLD_TTL_SECONDS env * 1000) (fst price) (snd price) traceId occ)
             [(''traceId'', traceId), (''userId'', userId)]] \<and>
        outbox_seq d' = Suc (outbox_seq d))"

lemma find_updated_seat:
  assumes "s \<in> set xs" and "s_id s = k"
  shows "\<exists>x \<in> set xs. s_id x = k \<and>
           map_option (\<lambda>s. (s_price_cents s, s_currency s))
             (find (\<lambda>s. s_id s = k)
               (upd_where (\<lambda>s. s_id s = k) (\<lambda>s. s\<lparr>s_status := st\<rparr>) xs)) =
             Some (s_price_cents x, s_currency x)"
  using assms by (induction xs) auto

lemma insert_hold_Inr:
  "insert_hold holdId seatId userId heldUntil now d = Inr (h, d') \<Longrightarrow>
     h = \<lparr>h_id = holdId, h_seat_id = seatId, h_user_id = userId, h_status = HELD,
          h_held_until = heldUntil, h_created_at = now, h_released_at = None,
          h_reserved_at = None\<rparr> \<and>
     d' = d\<lparr>holds := holds d @ [h]\<rparr> \<and> (\<exists>s \<in> set (seats d). s_id s = seatId) \<and>
     (\<forall>x \<in> set (holds d). h_id x \<noteq> holdId \<and>
        (held x \<longrightarrow> h_seat_id x \<noteq> seatId \<and> h_user_id x \<noteq> userId))"
  by (auto simp: insert_hold_def Let_def split: if_splits)

lemma insert_hold_Inl:
  "insert_hold holdId seatId userId heldUntil now d = Inl e \<Longrightarrow>
     e = unique_violation ''holds_pkey'' \<and> (\<exists>x \<in> set (holds d). h_id x = holdId) \<or>
     e = unique_violation ''uniq_active_hold_per_seat'' \<and>
       (\<exists>x \<in> set (holds d). held x \<and> h_seat_id x = seatId) \<or>
     e = unique_violation ''uniq_active_hold_per_user'' \<and>
       (\<exists>x \<in> set (holds d). held x \<and> h_user_id x = userId) \<or>
     e = foreign_key_violation ''holds_seat_id_fkey'' \<and> (\<forall>s \<in> set (seats d). s_id s \<noteq> seatId)"
  by (auto simp: insert_hold_def Let_def split: if_splits)

lemma insert_hold_spec_created:
  "insert_hold_spec env nowJs holdId eventId occ seatId userId traceId now d = Inr (Hold_Ok h, d') \<Longrightarrow>
     h_created_at h = now"
  by (auto simp: insert_hold_spec_def Let_def dest!: insert_hold_Inr split: sum.splits if_splits)

lemma insert_hold_spec_placed:
  assumes "insert_hold_spec env nowJs holdId eventId occ seatId userId traceId now d =
    Inr (Hold_Ok h, d')"
  shows "hold_placed env nowJs holdId eventId occ seatId userId traceId d h d'"
proof -
  let ?d1 = "update_holds (\<lambda>h. h_seat_id h = seatId \<and> expired now h) (release_row now) d"
  obtain d2 where i: "insert_hold holdId seatId userId (nowJs + HOLD_TTL_SECONDS env * 1000)
      now ?d1 = Inr (h, d2)"
    using assms by (auto simp: insert_hold_spec_def Let_def split: sum.splits if_splits)
  note h = insert_hold_Inr [OF i]
  then obtain s where s: "s \<in> set (seats d)" "s_id s = seatId" by auto
  obtain x where x: "x \<in> set (seats d)" "s_id x = seatId"
    and f: "map_option (\<lambda>s. (s_price_cents s, s_currency s))
             (find (\<lambda>s. s_id s = seatId)
               (upd_where (\<lambda>s. s_id s = seatId) (\<lambda>s. s\<lparr>s_status := SEAT_HELD\<rparr>) (seats d))) =
             Some (s_price_cents x, s_currency x)"
    using find_updated_seat [OF s] by blast
  have d2: "seats d2 = seats d"
    "holds d2 = upd_where (\<lambda>x. h_seat_id x = seatId \<and> expired now x) (release_row now) (holds d) @ [h]"
    "consumed_events d2 = consumed_events d" "outbox d2 = outbox d" "outbox_seq d2 = outbox_seq d"
    using h by simp_all
  have d': "d' = append_outbox now (h_id h) ''seat.held.v1''
                 (seat_held_payload eventId seatId userId (h_id h)
                    (nowJs + HOLD_TTL_SECONDS env * 1000)
                    (s_price_cents x) (s_currency x) traceId occ)
                 [(''traceId'', traceId), (''userId'', userId)]
                 (update_seats (\<lambda>s. s_id s = seatId) (\<lambda>s. s\<lparr>s_status := SEAT_HELD\<rparr>) d2)"
    using assms i f d2(1) by (auto simp: insert_hold_spec_def Let_def)
  have hid: "h_id h = holdId" using h by simp
  show ?thesis
    unfolding hold_placed_def
    by (rule exI [of _ now], rule exI [of _ "(s_price_cents x, s_currency x)"])
      (use h x in \<open>auto simp: d' hid d2 append_outbox_def\<close>)
qed

lemma insert_hold_spec_conflict:
  "insert_hold_spec env nowJs holdId eventId occ seatId userId traceId now d =
     Inr (Hold_Conflict c, d') \<Longrightarrow> d' = d"
  by (auto simp: insert_hold_spec_def Let_def split: sum.splits if_splits)

lemma insert_hold_spec_error:
  "insert_hold_spec env nowJs holdId eventId occ seatId userId traceId now d = Inl e \<Longrightarrow>
     e = foreign_key_violation ''holds_seat_id_fkey'' \<and> (\<forall>s \<in> set (seats d). s_id s \<noteq> seatId)"
  by (auto simp: insert_hold_spec_def Let_def dest!: insert_hold_Inl split: sum.splits if_splits)

text \<open>The decision: which of the constraints the row would violate, after the lazy cleanup.\<close>

definition blocking :: "instant \<Rightarrow> uuid \<Rightarrow> hold_row \<Rightarrow> bool" where
  "blocking now seatId h \<longleftrightarrow> held h \<and> \<not> (h_seat_id h = seatId \<and> h_held_until h < now)"

lemma blocking_after_cleanup:
  "(\<exists>x \<in> set (upd_where (\<lambda>h. h_seat_id h = seatId \<and> expired now h) (release_row now) hs).
      held x \<and> Q x) \<longleftrightarrow> (\<exists>x \<in> set hs. blocking now seatId x \<and> Q x)"
  by (induction hs) (auto simp: blocking_def)

lemma ids_after_cleanup:
  "(\<exists>x \<in> set (upd_where P (release_row now) hs). h_id x = k) \<longleftrightarrow> (\<exists>x \<in> set hs. h_id x = k)"
  by (induction hs) auto

lemma insert_hold_spec_ok_iff:
  "(\<exists>h d'. insert_hold_spec env nowJs holdId eventId occ seatId userId traceId now d =
      Inr (Hold_Ok h, d')) \<longleftrightarrow>
   (\<forall>x \<in> set (holds d). h_id x \<noteq> holdId) \<and> (\<exists>s \<in> set (seats d). s_id s = seatId) \<and>
   (\<forall>x \<in> set (holds d). blocking now seatId x \<longrightarrow> h_seat_id x \<noteq> seatId \<and> h_user_id x \<noteq> userId)"
proof -
  let ?d1 = "update_holds (\<lambda>h. h_seat_id h = seatId \<and> expired now h) (release_row now) d"
  have "(\<exists>h d'. insert_hold_spec env nowJs holdId eventId occ seatId userId traceId now d =
      Inr (Hold_Ok h, d')) \<longleftrightarrow>
    (\<exists>h d'. insert_hold holdId seatId userId (nowJs + HOLD_TTL_SECONDS env * 1000) now ?d1 =
      Inr (h, d'))"
    by (auto simp: insert_hold_spec_def Let_def split: sum.splits)
  also have "\<dots> \<longleftrightarrow> \<not> (\<exists>x \<in> set (holds ?d1). h_id x = holdId) \<and>
     \<not> (\<exists>x \<in> set (holds ?d1). held x \<and> h_seat_id x = seatId) \<and>
     \<not> (\<exists>x \<in> set (holds ?d1). held x \<and> h_user_id x = userId) \<and> (\<exists>s \<in> set (seats d). s_id s = seatId)"
    by (simp add: insert_hold_def Let_def)
  also have "\<dots> \<longleftrightarrow> (\<forall>x \<in> set (holds d). h_id x \<noteq> holdId) \<and> (\<exists>s \<in> set (seats d). s_id s = seatId) \<and>
   (\<forall>x \<in> set (holds d). blocking now seatId x \<longrightarrow> h_seat_id x \<noteq> seatId \<and> h_user_id x \<noteq> userId)"
    by (simp add: blocking_after_cleanup ids_after_cleanup) blast
  finally show ?thesis .
qed

lemma insert_hold_spec_conflict_reason:
  assumes "insert_hold_spec env nowJs holdId eventId occ seatId userId traceId now d =
    Inr (Hold_Conflict c, d')"
  shows "case c of
      seat_held \<Rightarrow> \<exists>x \<in> set (holds d). h_id x = holdId \<or> blocking now seatId x \<and> h_seat_id x = seatId
    | user_has_hold \<Rightarrow> \<exists>x \<in> set (holds d). blocking now seatId x \<and> h_user_id x = userId"
proof -
  let ?d1 = "update_holds (\<lambda>h. h_seat_id h = seatId \<and> expired now h) (release_row now) d"
  obtain e where i: "insert_hold holdId seatId userId (nowJs + HOLD_TTL_SECONDS env * 1000)
      now ?d1 = Inl e" and e: "is_unique_violation e" "c = conflict_of e"
    using assms by (auto simp: insert_hold_spec_def Let_def split: sum.splits if_splits)
  have "e = unique_violation ''holds_pkey'' \<and> (\<exists>x \<in> set (holds ?d1). h_id x = holdId) \<or>
     e = unique_violation ''uniq_active_hold_per_seat'' \<and>
       (\<exists>x \<in> set (holds ?d1). held x \<and> h_seat_id x = seatId) \<or>
     e = unique_violation ''uniq_active_hold_per_user'' \<and>
       (\<exists>x \<in> set (holds ?d1). held x \<and> h_user_id x = userId)"
    using insert_hold_Inl [OF i] e(1) by (elim disjE) simp_all
  then have "e = unique_violation ''holds_pkey'' \<and> (\<exists>x \<in> set (holds d). h_id x = holdId) \<or>
     e = unique_violation ''uniq_active_hold_per_seat'' \<and>
       (\<exists>x \<in> set (holds d). blocking now seatId x \<and> h_seat_id x = seatId) \<or>
     e = unique_violation ''uniq_active_hold_per_user'' \<and>
       (\<exists>x \<in> set (holds d). blocking now seatId x \<and> h_user_id x = userId)"
    by (simp only: update_holds_sel blocking_after_cleanup ids_after_cleanup)
  then show ?thesis
    by (elim disjE) (auto simp: e(2) conflict_of_def)
qed

subsection \<open>releaseHold\<close>

record release_result =
  r_released :: bool
  r_seatId :: "uuid option"

definition releaseHold ::
    "uuid \<Rightarrow> string \<Rightarrow> string \<Rightarrow> uuid \<Rightarrow> instant \<Rightarrow> (seat_db, 'x, release_result) dbm" where
  "releaseHold holdId reason traceId eventId occ =
     with_conn (rolling_back
       (bindM begin_tx (\<lambda>_.
        bindM (query (release_by_id holdId)) (\<lambda>rows.
        if rows = []
        then bindM rollback_tx (\<lambda>_. retM \<lparr>r_released = False, r_seatId = None\<rparr>)
        else
          let seatId = snd (hd rows) in
          bindM (query (free_seat_stmt seatId)) (\<lambda>_.
          bindM (query (insert_outbox holdId ''seat.released.v1''
            (seat_released_payload eventId seatId reason traceId occ)
            [(''traceId'', traceId)])) (\<lambda>_.
          bindM commit_tx (\<lambda>_. retM \<lparr>r_released = True, r_seatId = Some seatId\<rparr>)))))))"

definition release_hold_spec ::
    "uuid \<Rightarrow> string \<Rightarrow> string \<Rightarrow> uuid \<Rightarrow> instant \<Rightarrow> (seat_db, release_result) stmt" where
  "release_hold_spec holdId reason traceId eventId occ now d =
     (let rows = filter (\<lambda>h. h_id h = holdId \<and> held h) (holds d); h = hd rows in
      if rows = [] then Inr (\<lparr>r_released = False, r_seatId = None\<rparr>, d)
      else Inr (\<lparr>r_released = True, r_seatId = Some (h_seat_id h)\<rparr>,
            append_outbox now holdId ''seat.released.v1''
              (seat_released_payload eventId (h_seat_id h) reason traceId occ)
              [(''traceId'', traceId)]
              (free_seat (h_seat_id h)
                (update_holds (\<lambda>h. h_id h = holdId \<and> held h) (release_row now) d))))"

lemma releaseHold_atomic_lemma:
  "idle G d n m s \<Longrightarrow>
     wp (releaseHold holdId reason traceId eventId occ)
       (atomic_ok G (release_hold_spec holdId reason traceId eventId occ) d n m)
       (atomic_err G (release_hold_spec holdId reason traceId eventId occ) d n m) s"
  unfolding releaseHold_def with_conn_def rolling_back_def Let_def wp_simps
  by ((rule tx_steps, assumption)
      | (split if_split, intro conjI impI)
      | (rule tx_ends, assumption+)
      | (force simp: release_hold_spec_def release_by_id_def free_seat_stmt_def returning_def
           insert_outbox_def hd_map Let_def))+

interpretation release_hold: atomic_op
  "releaseHold holdId reason traceId eventId occ"
  "release_hold_spec holdId reason traceId eventId occ"
  for holdId reason traceId eventId occ
  by unfold_locales (rule releaseHold_atomic_lemma)

lemma release_hold_spec_total: "\<exists>r d'. release_hold_spec holdId reason traceId eventId occ now d = Inr (r, d')"
  by (simp add: release_hold_spec_def Let_def)

lemma release_hold_spec_noop:
  assumes "\<forall>h \<in> set (holds d). h_id h = holdId \<longrightarrow> \<not> held h"
  shows "release_hold_spec holdId reason traceId eventId occ now d =
    Inr (\<lparr>r_released = False, r_seatId = None\<rparr>, d)"
  using assms by (simp add: release_hold_spec_def filter_empty_conv)

lemma release_hold_spec_held:
  assumes "seat_schema_ok d" and "h \<in> set (holds d)" and "held h"
  shows "release_hold_spec (h_id h) reason traceId eventId occ now d =
    Inr (\<lparr>r_released = True, r_seatId = Some (h_seat_id h)\<rparr>,
      append_outbox now (h_id h) ''seat.released.v1''
        (seat_released_payload eventId (h_seat_id h) reason traceId occ) [(''traceId'', traceId)]
        (free_seat (h_seat_id h)
          (update_holds (\<lambda>x. h_id x = h_id h \<and> held x) (release_row now) d)))"
  by (simp add: release_hold_spec_def returning_by_id [OF assms])

lemma not_held_after_release:
  "\<forall>h \<in> set (upd_where (\<lambda>h. h_id h = k \<and> held h) (release_row now) hs). h_id h = k \<longrightarrow> \<not> held h"
  unfolding ball_upd_where by simp

lemma release_hold_spec_released:
  assumes "release_hold_spec holdId reason traceId eventId occ now d = Inr (r, d')"
    and "h \<in> set (holds d')" and "h_id h = holdId"
  shows "\<not> held h"
proof (cases "filter (\<lambda>h. h_id h = holdId \<and> held h) (holds d) = []")
  case True
  then have "d' = d" using assms(1) by (simp add: release_hold_spec_def)
  then show ?thesis using True assms(2,3) by (simp add: filter_empty_conv)
next
  case False
  then have "holds d' = upd_where (\<lambda>h. h_id h = holdId \<and> held h) (release_row now) (holds d)"
    using assms(1) by (auto simp: release_hold_spec_def Let_def)
  then show ?thesis using not_held_after_release assms(2,3) by simp
qed

subsection \<open>reserveHold\<close>

record reserve_result =
  q_reserved :: bool
  q_seatId :: "uuid option"
  q_userId :: "uuid option"

definition not_reserved :: reserve_result where
  "not_reserved = \<lparr>q_reserved = False, q_seatId = None, q_userId = None\<rparr>"

text \<open>\<open>newEventId\<close> is the random id of the event it appends, \<open>eventId\<close> that of the event consumed.\<close>

definition reserveHold ::
    "uuid \<Rightarrow> uuid \<Rightarrow> string \<Rightarrow> string \<Rightarrow> uuid \<Rightarrow> instant \<Rightarrow> (seat_db, 'x, reserve_result) dbm" where
  "reserveHold holdId eventId consumerGroup traceId newEventId occ =
     with_conn (rolling_back
       (bindM begin_tx (\<lambda>_.
        bindM (query (insert_consumed eventId consumerGroup)) (\<lambda>rowCount.
        if rowCount = 0
        then bindM rollback_tx (\<lambda>_. retM not_reserved)
        else
          bindM (query (reserve_by_id holdId)) (\<lambda>rows.
          if rows = []
          then bindM rollback_tx (\<lambda>_. retM not_reserved)
          else
            let seat_id = fst (hd rows); user_id = snd (hd rows) in
            bindM (query (set_seat_status seat_id SEAT_RESERVED)) (\<lambda>_.
            bindM (query (insert_outbox holdId ''seat.reserved.v1''
              (seat_reserved_payload newEventId seat_id user_id holdId traceId occ)
              [(''traceId'', traceId)])) (\<lambda>_.
            bindM commit_tx (\<lambda>_.
            retM \<lparr>q_reserved = True, q_seatId = Some seat_id, q_userId = Some user_id\<rparr>))))))))"

definition reserve_hold_spec ::
    "uuid \<Rightarrow> uuid \<Rightarrow> string \<Rightarrow> string \<Rightarrow> uuid \<Rightarrow> instant \<Rightarrow> (seat_db, reserve_result) stmt" where
  "reserve_hold_spec holdId eventId consumerGroup traceId newEventId occ now d =
     (if (eventId, consumerGroup) \<in> set (consumed_events d) then Inr (not_reserved, d)
      else
        let rows = filter (\<lambda>h. h_id h = holdId \<and> held h) (holds d); h = hd rows in
        if rows = [] then Inr (not_reserved, d)
        else Inr (\<lparr>q_reserved = True, q_seatId = Some (h_seat_id h), q_userId = Some (h_user_id h)\<rparr>,
              append_outbox now holdId ''seat.reserved.v1''
                (seat_reserved_payload newEventId (h_seat_id h) (h_user_id h) holdId traceId occ)
                [(''traceId'', traceId)]
                (update_seats (\<lambda>s. s_id s = h_seat_id h) (\<lambda>s. s\<lparr>s_status := SEAT_RESERVED\<rparr>)
                  (update_holds (\<lambda>h. h_id h = holdId \<and> held h) (reserve_row now)
                    (d\<lparr>consumed_events := consumed_events d @ [(eventId, consumerGroup)]\<rparr>)))))"

lemma reserveHold_atomic_lemma:
  "idle G d n m s \<Longrightarrow>
     wp (reserveHold holdId eventId consumerGroup traceId newEventId occ)
       (atomic_ok G (reserve_hold_spec holdId eventId consumerGroup traceId newEventId occ) d n m)
       (atomic_err G (reserve_hold_spec holdId eventId consumerGroup traceId newEventId occ) d n m) s"
  unfolding reserveHold_def with_conn_def rolling_back_def Let_def wp_simps
  by ((rule tx_steps, assumption)
      | (split if_split, intro conjI impI)
      | (rule tx_ends, assumption+)
      | (force simp: reserve_hold_spec_def reserve_by_id_def set_seat_status_def returning_def
           insert_consumed_def insert_outbox_def hd_map Let_def split: if_splits))+

interpretation reserve_hold: atomic_op
  "reserveHold holdId eventId consumerGroup traceId newEventId occ"
  "reserve_hold_spec holdId eventId consumerGroup traceId newEventId occ"
  for holdId eventId consumerGroup traceId newEventId occ
  by unfold_locales (rule reserveHold_atomic_lemma)

lemma reserve_hold_spec_total:
  "\<exists>r d'. reserve_hold_spec holdId eventId cg traceId newEventId occ now d = Inr (r, d')"
  by (simp add: reserve_hold_spec_def Let_def)

lemma reserve_hold_spec_noop:
  assumes "(eventId, cg) \<in> set (consumed_events d) \<or>
    (\<forall>h \<in> set (holds d). h_id h = holdId \<longrightarrow> \<not> held h)"
  shows "reserve_hold_spec holdId eventId cg traceId newEventId occ now d = Inr (not_reserved, d)"
  using assms by (auto simp: reserve_hold_spec_def filter_empty_conv Let_def)

lemma reserve_hold_spec_held:
  assumes "seat_schema_ok d" and "h \<in> set (holds d)" and "held h"
    and "(eventId, cg) \<notin> set (consumed_events d)"
  shows "reserve_hold_spec (h_id h) eventId cg traceId newEventId occ now d =
    Inr (\<lparr>q_reserved = True, q_seatId = Some (h_seat_id h), q_userId = Some (h_user_id h)\<rparr>,
      append_outbox now (h_id h) ''seat.reserved.v1''
        (seat_reserved_payload newEventId (h_seat_id h) (h_user_id h) (h_id h) traceId occ)
        [(''traceId'', traceId)]
        (update_seats (\<lambda>s. s_id s = h_seat_id h) (\<lambda>s. s\<lparr>s_status := SEAT_RESERVED\<rparr>)
          (update_holds (\<lambda>x. h_id x = h_id h \<and> held x) (reserve_row now)
            (d\<lparr>consumed_events := consumed_events d @ [(eventId, cg)]\<rparr>))))"
  using assms(4) by (simp add: reserve_hold_spec_def returning_by_id [OF assms(1-3)])

subsection \<open>findActiveHoldForSeat\<close>

definition findActiveHoldForSeat :: "uuid \<Rightarrow> (seat_db, 'x, hold_row option) dbm" where
  "findActiveHoldForSeat seatId = query (select_active_hold seatId)"

interpretation find_active: atomic_op "findActiveHoldForSeat seatId" "select_active_hold seatId"
  for seatId
  unfolding findActiveHoldForSeat_def by unfold_locales (rule wp_query_atomic)

subsection \<open>The three statements keep the invariant of the database\<close>

lemma insert_hold_spec_keeps_ok:
  assumes "seat_db_ok d"
    and "insert_hold_spec env nowJs holdId eventId occ seatId userId traceId now d = Inr (r, d')"
  shows "seat_db_ok d'"
proof (cases r)
  case (Hold_Conflict c)
  then show ?thesis using assms insert_hold_spec_conflict by blast
next
  case (Hold_Ok h)
  let ?P = "\<lambda>h. h_seat_id h = seatId \<and> expired now h"
  let ?d1 = "update_holds ?P (release_row now) d"
  have ok: "seat_schema_ok d" "seat_status_ok d" using assms(1) by (simp_all add: seat_db_ok_def)
  obtain d2 agg p hs where i: "insert_hold holdId seatId userId
        (nowJs + HOLD_TTL_SECONDS env * 1000) now ?d1 = Inr (h, d2)"
    and d': "d' = append_outbox now agg ''seat.held.v1'' p hs
      (update_seats (\<lambda>s. s_id s = seatId) (\<lambda>s. s\<lparr>s_status := SEAT_HELD\<rparr>) d2)"
    using assms(2) Hold_Ok by (auto simp: insert_hold_spec_def Let_def split: sum.splits if_splits)
  have "seat_schema_ok d'"
    unfolding d' using seat_schema_insert_hold [OF seat_schema_update_holds [OF ok(1)] i] by simp
  moreover have "stale_ok {seatId} ?d1"
    by (rule stale_ok_release [OF ok(2)]) auto
  then have "\<forall>s \<in> set (seats d2). s_id s \<noteq> seatId \<longrightarrow> shown_ok (holds d2) s"
    using insert_hold_Inr [OF i] by (simp add: stale_ok_def shown_ok_def)
  then have "seat_status_ok d'"
    using insert_hold_Inr [OF i] by (simp add: d' seat_status_ok_def ball_upd_where shown_ok_def)
  ultimately show ?thesis by (simp add: seat_db_ok_def)
qed

lemma release_hold_spec_keeps_ok:
  assumes "seat_db_ok d"
    and "release_hold_spec holdId reason traceId eventId occ now d = Inr (r, d')"
  shows "seat_db_ok d'"
proof (cases "\<exists>h \<in> set (holds d). h_id h = holdId \<and> held h")
  case False
  then show ?thesis
    using assms release_hold_spec_noop [of d holdId reason traceId eventId occ now] by auto
next
  case True
  then obtain h where h: "h \<in> set (holds d)" "h_id h = holdId" "held h" by blast
  have ok: "seat_schema_ok d" "seat_status_ok d" using assms(1) by (simp_all add: seat_db_ok_def)
  let ?d1 = "update_holds (\<lambda>x. h_id x = h_id h \<and> held x) (release_row now) d"
  have "stale_ok {h_seat_id h} ?d1"
    by (rule stale_ok_release [OF ok(2)]) (use hold_by_id_unique [OF ok(1) _ h(1)] in auto)
  then have "seat_status_ok (free_seat (h_seat_id h) ?d1)"
    using stale_ok_free [of "{h_seat_id h}" ?d1 "h_seat_id h"] by simp
  moreover have "seat_schema_ok ?d1"
    by (rule seat_schema_update_holds [OF ok(1)]) simp_all
  ultimately show ?thesis
    using assms(2) release_hold_spec_held [OF ok(1) h(1,3)] h(2) by (auto simp: seat_db_ok_def)
qed

lemma seat_schema_consume:
  "seat_schema_ok d \<Longrightarrow> (e, g) \<notin> set (consumed_events d) \<Longrightarrow>
     seat_schema_ok (d\<lparr>consumed_events := consumed_events d @ [(e, g)]\<rparr>)"
  by (auto simp: seat_schema_ok_def outbox_ok_def)

lemma reserve_hold_spec_keeps_ok:
  assumes "seat_db_ok d"
    and "reserve_hold_spec holdId eventId cg traceId newEventId occ now d = Inr (r, d')"
  shows "seat_db_ok d'"
proof (cases "(eventId, cg) \<in> set (consumed_events d) \<or>
    (\<forall>h \<in> set (holds d). h_id h = holdId \<longrightarrow> \<not> held h)")
  case True
  then show ?thesis
    using assms reserve_hold_spec_noop [of eventId cg d holdId traceId newEventId occ now] by auto
next
  case False
  then obtain h where h: "h \<in> set (holds d)" "h_id h = holdId" "held h"
    and new: "(eventId, cg) \<notin> set (consumed_events d)" by blast
  have ok: "seat_schema_ok d" "seat_status_ok d" using assms(1) by (simp_all add: seat_db_ok_def)
  let ?d0 = "d\<lparr>consumed_events := consumed_events d @ [(eventId, cg)]\<rparr>"
  let ?P = "\<lambda>x. h_id x = h_id h \<and> held x"
  have schema: "seat_schema_ok (update_holds ?P (reserve_row now) ?d0)"
    by (rule seat_schema_update_holds [OF seat_schema_consume [OF ok(1) new]]) simp_all
  have "shown_ok (upd_where ?P (reserve_row now) (holds d)) (s\<lparr>s_status := SEAT_RESERVED\<rparr>)"
    if "s_id s = h_seat_id h" for s
  proof -
    have "\<not> has_hold (upd_where ?P (reserve_row now) (holds d)) HELD (h_seat_id h)"
      unfolding has_hold_def bex_upd_where
      by (auto split: if_splits dest: held_seat_unique [OF ok(1) _ h(1) _ h(3)])
    moreover have "has_hold (upd_where ?P (reserve_row now) (holds d)) RESERVED (h_seat_id h)"
      unfolding has_hold_def bex_upd_where using h by (intro bexI [of _ h]) simp_all
    ultimately show ?thesis using that by (simp add: shown_ok_def)
  qed
  moreover have "shown_ok (upd_where ?P (reserve_row now) (holds d)) s"
    if "s \<in> set (seats d)" "s_id s \<noteq> h_seat_id h" for s
  proof -
    have "has_hold (upd_where ?P (reserve_row now) (holds d)) v (s_id s) = has_hold (holds d) v (s_id s)"
      for v
      by (rule has_hold_other) (use that(2) in \<open>auto dest: hold_by_id_unique [OF ok(1) _ h(1)]\<close>)
    then show ?thesis
      using ok(2) that(1) by (simp add: seat_status_ok_def shown_ok_def)
  qed
  ultimately have "\<forall>s \<in> set (upd_where (\<lambda>s. s_id s = h_seat_id h) (\<lambda>s. s\<lparr>s_status := SEAT_RESERVED\<rparr>)
      (seats d)). shown_ok (upd_where ?P (reserve_row now) (holds d)) s"
    unfolding ball_upd_where by simp
  then show ?thesis
    using schema assms(2) reserve_hold_spec_held [OF ok(1) h(1,3) new] h(2)
    by (auto simp: seat_db_ok_def seat_status_ok_def)
qed

end
