(* ===== verification/Hold_Sweeper.thy ===== *)
theory Hold_Sweeper
  imports Holds
begin

text \<open>
  HoldSweeper.tick of apps/seat-reservation/src/holds/hold-sweeper.ts: one transaction that releases
  a batch of expired holds, frees their seats, appends one event each and tells the event bus. The
  timer that calls it is not modelled: every tick is a step of its own.
\<close>

subsection \<open>The event bus\<close>

definition emit :: "bus_msg \<Rightarrow> (seat_db, 'x seat_proc_ext, unit) dbm" where
  "emit msg = modifyM (\<lambda>s. s\<lparr>bus := bus s @ [msg]\<rparr>)"

lemma wp_emit:
  assumes "open_tx G d now w n m s" and "\<And>m' s'. open_tx G d now w n m' s' \<Longrightarrow> Q () s'"
  shows "wp (emit msg) Q E s"
proof -
  let ?s = "s\<lparr>bus := bus s @ [msg]\<rparr>"
  have "open_tx G d now w n (conn.more ?s) ?s"
    using assms(1) by (simp add: conn_state_defs)
  then show ?thesis using assms(2) by (simp add: emit_def wp_modify)
qed

subsection \<open>tick\<close>

text \<open>
  \<open>fresh i\<close> and \<open>occ i\<close> are the random id and the date of the i-th row's event, \<open>scan\<close> is the server's
  choice among the expired rows (\<open>Seat_Db.sweep_batch\<close>).
\<close>

definition sweep_row ::
    "string \<Rightarrow> (nat \<Rightarrow> uuid) \<Rightarrow> (nat \<Rightarrow> instant) \<Rightarrow> nat \<times> uuid \<times> uuid \<Rightarrow>
     (seat_db, 'x seat_proc_ext, unit) dbm" where
  "sweep_row traceId fresh occ x =
     (case x of (i, hid, seatId) \<Rightarrow>
        bindM (query (free_seat_stmt seatId)) (\<lambda>_.
        bindM (query (insert_outbox hid ''seat.released.v1''
          (seat_released_payload (fresh i) seatId ''sweeper'' traceId (occ i))
          [(''traceId'', traceId), (''reason'', ''sweeper'')])) (\<lambda>_.
        emit (Bus_Released (Some seatId)))))"

definition sweep_tick ::
    "seat_env \<Rightarrow> (hold_row list \<Rightarrow> hold_row list) \<Rightarrow> string \<Rightarrow> (nat \<Rightarrow> uuid) \<Rightarrow> (nat \<Rightarrow> instant) \<Rightarrow>
     (seat_db, 'x seat_proc_ext, unit) dbm" where
  "sweep_tick env scan traceId fresh occ =
     with_conn (rolling_back
       (bindM begin_tx (\<lambda>_.
        bindM (query (sweep_expired scan (SWEEP_BATCH_LIMIT env))) (\<lambda>rows.
        bindM (forM (enumerate 0 rows) (sweep_row traceId fresh occ)) (\<lambda>_.
        commit_tx)))))"

definition sweep_row_db ::
    "string \<Rightarrow> (nat \<Rightarrow> uuid) \<Rightarrow> (nat \<Rightarrow> instant) \<Rightarrow> instant \<Rightarrow> nat \<times> uuid \<times> uuid \<Rightarrow> seat_db \<Rightarrow> seat_db" where
  "sweep_row_db traceId fresh occ now x d =
     (case x of (i, hid, seatId) \<Rightarrow>
        append_outbox now hid ''seat.released.v1''
          (seat_released_payload (fresh i) seatId ''sweeper'' traceId (occ i))
          [(''traceId'', traceId), (''reason'', ''sweeper'')] (free_seat seatId d))"

definition swept :: "(hold_row list \<Rightarrow> hold_row list) \<Rightarrow> nat \<Rightarrow> instant \<Rightarrow> seat_db \<Rightarrow> hold_row list" where
  "swept scan limit now d = filter (\<lambda>h. h_id h \<in> set (sweep_batch scan limit now d)) (holds d)"

definition sweep_spec ::
    "seat_env \<Rightarrow> (hold_row list \<Rightarrow> hold_row list) \<Rightarrow> string \<Rightarrow> (nat \<Rightarrow> uuid) \<Rightarrow> (nat \<Rightarrow> instant) \<Rightarrow>
     (seat_db, unit) stmt" where
  "sweep_spec env scan traceId fresh occ now d =
     (let limit = SWEEP_BATCH_LIMIT env;
          rows = map (\<lambda>h. (h_id h, h_seat_id h)) (swept scan limit now d) in
      Inr ((), fold (sweep_row_db traceId fresh occ now) (enumerate 0 rows)
        (update_holds (\<lambda>h. h_id h \<in> set (sweep_batch scan limit now d)) (release_row now) d)))"

lemma wp_sweep_rows:
  assumes "open_tx G d now w n m s"
    and "\<And>m' s'. open_tx G d now (fold (sweep_row_db traceId fresh occ now) xs w) n m' s' \<Longrightarrow> Q () s'"
    and "\<And>f m' s'. faulty G \<Longrightarrow> pending G d n m' s' \<Longrightarrow> E (fault_exn f) s'"
  shows "wp (forM xs (sweep_row traceId fresh occ)) Q E s"
  using assms
proof (induction xs arbitrary: w m s)
  case Nil
  then show ?case by (simp add: wp_simps)
next
  case (Cons x xs)
  obtain i hid seatId where x: "x = (i, hid, seatId)" by (cases x)
  show ?case
    unfolding forM.simps sweep_row_def x prod.case wp_simps
    apply (rule wp_query, rule Cons.prems(1))
      apply (rule wp_query, assumption)
        apply (rule wp_emit, assumption)
        apply (rule Cons.IH [unfolded sweep_row_def], assumption)
         apply (rule Cons.prems(2))
         apply (simp add: x sweep_row_db_def free_seat_stmt_def insert_outbox_def)
    using Cons.prems(3) by (auto simp: free_seat_stmt_def insert_outbox_def)
qed

lemma sweep_tick_atomic_lemma:
  "idle G d n m s \<Longrightarrow>
     wp (sweep_tick env scan traceId fresh occ)
       (\<lambda>a s'. \<exists>m'. atomic_ok G (sweep_spec env scan traceId fresh occ) d n m' a s')
       (\<lambda>e s'. \<exists>m'. atomic_err G (sweep_spec env scan traceId fresh occ) d n m' e s') s"
  unfolding sweep_tick_def with_conn_def rolling_back_def Let_def wp_simps
  by ((rule tx_steps wp_sweep_rows, assumption)
      | (rule exI, rule tx_ends, assumption+)
      | (force simp: sweep_spec_def sweep_expired_def swept_def returning_def comp_def Let_def))+

lemma sweep_tick_dated_lemma:
  "idle (alone False) d n m s \<Longrightarrow>
     wp (sweep_tick env scan traceId fresh occ)
       (\<lambda>a s'. \<exists>m'. dated_ok (sweep_spec env scan traceId fresh occ) (begun s) d n m' a s')
       (\<lambda>e s'. \<exists>m'. dated_err (sweep_spec env scan traceId fresh occ) (begun s) d n m' e s') s"
  unfolding sweep_tick_def with_conn_def rolling_back_def Let_def wp_simps
  apply (rule wp_connect_dated, assumption)
  apply (rule wp_begin_dated, assumption, assumption)
  by ((rule tx_steps wp_sweep_rows, assumption)
      | (erule no_fault)
      | (rule exI, rule dated_ends, assumption)
      | (force simp: sweep_spec_def sweep_expired_def swept_def returning_def comp_def Let_def))+

interpretation sweep: dated_tx
  "sweep_tick env scan traceId fresh occ :: (seat_db, 'x seat_proc_ext, unit) dbm"
  "sweep_spec env scan traceId fresh occ"
  for env scan traceId fresh occ
  by unfold_locales (rule sweep_tick_atomic_lemma sweep_tick_dated_lemma, assumption)+

subsection \<open>What a tick does\<close>

lemma fold_sweep_holds [simp]:
  "holds (fold (sweep_row_db traceId fresh occ now) xs d) = holds d"
  "consumed_events (fold (sweep_row_db traceId fresh occ now) xs d) = consumed_events d"
  by (induction xs arbitrary: d) (auto simp: sweep_row_db_def split: prod.splits)

lemma fold_sweep_outbox:
  "map (\<lambda>r. (o_aggregate_id r, o_event_type r, o_payload r))
     (outbox (fold (sweep_row_db traceId fresh occ now) xs d)) =
   map (\<lambda>r. (o_aggregate_id r, o_event_type r, o_payload r)) (outbox d) @
   map (\<lambda>(i, hid, seatId). (hid, ''seat.released.v1'',
     seat_released_payload (fresh i) seatId ''sweeper'' traceId (occ i))) xs"
  by (induction xs arbitrary: d) (auto simp: sweep_row_db_def split: prod.splits)

lemma fold_sweep_schema:
  "seat_schema_ok d \<Longrightarrow> seat_schema_ok (fold (sweep_row_db traceId fresh occ now) xs d)"
  by (induction xs arbitrary: d) (auto simp: sweep_row_db_def split: prod.splits)

lemma fold_sweep_stale:
  "stale_ok K d \<Longrightarrow>
     stale_ok (K - (snd \<circ> snd) ` set xs) (fold (sweep_row_db traceId fresh occ now) xs d)"
proof (induction xs arbitrary: K d)
  case (Cons x xs)
  obtain i hid k where x: "x = (i, hid, k)" by (cases x)
  have "stale_ok (K - {k}) (sweep_row_db traceId fresh occ now x d)"
    using stale_ok_free [OF Cons.prems] by (simp add: x sweep_row_db_def)
  then show ?case
    using Cons.IH [of "K - {k}"] by (simp add: x Diff_insert2 [symmetric] insert_commute)
qed simp

lemma in_sweep_batch:
  assumes "scan_ok scan" and "i \<in> set (sweep_batch scan limit now d)"
  shows "\<exists>h \<in> set (holds d). expired now h \<and> h_id h = i"
  using assms by (fastforce simp: sweep_batch_def scan_ok_def dest!: in_set_takeD)

lemma swept_expired:
  assumes "seat_schema_ok d" and "scan_ok scan" and "h \<in> set (holds d)"
    and "h_id h \<in> set (sweep_batch scan limit now d)"
  shows "expired now h"
  using in_sweep_batch [OF assms(2,4)] hold_by_id_unique [OF assms(1) _ assms(3)] by auto

lemma length_swept:
  assumes "seat_schema_ok d"
  shows "length (swept scan limit now d) \<le> limit"
proof -
  have "distinct (map h_id (swept scan limit now d))"
    using assms by (auto simp: swept_def seat_schema_ok_def intro: distinct_map_filter)
  then have "length (swept scan limit now d) = card (h_id ` set (swept scan limit now d))"
    by (metis distinct_card length_map list.set_map)
  also have "\<dots> \<le> card (set (sweep_batch scan limit now d))"
    by (intro card_mono) (auto simp: swept_def)
  also have "\<dots> \<le> length (sweep_batch scan limit now d)" by (rule card_length)
  also have "\<dots> \<le> limit" by (simp add: sweep_batch_def)
  finally show ?thesis .
qed

text \<open>
  With a scan that leaves no expired row out (no row is locked) and a batch that is large enough,
  no expired hold is left.
\<close>

lemma sweep_complete:
  assumes "set (scan (filter (expired now) (holds d))) = {h \<in> set (holds d). expired now h}"
    and "length (scan (filter (expired now) (holds d))) \<le> limit"
    and "h \<in> set (holds d)" and "expired now h"
  shows "h_id h \<in> set (sweep_batch scan limit now d)"
  using assms by (simp add: sweep_batch_def)

lemma sweep_spec_holds:
  "sweep_spec env scan traceId fresh occ now d = Inr (u, d') \<Longrightarrow>
     holds d' = upd_where (\<lambda>h. h_id h \<in> set (sweep_batch scan (SWEEP_BATCH_LIMIT env) now d))
       (release_row now) (holds d)"
  by (auto simp: sweep_spec_def Let_def)

lemma update_holds_cong:
  "(\<And>h. h \<in> set (holds d) \<Longrightarrow> P h = Q h) \<Longrightarrow> update_holds P f d = update_holds Q f d"
  by (simp add: update_holds_def upd_where_def cong: map_cong)

lemma sweep_spec_keeps_ok:
  assumes "seat_db_ok d" and "scan_ok scan"
    and "sweep_spec env scan traceId fresh occ now d = Inr (u, d')"
  shows "seat_db_ok d'"
proof -
  let ?B = "set (sweep_batch scan (SWEEP_BATCH_LIMIT env) now d)"
  let ?rows = "swept scan (SWEEP_BATCH_LIMIT env) now d"
  let ?xs = "enumerate 0 (map (\<lambda>h. (h_id h, h_seat_id h)) ?rows)"
  let ?d1 = "update_holds (\<lambda>h. h_id h \<in> ?B) (release_row now) d"
  have ok: "seat_schema_ok d" "seat_status_ok d" using assms(1) by (simp_all add: seat_db_ok_def)
  have d': "d' = fold (sweep_row_db traceId fresh occ now) ?xs ?d1"
    using assms(3) by (simp add: sweep_spec_def Let_def)
  have "?d1 = update_holds (\<lambda>h. h_id h \<in> ?B \<and> held h) (release_row now) d"
    by (rule update_holds_cong) (use swept_expired [OF ok(1) assms(2)] in auto)
  moreover have "stale_ok (h_seat_id ` set ?rows) \<dots>"
    by (rule stale_ok_release [OF ok(2)]) (auto simp: swept_def)
  moreover have "seat_schema_ok ?d1"
    by (rule seat_schema_update_holds [OF ok(1)]) simp_all
  moreover have "(snd \<circ> snd) ` set ?xs = h_seat_id ` set ?rows"
  proof -
    have "(snd \<circ> snd) ` set ?xs = snd ` set (map snd ?xs)" by (simp only: image_comp list.set_map)
    then show ?thesis by (simp add: image_comp comp_def)
  qed
  ultimately show ?thesis
    using fold_sweep_stale [of "h_seat_id ` set ?rows" ?d1 ?xs traceId fresh occ now]
      fold_sweep_schema [of ?d1 traceId fresh occ now ?xs] d'
    by (simp add: seat_db_ok_def)
qed

end
