(* ===== verification/Seats.thy ===== *)
theory Seats
  imports Hold_Sweeper
begin

text \<open>
  SeatsController and SeatsRepository of apps/seat-reservation/src/seats: the list of seats, placing
  a hold and releasing one's own. The guards in front of the handlers are in Guards; the SSE stream
  is not modelled beyond what the bus emits.
\<close>

subsection \<open>SeatsRepository\<close>

definition listAll :: "(string \<Rightarrow> 'k::linorder) \<Rightarrow> (seat_db, 'x, seat_view list) dbm" where
  "listAll coll = query (select_seats coll)"

definition getPrice :: "uuid \<Rightarrow> (seat_db, 'x, (int \<times> string) option) dbm" where
  "getPrice seatId = query (select_price seatId)"

subsection \<open>hold\<close>

definition inc_held :: "(seat_db, 'x seat_proc_ext, unit) dbm" where
  "inc_held = modifyM (\<lambda>s. s\<lparr>seatsHeldTotal := Suc (seatsHeldTotal s)\<rparr>)"

definition inc_released :: "(seat_db, 'x seat_proc_ext, unit) dbm" where
  "inc_released = modifyM (\<lambda>s. s\<lparr>seatsReleasedTotal := Suc (seatsReleasedTotal s)\<rparr>)"

definition inc_reserved :: "(seat_db, 'x seat_proc_ext, unit) dbm" where
  "inc_reserved = modifyM (\<lambda>s. s\<lparr>seatsReservedTotal := Suc (seatsReservedTotal s)\<rparr>)"

definition inc_conflicts :: "(seat_db, 'x seat_proc_ext, unit) dbm" where
  "inc_conflicts = modifyM (\<lambda>s. s\<lparr>holdConflictsTotal := Suc (holdConflictsTotal s)\<rparr>)"

definition set_header :: "string \<Rightarrow> string \<Rightarrow> (seat_db, 'x seat_proc_ext, unit) dbm" where
  "set_header k v = modifyM (\<lambda>s. s\<lparr>res_headers := res_headers s @ [(k, v)]\<rparr>)"

text \<open>\<open>z.object({}).strip()\<close> accepts every object and nothing else.\<close>

definition HoldBodySchema :: "json option \<Rightarrow> bool" where
  "HoldBodySchema body = (case body of Some (JObj kvs) \<Rightarrow> True | _ \<Rightarrow> False)"

record hold_response =
  hr_holdId :: uuid
  hr_seatId :: uuid
  hr_heldUntil :: string
  hr_priceCents :: "int option"

text \<open>What the handler draws from the clock and from \<open>randomUUID()\<close>.\<close>

record hold_fresh =
  f_now :: instant
  f_holdId :: uuid
  f_eventId :: uuid
  f_occ :: instant
  f_trace :: uuid

definition conflict_error :: "conflict_reason \<Rightarrow> string" where
  "conflict_error c =
     (if c = user_has_hold then ''user_already_has_hold'' else ''seat_unavailable'')"

definition seats_hold ::
    "seat_env \<Rightarrow> hold_fresh \<Rightarrow> uuid \<Rightarrow> json option \<Rightarrow> uuid \<Rightarrow> string option \<Rightarrow>
     (seat_db, 'x seat_proc_ext, hold_response) dbm" where
  "seats_hold env fr seatId body userId header =
     (if \<not> HoldBodySchema body then throwM Zod_Error
      else
        bindM (insertHoldTx env (f_now fr) (f_holdId fr) (f_eventId fr) (f_occ fr) seatId userId
                 (resolveTraceId header (f_trace fr))) (\<lambda>result.
        case result of
          Hold_Conflict reason \<Rightarrow>
            bindM inc_conflicts (\<lambda>_.
            bindM (set_header ''Retry-After'' (int_string (RETRY_AFTER_SECONDS env))) (\<lambda>_.
            throwM (Http_Error 409 (conflict_error reason))))
        | Hold_Ok hold \<Rightarrow>
            bindM inc_held (\<lambda>_.
            bindM (emit (Bus_Held seatId userId (h_held_until hold))) (\<lambda>_.
            bindM (getPrice seatId) (\<lambda>p.
            retM \<lparr>hr_holdId = h_id hold, hr_seatId = seatId,
                  hr_heldUntil = toISOString (h_held_until hold),
                  hr_priceCents = map_option fst p\<rparr>)))))"

subsection \<open>release\<close>

definition seats_release ::
    "uuid \<Rightarrow> instant \<Rightarrow> uuid \<Rightarrow> uuid \<Rightarrow> uuid \<Rightarrow> string option \<Rightarrow> (seat_db, 'x seat_proc_ext, unit) dbm" where
  "seats_release eventId occ fresh seatId userId header =
     bindM (findActiveHoldForSeat seatId) (\<lambda>hold.
     case hold of
       None \<Rightarrow> retM ()
     | Some h \<Rightarrow>
         if h_user_id h \<noteq> userId then retM ()
         else
           bindM (releaseHold (h_id h) ''user_cancelled'' (resolveTraceId header fresh) eventId occ) (\<lambda>r.
           if r_released r
           then bindM inc_released (\<lambda>_. emit (Bus_Released (r_seatId r)))
           else retM ()))"

subsection \<open>What hold does\<close>

lemmas proc_defs = inc_held_def inc_released_def inc_reserved_def inc_conflicts_def set_header_def
  emit_def

text \<open>The fields of the process that a step with the same \<open>more\<close> leaves alone.\<close>

lemma proc_frame:
  assumes "conn.more s' = conn.more (s :: (seat_db, 'x seat_proc_ext) conn_scheme)"
  shows "bus s' = bus s" "seatsHeldTotal s' = seatsHeldTotal s"
    "seatsReleasedTotal s' = seatsReleasedTotal s" "seatsReservedTotal s' = seatsReservedTotal s"
    "holdConflictsTotal s' = holdConflictsTotal s" "res_headers s' = res_headers s"
  using assms by (cases s; cases s'; simp)+

definition hold_accepted where
  "hold_accepted env fr seatId userId header d resp s s' \<longleftrightarrow>
     (\<exists>h. hold_placed env (f_now fr) (f_holdId fr) (f_eventId fr) (f_occ fr) seatId userId
            (resolveTraceId header (f_trace fr)) d h (committed s') \<and>
          hr_holdId resp = f_holdId fr \<and> hr_seatId resp = seatId \<and>
          hr_heldUntil resp = toISOString (f_now fr + HOLD_TTL_SECONDS env * 1000) \<and>
          hr_priceCents resp \<noteq> None) \<and>
     bus s' = bus s @ [Bus_Held seatId userId (f_now fr + HOLD_TTL_SECONDS env * 1000)] \<and>
     seatsHeldTotal s' = Suc (seatsHeldTotal s) \<and> holdConflictsTotal s' = holdConflictsTotal s"

definition hold_refused where
  "hold_refused env fr seatId userId d c s s' \<longleftrightarrow>
     committed s' = d \<and> bus s' = bus s \<and> seatsHeldTotal s' = seatsHeldTotal s \<and>
     holdConflictsTotal s' = Suc (holdConflictsTotal s) \<and>
     res_headers s' = res_headers s @ [(''Retry-After'', int_string (RETRY_AFTER_SECONDS env))] \<and>
     (case c of
          seat_held \<Rightarrow> \<exists>x \<in> set (holds d). h_id x = f_holdId fr \<or> blocking (begun s) seatId x \<and> h_seat_id x = seatId
        | user_has_hold \<Rightarrow> \<exists>x \<in> set (holds d). blocking (begun s) seatId x \<and> h_user_id x = userId)"

lemma hold_placed_price:
  assumes "hold_placed env nowJs holdId eventId occ seatId userId traceId d h d'"
    and "select_price seatId now d' = Inr (p, d'')"
  shows "p \<noteq> None \<and> d'' = d'"
proof -
  obtain x where x: "x \<in> set (seats d')" "s_id x = seatId"
    using assms(1) unfolding hold_placed_def by (force simp: in_upd_where)
  then have "find (\<lambda>s. s_id s = seatId) (seats d') \<noteq> None"
    by (simp add: find_None_iff) blast
  then show ?thesis using assms(2) by (auto simp: select_price_def)
qed

lemma hold_placed_h:
  "hold_placed env nowJs holdId eventId occ seatId userId traceId d h d' \<Longrightarrow>
     h_id h = holdId \<and> h_held_until h = nowJs + HOLD_TTL_SECONDS env * 1000"
  by (auto simp: hold_placed_def)

text \<open>A process that has only made calls since \<open>s\<close> has its other fields.\<close>

lemma idle_more: "idle G d n m s \<Longrightarrow> idle G' d' n m s' \<Longrightarrow> conn.more s' = conn.more s"
  by (simp add: conn_state_defs)

lemma hold_refusedI:
  assumes i: "idle (alone False) d n m s" "idle (alone False) d' n m s1"
    and sp: "insert_hold_spec env (f_now fr) (f_holdId fr) (f_eventId fr) (f_occ fr) seatId userId
      (resolveTraceId header (f_trace fr)) (begun s) d = Inr (Hold_Conflict c, d')"
  shows "hold_refused env fr seatId userId d c s
    (s1\<lparr>holdConflictsTotal := Suc (holdConflictsTotal s1),
        res_headers := res_headers s1 @ [(''Retry-After'', int_string (RETRY_AFTER_SECONDS env))]\<rparr>)"
proof -
  have "d' = d" and "case c of
        seat_held \<Rightarrow> \<exists>x \<in> set (holds d). h_id x = f_holdId fr \<or> blocking (begun s) seatId x \<and> h_seat_id x = seatId
      | user_has_hold \<Rightarrow> \<exists>x \<in> set (holds d). blocking (begun s) seatId x \<and> h_user_id x = userId"
    using insert_hold_spec_conflict insert_hold_spec_conflict_reason [OF sp] sp by blast+
  then show ?thesis
    using idleD [OF i(2)] proc_frame [OF idle_more [OF i]] unfolding hold_refused_def by auto
qed

lemma wp_hold_price:
  assumes i: "idle (alone False) d n m s" "idle (alone False) d' n m s1"
    and hp: "hold_placed env (f_now fr) (f_holdId fr) (f_eventId fr) (f_occ fr) seatId userId
      (resolveTraceId header (f_trace fr)) d h d'"
  shows "wp (getPrice seatId) (\<lambda>p s'. hold_accepted env fr seatId userId header d
      \<lparr>hr_holdId = h_id h, hr_seatId = seatId, hr_heldUntil = toISOString (h_held_until h),
        hr_priceCents = map_option fst p\<rparr> s s') E
    (s1\<lparr>seatsHeldTotal := Suc (seatsHeldTotal s1),
      bus := bus s1 @ [Bus_Held seatId userId (h_held_until h)]\<rparr>)"
    (is "wp _ ?Q _ ?s2")
  unfolding getPrice_def
proof (rule wp_query_auto)
  show i2: "idle (alone False) d' n (conn.more ?s2) ?s2" using i(2) by (simp add: conn_state_defs)
  fix d0 now p d2 s' assume "rel (alone False) d' d0" and sel: "select_price seatId now d0 = Inr (p, d2)"
    and i3: "idle (alone False) d2 n (conn.more ?s2) s'"
  then have "p \<noteq> None \<and> d2 = d'" using hold_placed_price [OF hp] by simp
  then show "?Q p s'"
    using hp hold_placed_h [OF hp] idleD [OF i3] proc_frame [OF idle_more [OF i]]
      proc_frame [of s' ?s2] unfolding hold_accepted_def by auto
qed (simp_all add: select_price_def)

lemma wp_seats_hold:
  assumes i: "idle (alone False) d n m s" and b: "HoldBodySchema body"
  shows "wp (seats_hold env fr seatId body userId header)
    (\<lambda>resp s'. hold_accepted env fr seatId userId header d resp s s')
    (\<lambda>e s'. (\<exists>c. e = Http_Error 409 (conflict_error c) \<and> hold_refused env fr seatId userId d c s s') \<or>
       e = foreign_key_violation ''holds_seat_id_fkey'' \<and> (\<forall>x \<in> set (seats d). s_id x \<noteq> seatId) \<and>
         committed s' = d \<and> bus s' = bus s) s"
  unfolding seats_hold_def not_not [THEN iffD2, OF b, THEN if_not_P] wp_bind
proof (rule insert_hold_tx.wp_dated [OF i], goal_cases)
  case (1 r d' s1)
  show ?case
  proof (cases r)
    case (Hold_Conflict c)
    from hold_refusedI [OF i 1(2) 1(1) [unfolded Hold_Conflict]] show ?thesis
      by (auto simp: Hold_Conflict wp_simps proc_defs)
  next
    case (Hold_Ok h)
    from wp_hold_price [OF i 1(2) insert_hold_spec_placed [OF 1(1) [unfolded Hold_Ok]]] show ?thesis
      by (simp add: Hold_Ok wp_simps proc_defs)
  qed
next
  case (2 e s1)
  then show ?case
    using insert_hold_spec_error [OF 2(1)] idleD [OF 2(2)] proc_frame(1) [OF idle_more [OF i 2(2)]] by simp
qed

text \<open>The answer on an undisturbed, reliable connection.\<close>

lemma seats_hold_reliable:
  assumes "quiet s" "reliable s" "tx s = None" and "HoldBodySchema body"
    and "seats_hold env fr seatId body userId header s = (r, s')"
  shows "(case r of
      Inr resp \<Rightarrow> hold_accepted env fr seatId userId header (committed s) resp s s'
    | Inl e \<Rightarrow>
        (\<exists>c. e = Http_Error 409 (conflict_error c) \<and> hold_refused env fr seatId userId (committed s) c s s') \<or>
        e = foreign_key_violation ''holds_seat_id_fkey'' \<and>
          (\<forall>x \<in> set (seats (committed s)). s_id x \<noteq> seatId) \<and>
          committed s' = committed s \<and> bus s' = bus s)"
  using wpD [OF wp_seats_hold [OF reliable_idle [OF assms(1-3)] assms(4)] assms(5)]
  by (simp split: sum.splits)

subsection \<open>What release does\<close>

definition release_done where
  "release_done userId seatId d s s' \<longleftrightarrow>
     (if \<exists>h \<in> set (holds d). held h \<and> h_seat_id h = seatId \<and> h_user_id h = userId
      then
        (\<exists>h now. h \<in> set (holds d) \<and> held h \<and> h_seat_id h = seatId \<and> h_user_id h = userId \<and>
           holds (committed s') =
             upd_where (\<lambda>x. h_id x = h_id h \<and> held x) (release_row now) (holds d)) \<and>
        bus s' = bus s @ [Bus_Released (Some seatId)] \<and>
        seatsReleasedTotal s' = Suc (seatsReleasedTotal s)
      else committed s' = d \<and> bus s' = bus s \<and> seatsReleasedTotal s' = seatsReleasedTotal s)"

lemma release_done_none:
  assumes "idle (alone False) d n m s" "idle (alone False) d n m s1"
    and "\<not> (\<exists>h \<in> set (holds d). held h \<and> h_seat_id h = seatId \<and> h_user_id h = userId)"
  shows "release_done userId seatId d s s1"
  using assms(3) idleD [OF assms(2)] proc_frame [OF idle_more [OF assms(1,2)]] unfolding release_done_def by simp

lemma wp_release_own:
  assumes i: "idle (alone False) d n m s" "idle (alone False) d n m s1" and ok: "seat_schema_ok d"
    and h: "h \<in> set (holds d)" "held h" "h_seat_id h = seatId" "h_user_id h = userId"
  shows "wp (releaseHold (h_id h) ''user_cancelled'' t eventId occ)
      (\<lambda>r. wp (if r_released r then bindM inc_released (\<lambda>_. emit (Bus_Released (r_seatId r))) else retM ())
        (\<lambda>_ s'. release_done userId seatId d s s') (\<lambda>_ _. False)) (\<lambda>_ _. False) s1"
proof (rule release_hold.wp_reliable [OF i(2)], goal_cases)
  case (1 now r d' s2)
  have r: "r = \<lparr>r_released = True, r_seatId = Some seatId\<rparr>"
    and d': "holds d' = upd_where (\<lambda>x. h_id x = h_id h \<and> held x) (release_row now) (holds d)"
    using 1(1) release_hold_spec_held [OF ok h(1,2)] h(3) by auto
  show ?case
    using h d' idleD [OF 1(2)] proc_frame [OF idle_more [OF i(1) 1(2)]]
    by (auto simp: r wp_simps proc_defs release_done_def)
next
  case (2 now e s2)
  then show ?case using release_hold_spec_held [OF ok h(1,2)] by simp
qed

lemma wp_seats_release:
  assumes i: "idle (alone False) d n m s" and ok: "seat_schema_ok d"
  shows "wp (seats_release eventId occ fresh seatId userId header)
    (\<lambda>_ s'. release_done userId seatId d s s') (\<lambda>_ _. False) s"
  unfolding seats_release_def findActiveHoldForSeat_def wp_bind
proof (rule wp_query_auto [OF i], goal_cases)
  case (1 d0 now x d' s1)
  then have d': "d' = d" and x: "x = find (\<lambda>h. h_seat_id h = seatId \<and> held h) (holds d)"
    by (auto simp: select_active_hold_def)
  note i1 = 1(3) [unfolded d']
  show ?case
  proof (cases x)
    case None
    then have "\<not> (\<exists>h \<in> set (holds d). held h \<and> h_seat_id h = seatId \<and> h_user_id h = userId)"
      using x by (auto simp: find_None_iff)
    then show ?thesis using release_done_none [OF i i1] by (simp add: None wp_simps)
  next
    case (Some h)
    then have h: "h \<in> set (holds d)" "held h" "h_seat_id h = seatId"
      using x find_SomeD [of _ "holds d" h] by auto
    show ?thesis
    proof (cases "h_user_id h = userId")
      case True
      then show ?thesis using wp_release_own [OF i i1 ok h] by (simp add: Some wp_bind)
    next
      case False
      then have "\<not> (\<exists>h \<in> set (holds d). held h \<and> h_seat_id h = seatId \<and> h_user_id h = userId)"
        using held_seat_unique [OF ok _ h(1) _ h(2)] h(3) by auto
      then show ?thesis using False release_done_none [OF i i1] by (simp add: Some wp_simps)
    qed
  qed
qed (simp_all add: select_active_hold_def)

lemma seats_release_reliable:
  assumes "quiet s" "reliable s" "tx s = None" and "seat_schema_ok (committed s)"
    and "seats_release eventId occ fresh seatId userId header s = (r, s')"
  shows "r = Inr () \<and> release_done userId seatId (committed s) s s'"
  using wpD [OF wp_seats_release [OF reliable_idle [OF assms(1-3)] assms(4)] assms(5)]
  by (cases r) simp_all

subsection \<open>listAll\<close>

text \<open>While the schema's invariant holds, the join gives one row per seat.\<close>

lemma join_seat_single:
  assumes "seat_schema_ok d"
  shows "join_seat (holds d) s =
    [case find (\<lambda>h. h_seat_id h = s_id s \<and> held h) (holds d) of
       None \<Rightarrow> \<lparr>v_seat = s, v_held_by = None, v_held_until = None\<rparr>
     | Some h \<Rightarrow> \<lparr>v_seat = s, v_held_by = Some (h_user_id h), v_held_until = Some (h_held_until h)\<rparr>]"
proof -
  have "length (filter (\<lambda>h. h_seat_id h = k \<and> held h) hs) \<le> 1"
    if "unique_where held h_seat_id hs" for hs k
    using that
  proof (induction hs)
    case (Cons h hs)
    show ?case
    proof (cases "h_seat_id h = k \<and> held h")
      case True
      then have "filter (\<lambda>h. h_seat_id h = k \<and> held h) hs = []"
        using Cons.prems by (auto simp: unique_where_def filter_empty_conv image_iff)
      then show ?thesis by simp
    next
      case False
      then show ?thesis using Cons by (auto simp: unique_where_def split: if_splits)
    qed
  qed simp
  then have "length (filter (\<lambda>h. h_seat_id h = s_id s \<and> held h) (holds d)) \<le> 1"
    using assms by (simp add: seat_schema_ok_def)
  moreover have "find P hs = (case filter P hs of [] \<Rightarrow> None | h # _ \<Rightarrow> Some h)" for P and hs :: "hold_row list"
    by (induction hs) auto
  ultimately show ?thesis
    unfolding join_seat_def by (auto split: list.splits)
qed

lemma listed_seats:
  assumes "seat_schema_ok d" and "select_seats coll now d = Inr (vs, d')"
  shows "d' = d \<and> sorted (map (\<lambda>v. coll (s_label (v_seat v))) vs) \<and>
    mset (map v_seat vs) = mset (seats d)"
proof -
  have "map v_seat (join_seat (holds d) s) = [s]" for s
    by (simp add: join_seat_single [OF assms(1)] split: option.split)
  then have "map v_seat (concat (map (join_seat (holds d)) ss)) = ss" for ss
    by (induction ss) auto
  moreover have "mset (map v_seat (sort_key f xs)) = mset (map v_seat xs)" for f :: "seat_view \<Rightarrow> 'a" and xs
    by simp
  ultimately show ?thesis using assms(2) by (auto simp: select_seats_def simp del: mset_map)
qed

end
