(* ===== verification/Payment_Events.thy ===== *)
theory Payment_Events
  imports Seats
begin

text \<open>
  PaymentEventsConsumer of apps/seat-reservation/src/events/payment-events.consumer.ts: the handler
  of queue seat.payment-events. A message is acknowledged, sent to the dead letter queue (nack
  without requeue) or given back (nack with requeue); the broker delivers it again in that case, and
  \<open>deliveries\<close> is a message's life until its acknowledgement.
\<close>

subsection \<open>The handler\<close>

definition AnyEvent :: "zod_formats \<Rightarrow> json \<Rightarrow> event option" where
  "AnyEvent z = z_union [PaymentSucceededV1 z, PaymentFailedV1 z, SeatHeldV1 z, SeatReleasedV1 z,
     SeatReservedV1 z]"

definition apply_payment_event ::
    "uuid \<Rightarrow> instant \<Rightarrow> event \<Rightarrow> (seat_db, 'x seat_proc_ext, unit) dbm" where
  "apply_payment_event newEventId occ ev =
     (case ev of
        PaymentSucceeded meta pid seat user hold amount currency psp \<Rightarrow>
          bindM (reserveHold hold (m_eventId meta) ''seat-service'' (m_traceId meta) newEventId occ) (\<lambda>r.
          if q_reserved r
          then bindM inc_reserved (\<lambda>_. emit (Bus_Reserved (q_seatId r) (q_userId r)))
          else retM ())
      | PaymentFailed meta pid seat user hold reason \<Rightarrow>
          bindM (releaseHold hold ''payment_failed'' (m_traceId meta) newEventId occ) (\<lambda>r.
          if r_released r
          then bindM inc_released (\<lambda>_. emit (Bus_Released (r_seatId r)))
          else retM ())
      | _ \<Rightarrow> retM ())"

text \<open>\<open>json_parse\<close> is JSON.parse of the message's content.\<close>

definition handle_payment_event ::
    "zod_formats \<Rightarrow> (string \<Rightarrow> json option) \<Rightarrow> uuid \<Rightarrow> instant \<Rightarrow> string \<Rightarrow>
     (seat_db, 'x seat_proc_ext, settle) dbm" where
  "handle_payment_event z json_parse newEventId occ content =
     (case parse_event (AnyEvent z) json_parse content of
        None \<Rightarrow> retM (Nack False)
      | Some ev \<Rightarrow>
          try_catch
            (bindM (apply_payment_event newEventId occ ev) (\<lambda>_. retM Ack))
            (\<lambda>e. retM (Nack True)))"

subsection \<open>The effect of an event\<close>

definition payment_effect :: "uuid \<Rightarrow> instant \<Rightarrow> event \<Rightarrow> (seat_db, unit) stmt" where
  "payment_effect newEventId occ ev =
     (case ev of
        PaymentSucceeded meta pid seat user hold amount currency psp \<Rightarrow>
          discarding
            (reserve_hold_spec hold (m_eventId meta) ''seat-service'' (m_traceId meta) newEventId occ)
      | PaymentFailed meta pid seat user hold reason \<Rightarrow>
          discarding
            (release_hold_spec hold ''payment_failed'' (m_traceId meta) newEventId occ)
      | _ \<Rightarrow> \<lambda>now d. Inr ((), d))"

lemma payment_effect_total: "\<exists>d'. payment_effect newEventId occ ev now d = Inr ((), d')"
  using release_hold_spec_total reserve_hold_spec_total
  by (cases ev) (fastforce simp: payment_effect_def)+

lemma payment_effect_keeps_ok:
  "seat_db_ok d \<Longrightarrow> payment_effect newEventId occ ev now d = Inr (u, d') \<Longrightarrow> seat_db_ok d'"
  by (cases ev)
    (auto simp: payment_effect_def dest: release_hold_spec_keeps_ok reserve_hold_spec_keeps_ok)

text \<open>An event that has had its effect has none the second time.\<close>

lemma payment_effect_twice:
  assumes "payment_effect e1 occ1 ev now1 d = Inr (u, d')"
  shows "payment_effect e2 occ2 ev now2 d' = Inr ((), d')"
proof (cases ev)
  case (PaymentSucceeded meta pid seat user hold amount currency psp)
  then obtain r where r: "reserve_hold_spec hold (m_eventId meta) ''seat-service'' (m_traceId meta) e1 occ1 now1 d =
    Inr (r, d')"
    using assms by (auto simp: payment_effect_def)
  have "(m_eventId meta, ''seat-service'') \<in> set (consumed_events d') \<or>
    (\<forall>h \<in> set (holds d'). h_id h = hold \<longrightarrow> \<not> held h)"
    using r by (auto simp: reserve_hold_spec_def Let_def filter_empty_conv split: if_splits)
  from reserve_hold_spec_noop [OF this] show ?thesis
    by (simp add: payment_effect_def PaymentSucceeded)
next
  case (PaymentFailed meta pid seat user hold reason)
  then obtain r where r: "release_hold_spec hold ''payment_failed'' (m_traceId meta) e1 occ1 now1 d =
    Inr (r, d')"
    using assms by (auto simp: payment_effect_def)
  have "\<forall>h \<in> set (holds d'). h_id h = hold \<longrightarrow> \<not> held h"
    using release_hold_spec_released [OF r] by blast
  from release_hold_spec_noop [OF this] show ?thesis
    by (simp add: payment_effect_def PaymentFailed)
qed (use assms in \<open>simp_all add: payment_effect_def\<close>)

subsection \<open>The handler does the effect and never throws\<close>

definition handled where
  "handled G ev_of st d n r s' \<longleftrightarrow>
     (case r of
        Ack \<Rightarrow> \<exists>ev m'. ev_of = Some ev \<and> atomic_ok G (st ev) d n m' () s'
      | Nack requeue \<Rightarrow>
          if requeue then \<exists>ev m' e. ev_of = Some ev \<and> atomic_err G (st ev) d n m' e s'
          else ev_of = None \<and> (\<exists>m'. idle G d n m' s'))"

lemma wp_note:
  assumes "idle G d n m s"
  shows "wp (if b then bindM inc_reserved (\<lambda>_. emit msg) else retM ())
      (\<lambda>_ s'. \<exists>m'. idle G d n m' s') (\<lambda>_ _. False) s"
    "wp (if b then bindM inc_released (\<lambda>_. emit msg) else retM ())
      (\<lambda>_ s'. \<exists>m'. idle G d n m' s') (\<lambda>_ _. False) s"
  using assms by (auto simp: wp_simps proc_defs conn_state_defs)

lemma wp_apply_payment_event:
  assumes "idle G d n m s"
  shows "wp (apply_payment_event newEventId occ ev)
    (\<lambda>_ s'. \<exists>m'. atomic_ok G (payment_effect newEventId occ ev) d n m' () s')
    (\<lambda>e s'. \<exists>m'. atomic_err G (payment_effect newEventId occ ev) d n m' e s') s"
proof (cases ev)
  case (PaymentSucceeded meta pid seat user hold amount currency psp)
  show ?thesis
    unfolding apply_payment_event_def payment_effect_def PaymentSucceeded event.case(4)
    by (rule reserve_hold.wp_then [OF assms]) (rule wp_note, assumption)
next
  case (PaymentFailed meta pid seat user hold reason)
  show ?thesis
    unfolding apply_payment_event_def payment_effect_def PaymentFailed event.case(5)
    by (rule release_hold.wp_then [OF assms]) (rule wp_note, assumption)
qed (use assms idle_refl [OF assms] in \<open>auto simp: apply_payment_event_def wp_simps payment_effect_def atomic_ok_def\<close>)

lemma wp_handle_payment_event:
  assumes "idle G d n m s"
  shows "wp (handle_payment_event z json_parse newEventId occ content)
    (handled G (parse_event (AnyEvent z) json_parse content) (payment_effect newEventId occ) d n)
    (\<lambda>_ _. False) s"
proof (cases "parse_event (AnyEvent z) json_parse content")
  case None
  then show ?thesis using assms by (auto simp: handle_payment_event_def wp_simps handled_def)
next
  case (Some ev)
  show ?thesis
    unfolding handle_payment_event_def Some option.case wp_try wp_bind wp_ret
    by (rule wp_mono [OF wp_apply_payment_event [OF assms]]) (auto simp: handled_def)
qed

subsection \<open>A message's life\<close>

text \<open>
  The broker delivers a message until it is acknowledged or dead-lettered. One delivery: the script of
  its connection, the random id and the date its event would get. A thrown exception would be a nack
  with requeue too (the catch of RabbitService.consume).
\<close>

type_synonym delivery = "seat_db tick list \<times> uuid \<times> instant"

fun deliveries ::
    "zod_formats \<Rightarrow> (string \<Rightarrow> json option) \<Rightarrow> string \<Rightarrow> delivery list \<Rightarrow> seat_proc \<Rightarrow>
     settle option \<times> seat_proc" where
  "deliveries z json_parse content [] s = (None, s)"
| "deliveries z json_parse content ((sc, eventId, occ) # rest) s =
     (case handle_payment_event z json_parse eventId occ content (s\<lparr>script := sc\<rparr>) of
        (Inr Ack, s') \<Rightarrow> (Some Ack, s')
      | (Inr (Nack False), s') \<Rightarrow> (Some (Nack False), s')
      | (Inr (Nack True), s') \<Rightarrow> deliveries z json_parse content rest s'
      | (Inl e, s') \<Rightarrow> deliveries z json_parse content rest s')"

text \<open>\<open>d'\<close> is \<open>d\<close> with the event's effect.\<close>

definition effect_done :: "event \<Rightarrow> seat_db \<Rightarrow> seat_db \<Rightarrow> bool" where
  "effect_done ev d d' \<longleftrightarrow> (\<exists>eventId occ now. payment_effect eventId occ ev now d = Inr ((), d'))"

lemma effect_done_twice: "effect_done ev d d' \<Longrightarrow> effect_done ev d' d'' \<Longrightarrow> d'' = d'"
  unfolding effect_done_def using payment_effect_twice [of _ _ ev _ d _ d'] by fastforce

lemma effect_doneI: "payment_effect eventId occ ev now d = Inr ((), d') \<Longrightarrow> effect_done ev d d'"
  unfolding effect_done_def by blast

lemma handle_quiet:
  assumes "quiet s" and "tx s = None"
    and "handle_payment_event z json_parse newEventId occ content s = (r, s')"
  shows "tx s' = None \<and> checked_out s' = checked_out s \<and>
    (case parse_event (AnyEvent z) json_parse content of
       None \<Rightarrow> r = Inr (Nack False) \<and> committed s' = committed s
     | Some ev \<Rightarrow>
         r = Inr Ack \<and> effect_done ev (committed s) (committed s') \<or>
         r = Inr (Nack True) \<and> (committed s' = committed s \<or> effect_done ev (committed s) (committed s')))"
proof -
  have h: "case r of Inl e \<Rightarrow> False
    | Inr a \<Rightarrow> handled (alone True) (parse_event (AnyEvent z) json_parse content)
        (payment_effect newEventId occ) (committed s) (checked_out s) a s'"
    using wpD [OF wp_handle_payment_event [OF quiet_idle [OF assms(1,2)]] assms(3)]
    by (simp split: sum.splits)
  then obtain a where r: "r = Inr a" and a: "handled (alone True) (parse_event (AnyEvent z) json_parse content)
        (payment_effect newEventId occ) (committed s) (checked_out s) a s'"
    by (cases r) auto
  have err: "tx s' = None \<and> checked_out s' = checked_out s \<and>
      (committed s' = committed s \<or> effect_done ev (committed s) (committed s'))"
    if "atomic_err (alone True) (payment_effect newEventId occ ev) (committed s) (checked_out s) m' e s'"
    for ev m' e
    using that by (auto simp: atomic_err_def dest!: idleD intro: effect_doneI)
  show ?thesis
  proof (cases a)
    case Ack
    then show ?thesis
      using a r by (auto simp: handled_def atomic_ok_def dest!: idleD intro: effect_doneI)
  next
    case (Nack q)
    then show ?thesis
      using a r err by (cases q) (fastforce simp: handled_def dest!: idleD)+
  qed
qed

lemma deliveries_effect:
  assumes "parse_event (AnyEvent z) json_parse content = Some ev"
    and "\<forall>(sc, x) \<in> set ds. \<forall>t \<in> set sc. others t = id"
    and "tx s = None" and "deliveries z json_parse content ds s = (v, s')"
  shows "(v = None \<or> v = Some Ack) \<and> tx s' = None \<and>
    (effect_done ev (committed s) (committed s') \<or> v = None \<and> committed s' = committed s)"
  using assms(2-)
proof (induction ds arbitrary: s)
  case Nil
  then show ?case by simp
next
  case (Cons x ds)
  obtain sc eid occ where x: "x = (sc, eid, occ)" by (cases x)
  let ?s = "s\<lparr>script := sc\<rparr>"
  obtain r s1 where h: "handle_payment_event z json_parse eid occ content ?s = (r, s1)"
    by (cases "handle_payment_event z json_parse eid occ content ?s")
  have q: "quiet ?s" using Cons.prems(1) by (auto simp: quiet_def x)
  have s1: "tx s1 = None" and r: "r = Inr Ack \<and> effect_done ev (committed s) (committed s1) \<or>
      r = Inr (Nack True) \<and> (committed s1 = committed s \<or> effect_done ev (committed s) (committed s1))"
    using handle_quiet [OF q _ h] Cons.prems(2) assms(1) by simp_all
  show ?case
  proof (cases "r = Inr Ack")
    case True
    then show ?thesis using Cons.prems(3) h r s1 by (simp add: x)
  next
    case False
    then have r': "r = Inr (Nack True)"
      and d: "committed s1 = committed s \<or> effect_done ev (committed s) (committed s1)" using r by auto
    have "deliveries z json_parse content ds s1 = (v, s')" using Cons.prems(3) h r' by (simp add: x)
    then have "(v = None \<or> v = Some Ack) \<and> tx s' = None \<and>
        (effect_done ev (committed s1) (committed s') \<or> v = None \<and> committed s' = committed s1)"
      by (intro Cons.IH) (use Cons.prems(1) s1 in auto)
    then show ?thesis using d effect_done_twice by metis
  qed
qed

end
