(* ===== verification/Seat_Machine.thy ===== *)
theory Seat_Machine
  imports Payment_Events "HOL-Library.Sublist"
begin

text \<open>
  The seat service as a state machine: a step is one call of a handler, one tick of the sweeper or
  one message, run to its end on a connection whose calls may fail at any point, while other
  replicas commit their own steps in between. What a step does to the committed contents, and so
  what it may assume of the others, is the preorder \<open>seat_rel\<close>: it keeps \<open>seat_db_ok\<close>, and a hold
  only moves from HELD to RELEASED or RESERVED.
\<close>

subsection \<open>How holds evolve\<close>

definition hold_evolves :: "hold_row \<Rightarrow> hold_row \<Rightarrow> bool" where
  "hold_evolves h h' \<longleftrightarrow>
     h_id h' = h_id h \<and> h_seat_id h' = h_seat_id h \<and> h_user_id h' = h_user_id h \<and>
     h_held_until h' = h_held_until h \<and> h_created_at h' = h_created_at h \<and> (\<not> held h \<longrightarrow> h' = h)"

text \<open>What of a seat never changes: its key and its price.\<close>

definition seat_price :: "seat_row \<Rightarrow> uuid \<times> int \<times> string" where
  "seat_price s = (s_id s, s_price_cents s, s_currency s)"

definition evolves :: "seat_db \<Rightarrow> seat_db \<Rightarrow> bool" where
  "evolves d d' \<longleftrightarrow>
     (\<exists>hs new. holds d' = hs @ new \<and> list_all2 hold_evolves (holds d) hs) \<and>
     prefix (map seat_price (seats d)) (map seat_price (seats d')) \<and>
     set (consumed_events d) \<subseteq> set (consumed_events d')"

definition seat_rel :: "seat_db \<Rightarrow> seat_db \<Rightarrow> bool" where
  "seat_rel d d' \<longleftrightarrow> (seat_db_ok d \<longrightarrow> seat_db_ok d' \<and> evolves d d')"

lemma hold_evolves_refl [simp]: "hold_evolves h h"
  by (simp add: hold_evolves_def)

lemma hold_evolves_trans: "hold_evolves a b \<Longrightarrow> hold_evolves b c \<Longrightarrow> hold_evolves a c"
  by (auto simp: hold_evolves_def)

lemma evolves_refl [simp]: "evolves d d"
  unfolding evolves_def
  by (rule conjI, rule exI [of _ "holds d"], rule exI [of _ "[]"]) (simp_all add: list_all2_same)

lemma evolves_trans:
  assumes "evolves a b" and "evolves b c"
  shows "evolves a c"
proof -
  obtain hs new where 1: "holds b = hs @ new" "list_all2 hold_evolves (holds a) hs"
    using assms(1) by (auto simp: evolves_def)
  obtain ks more where 2: "holds c = ks @ more" "list_all2 hold_evolves (hs @ new) ks"
    using assms(2) by (auto simp: evolves_def 1(1))
  then obtain ks1 ks2 where ks: "ks = ks1 @ ks2" "list_all2 hold_evolves hs ks1"
    by (auto simp: list_all2_append1)
  have "list_all2 hold_evolves (holds a) ks1"
    by (rule list_all2_trans [OF _ 1(2) ks(2)]) (rule hold_evolves_trans)
  then show ?thesis
    using assms 2(1) ks(1) unfolding evolves_def
    by (intro conjI exI [of _ ks1] exI [of _ "ks2 @ more"])
      (simp_all, blast intro: prefix_order.trans, blast)
qed

lemma seat_rel_preorder: "reflp seat_rel" "transp seat_rel"
  by (auto simp: seat_rel_def intro!: reflpI transpI) (blast intro: evolves_trans)

text \<open>The changes the statements make.\<close>

lemma evolves_hold_updates:
  assumes "\<And>h. P h \<Longrightarrow> held h" and "f = release_row now \<or> f = reserve_row now"
  shows "list_all2 hold_evolves hs (upd_where P f hs)"
  using assms by (induction hs) (auto simp: hold_evolves_def)

lemma evolves_simple:
  assumes "holds d' = upd_where P f (holds d) @ new" and "\<And>h. P h \<Longrightarrow> held h"
    and "f = release_row now \<or> f = reserve_row now"
    and "map seat_price (seats d') = map seat_price (seats d)"
    and "set (consumed_events d) \<subseteq> set (consumed_events d')"
  shows "evolves d d'"
  using assms(1-3,5) evolves_hold_updates [of P f now "holds d"] unfolding evolves_def assms(4)
  by (intro conjI prefix_order.refl) blast+

lemma map_seats_status:
  "map seat_price (upd_where P (\<lambda>s. s\<lparr>s_status := v\<rparr>) ss) = map seat_price ss"
  by (rule map_upd_where_key) (simp add: seat_price_def)

lemma map_seats_free [simp]:
  "map seat_price (seats (free_seat k d)) = map seat_price (seats d)"
  by (simp add: free_seat_def map_seats_status)

lemma map_seats_fold [simp]:
  "map seat_price (seats (fold (sweep_row_db traceId fresh occ now) xs d)) = map seat_price (seats d)"
  by (induction xs arbitrary: d) (auto simp: sweep_row_db_def split: prod.splits)

lemma insert_hold_spec_evolves:
  assumes "insert_hold_spec env nowJs holdId eventId occ seatId userId traceId now d = Inr (r, d')"
  shows "evolves d d'"
proof (cases r)
  case (Hold_Conflict c)
  then show ?thesis using assms by (auto dest: insert_hold_spec_conflict)
next
  case (Hold_Ok h)
  then have "hold_placed env nowJs holdId eventId occ seatId userId traceId d h d'"
    using assms insert_hold_spec_placed by blast
  then obtain now where
    "holds d' = upd_where (\<lambda>x. h_seat_id x = seatId \<and> expired now x) (release_row now) (holds d) @ [h]"
    "seats d' = upd_where (\<lambda>x. s_id x = seatId) (\<lambda>x. x\<lparr>s_status := SEAT_HELD\<rparr>) (seats d)"
    "consumed_events d' = consumed_events d"
    unfolding hold_placed_def by blast
  then show ?thesis
    by (intro evolves_simple [where P = "\<lambda>x. h_seat_id x = seatId \<and> expired now x" and now = now])
      (auto simp: map_seats_status)
qed

lemma release_hold_spec_evolves:
  assumes "release_hold_spec holdId reason traceId eventId occ now d = Inr (r, d')"
  shows "evolves d d'"
proof (cases "filter (\<lambda>h. h_id h = holdId \<and> held h) (holds d) = []")
  case True
  then show ?thesis using assms by (simp add: release_hold_spec_def)
next
  case False
  then show ?thesis using assms
    by (intro evolves_simple [where P = "\<lambda>h. h_id h = holdId \<and> held h" and new = "[]" and now = now])
      (auto simp: release_hold_spec_def Let_def)
qed

lemma reserve_hold_spec_evolves:
  assumes "reserve_hold_spec holdId eventId cg traceId newEventId occ now d = Inr (r, d')"
  shows "evolves d d'"
proof (cases "(eventId, cg) \<in> set (consumed_events d) \<or> filter (\<lambda>h. h_id h = holdId \<and> held h) (holds d) = []")
  case True
  then show ?thesis using assms by (auto simp: reserve_hold_spec_def Let_def split: if_splits)
next
  case False
  then show ?thesis using assms
    by (intro evolves_simple [where P = "\<lambda>h. h_id h = holdId \<and> held h" and new = "[]" and now = now])
      (auto simp: reserve_hold_spec_def Let_def map_seats_status)
qed

lemma sweep_spec_evolves:
  assumes "seat_schema_ok d" and "scan_ok scan"
    and "sweep_spec env scan traceId fresh occ now d = Inr (u, d')"
  shows "evolves d d'"
proof -
  let ?B = "set (sweep_batch scan (SWEEP_BATCH_LIMIT env) now d)"
  have "holds d' = upd_where (\<lambda>h. h_id h \<in> ?B) (release_row now) (holds d)"
    using sweep_spec_holds [OF assms(3)] .
  also have "\<dots> = upd_where (\<lambda>h. h_id h \<in> ?B \<and> held h) (release_row now) (holds d)"
    using swept_expired [OF assms(1,2)] by (auto simp: upd_where_def)
  finally show ?thesis using assms(3)
    by (intro evolves_simple [where P = "\<lambda>h. h_id h \<in> ?B \<and> held h" and new = "[]" and now = now])
      (auto simp: sweep_spec_def Let_def)
qed

text \<open>Every statement of the service respects \<open>seat_rel\<close>.\<close>

lemma seat_rel_insert:
  "insert_hold_spec env nowJs holdId eventId occ seatId userId traceId now d = Inr (r, d') \<Longrightarrow> seat_rel d d'"
  unfolding seat_rel_def by (metis insert_hold_spec_keeps_ok insert_hold_spec_evolves)

lemma seat_rel_release:
  "release_hold_spec holdId reason traceId eventId occ now d = Inr (r, d') \<Longrightarrow> seat_rel d d'"
  unfolding seat_rel_def by (metis release_hold_spec_keeps_ok release_hold_spec_evolves)

lemma seat_rel_reserve:
  "reserve_hold_spec holdId eventId cg traceId newEventId occ now d = Inr (r, d') \<Longrightarrow> seat_rel d d'"
  unfolding seat_rel_def by (metis reserve_hold_spec_keeps_ok reserve_hold_spec_evolves)

lemma seat_rel_sweep:
  "scan_ok scan \<Longrightarrow> sweep_spec env scan traceId fresh occs now d = Inr (u, d') \<Longrightarrow> seat_rel d d'"
  unfolding seat_rel_def by (metis sweep_spec_keeps_ok sweep_spec_evolves seat_db_ok_def)

lemmas seat_rel_specs = seat_rel_insert seat_rel_release seat_rel_reserve seat_rel_sweep

lemma seat_rel_payment_effect:
  "payment_effect newEventId occ ev now d = Inr (u, d') \<Longrightarrow> seat_rel d d'"
  by (cases ev) (auto simp: payment_effect_def dest: seat_rel_release seat_rel_reserve, simp_all add: seat_rel_def)

subsection \<open>Steps\<close>

text \<open>
  What the service may be doing. Everything drawn from outside (ids, dates, the server's scan, the
  script of the connection) is part of the step; the script's other sessions are other replicas of
  the service, which respect \<open>seat_rel\<close> themselves (\<open>seat_step_guarantee\<close>).
\<close>

definition replicas :: "seat_db environment" where
  "replicas = \<lparr>rel = seat_rel, faulty = True\<rparr>"

lemma replicas_sel [simp]: "rel replicas = seat_rel" "faulty replicas"
  by (simp_all add: replicas_def)

definition obeys :: "seat_db environment \<Rightarrow> seat_db tick list \<Rightarrow> bool" where
  "obeys G sc \<longleftrightarrow> (\<forall>t \<in> set sc. \<forall>d. rel G d (others t d))"

text \<open>\<open>G\<close> is what the other sessions may do, \<open>msgs\<close> the messages that can be delivered.\<close>

inductive seat_step_in ::
    "seat_db environment \<Rightarrow> string set \<Rightarrow> seat_env \<Rightarrow> zod_formats \<Rightarrow> (string \<Rightarrow> json option) \<Rightarrow>
     seat_proc \<Rightarrow> seat_proc \<Rightarrow> bool"
  for G msgs env z json_parse where
  hold: "obeys G sc \<Longrightarrow>
    seats_hold env fr seatId body userId header (s\<lparr>script := sc\<rparr>) = (r, s') \<Longrightarrow>
    seat_step_in G msgs env z json_parse s s'"
| unhold: "obeys G sc \<Longrightarrow>
    seats_release eventId occ fresh seatId userId header (s\<lparr>script := sc\<rparr>) = (u, s') \<Longrightarrow>
    seat_step_in G msgs env z json_parse s s'"
| sweep: "obeys G sc \<Longrightarrow> scan_ok scan \<Longrightarrow>
    sweep_tick env scan traceId freshes occs (s\<lparr>script := sc\<rparr>) = (u, s') \<Longrightarrow>
    seat_step_in G msgs env z json_parse s s'"
| message: "obeys G sc \<Longrightarrow> content \<in> msgs \<Longrightarrow>
    handle_payment_event z json_parse eventId occ content (s\<lparr>script := sc\<rparr>) = (v, s') \<Longrightarrow>
    seat_step_in G msgs env z json_parse s s'"
| other: "rel G (committed s) d \<Longrightarrow> seat_step_in G msgs env z json_parse s (s\<lparr>committed := d\<rparr>)"

inductive_cases seat_stepE: "seat_step_in G msgs env z json_parse s s'"

text \<open>The service among its replicas, whatever messages arrive.\<close>

abbreviation seat_step ::
    "seat_env \<Rightarrow> zod_formats \<Rightarrow> (string \<Rightarrow> json option) \<Rightarrow> seat_proc \<Rightarrow> seat_proc \<Rightarrow> bool" where
  "seat_step \<equiv> seat_step_in replicas UNIV"

inductive seat_reach ::
    "seat_env \<Rightarrow> zod_formats \<Rightarrow> (string \<Rightarrow> json option) \<Rightarrow> seat_proc \<Rightarrow> seat_proc \<Rightarrow> bool"
  for env z json_parse where
  start: "seat_reach env z json_parse s s"
| step: "seat_reach env z json_parse s s1 \<Longrightarrow> seat_step env z json_parse s1 s2 \<Longrightarrow>
    seat_reach env z json_parse s s2"

subsection \<open>The guarantees of the handlers\<close>

text \<open>The bookkeeping of the process.\<close>

lemma seat_bookkeeping [guarantee]:
  "guarantees G (emit msg)" "guarantees G inc_held" "guarantees G inc_released" "guarantees G inc_reserved"
  "guarantees G inc_conflicts" "guarantees G (set_header k v)"
  unfolding proc_defs by (rule guarantees_modify, simp add: bookkeeping_def)+

text \<open>
  What a handler guarantees follows from what its statements do. The locale is the contract between the
  statements of the repositories and the handlers over them: an environment \<open>G\<close> whose relation every
  statement respects, the consumer's statement being asked for only where a message needs it.
\<close>

locale seat_sessions =
  fixes G :: "seat_db environment"
  assumes preorder: "reflp (rel G)" "transp (rel G)"
    and inserts: "insert_hold_spec env nowJs holdId eventId occ seatId userId traceId now d = Inr (r, d') \<Longrightarrow>
      rel G d d'"
    and releases: "release_hold_spec holdId reason traceId eventId occ now d = Inr (r', d') \<Longrightarrow> rel G d d'"
    and sweeps: "scan_ok scan \<Longrightarrow> sweep_spec env scan traceId fresh occs now d = Inr (u, d') \<Longrightarrow> rel G d d'"
begin

lemma guarantees_insert: "guarantees G (insertHoldTx env nowJs holdId eventId occ seatId userId traceId)"
  by (rule insert_hold_tx.guaranteed) (rule inserts)

lemma guarantees_release: "guarantees G (releaseHold holdId reason traceId eventId occ)"
  by (rule release_hold.guaranteed) (rule releases)

lemma guarantees_reads: "guarantees G (getPrice seatId)" "guarantees G (findActiveHoldForSeat seatId)"
  unfolding getPrice_def findActiveHoldForSeat_def
  by (rule guarantees_query, auto simp: select_price_def select_active_hold_def intro: reflpD [OF preorder(1)])+

lemmas methods = guarantees_insert guarantees_release guarantees_reads

lemma guarantees_seats_hold: "guarantees G (seats_hold env fr seatId body userId header)"
  unfolding seats_hold_def
proof (intro guarantees_if guarantees_bind guarantees_throw methods)
  fix result
  show "guarantees G (case result of
      Hold_Conflict reason \<Rightarrow>
        bindM inc_conflicts (\<lambda>_.
        bindM (set_header ''Retry-After'' (int_string (RETRY_AFTER_SECONDS env))) (\<lambda>_.
        throwM (Http_Error 409 (conflict_error reason))))
    | Hold_Ok hold \<Rightarrow>
        bindM inc_held (\<lambda>_.
        bindM (emit (Bus_Held seatId userId (h_held_until hold))) (\<lambda>_.
        bindM (getPrice seatId) (\<lambda>p.
        retM \<lparr>hr_holdId = h_id hold, hr_seatId = seatId,
              hr_heldUntil = toISOString (h_held_until hold), hr_priceCents = map_option fst p\<rparr>))))"
    by (cases result) (simp_all add: guarantee methods)
qed

lemma guarantees_seats_release:
  "guarantees G (seats_release eventId occ fresh seatId userId header)"
  unfolding seats_release_def by (intro guarantee methods)

lemma guarantees_sweep: "scan_ok scan \<Longrightarrow> guarantees G (sweep_tick env scan traceId fresh occ)"
  by (rule sweep.guaranteed) (rule sweeps)

lemma guarantees_message:
  assumes "\<And>ev now d d'. parse_event (AnyEvent z) json_parse content = Some ev \<Longrightarrow>
    payment_effect newEventId occ ev now d = Inr ((), d') \<Longrightarrow> rel G d d'"
  shows "guarantees G (handle_payment_event z json_parse newEventId occ content)"
proof (cases "parse_event (AnyEvent z) json_parse content")
  case None
  then show ?thesis by (simp add: handle_payment_event_def guarantee)
next
  case (Some ev)
  have "guarantees G (apply_payment_event newEventId occ ev)"
  proof (cases ev)
    case (PaymentSucceeded meta pid seat user hold amount currency psp)
    have "guarantees G (reserveHold hold (m_eventId meta) ''seat-service'' (m_traceId meta) newEventId occ)"
      by (rule reserve_hold.guaranteed) (rule assms [OF Some], fastforce simp: payment_effect_def PaymentSucceeded)
    then show ?thesis
      unfolding PaymentSucceeded apply_payment_event_def event.case by (intro guarantee)
  next
    case (PaymentFailed meta pid seat user hold reason)
    show ?thesis
      unfolding PaymentFailed apply_payment_event_def event.case by (intro guarantee methods)
  qed (simp_all add: apply_payment_event_def guarantee)
  then show ?thesis unfolding Some handle_payment_event_def option.case by (intro guarantee)
qed

text \<open>One step, when every message that can arrive is one whose effect \<open>G\<close> allows.\<close>

lemma guarantees_step:
  assumes "guarantees G op" and "obeys G sc" and "tx s = None" and "op (s\<lparr>script := sc\<rparr>) = (r, s')"
    and "faulty G"
  shows "rel G (committed s) (committed s') \<and> checked_out s' = checked_out s \<and> tx s' = None"
proof -
  have "idle G (committed s) (checked_out s) (conn.more s) (s\<lparr>script := sc\<rparr>)"
    using preorder assms(2,3,5) by (simp add: conn_state_defs obeys_def)
  from wpD [OF guaranteesD [OF assms(1) this] assms(4)] show ?thesis
    by (auto simp: settled_def dest!: idleD split: sum.splits)
qed

lemma step_settled:
  assumes step: "seat_step_in G msgs env z json_parse s s'" and "tx s = None" and f: "faulty G"
    and "\<And>content ev eventId occ now d d'. content \<in> msgs \<Longrightarrow>
      parse_event (AnyEvent z) json_parse content = Some ev \<Longrightarrow>
      payment_effect eventId occ ev now d = Inr ((), d') \<Longrightarrow> rel G d d'"
  shows "rel G (committed s) (committed s') \<and> checked_out s' = checked_out s \<and> tx s' = None"
  using step
proof cases
  case (hold sc fr seatId body userId header r)
  then show ?thesis using guarantees_step [OF guarantees_seats_hold _ assms(2) _ f] by blast
next
  case (unhold sc eventId occ fresh seatId userId header u)
  then show ?thesis using guarantees_step [OF guarantees_seats_release _ assms(2) _ f] by blast
next
  case (sweep sc scan traceId freshes occs u)
  then show ?thesis using guarantees_step [OF guarantees_sweep _ assms(2) _ f] by blast
next
  case (message sc content eventId occ v)
  have "guarantees G (handle_payment_event z json_parse eventId occ content)"
    by (rule guarantees_message) (rule assms(4) [OF message(2)])
  from guarantees_step [OF this message(1) assms(2) message(3) f] show ?thesis .
next
  case (other d)
  then show ?thesis using assms(2) by simp
qed

end

interpretation replica: seat_sessions replicas
  using seat_rel_preorder by unfold_locales (auto intro: seat_rel_specs)

subsection \<open>What a run keeps\<close>

definition settled_at :: "seat_db \<Rightarrow> nat \<Rightarrow> seat_proc \<Rightarrow> bool" where
  "settled_at d n s \<longleftrightarrow> seat_rel d (committed s) \<and> checked_out s = n \<and> tx s = None"

lemma seat_step_settled:
  assumes "seat_step env z json_parse s s'" and "tx s = None"
  shows "settled_at (committed s) (checked_out s) s'"
  using replica.step_settled [OF assms] by (simp add: settled_at_def seat_rel_payment_effect)

lemma settled_at_trans:
  "settled_at d n s \<Longrightarrow> settled_at (committed s) (checked_out s) s' \<Longrightarrow> settled_at d n s'"
  using seat_rel_preorder(2) by (auto simp: settled_at_def dest: transpD)

lemma settled_at_refl: "tx s = None \<Longrightarrow> settled_at (committed s) (checked_out s) s"
  using seat_rel_preorder(1) by (auto simp: settled_at_def dest: reflpD)

lemma seat_reach_settled:
  "seat_reach env z json_parse s s' \<Longrightarrow> tx s = None \<Longrightarrow> settled_at (committed s) (checked_out s) s'"
  by (induction rule: seat_reach.induct)
    (metis settled_at_refl, metis settled_at_trans seat_step_settled settled_at_def)

end
