(* ===== verification/Seat_Properties.thy ===== *)
theory Seat_Properties
  imports Seat_Machine
begin

text \<open>
  What the seat service promises, theorem by theorem, each with a run of the service on a small
  database (\<open>demo_db\<close>: three seats, one live hold and one that has expired) at which it applies.
\<close>

subsection \<open>A small database\<close>

definition demo_seat :: "uuid \<Rightarrow> string \<Rightarrow> seat_status \<Rightarrow> seat_row" where
  "demo_seat i l st = \<lparr>s_id = i, s_label = l, s_price_cents = 5000, s_currency = ''USD'', s_status = st\<rparr>"

definition demo_hold :: "uuid \<Rightarrow> uuid \<Rightarrow> uuid \<Rightarrow> instant \<Rightarrow> hold_row" where
  "demo_hold i k u until =
     \<lparr>h_id = i, h_seat_id = k, h_user_id = u, h_status = HELD, h_held_until = until,
      h_created_at = 0, h_released_at = None, h_reserved_at = None\<rparr>"

definition demo_db :: seat_db where
  "demo_db =
     \<lparr>outbox = [], outbox_seq = 0,
      seats = [demo_seat ''s1'' ''A1'' SEAT_AVAILABLE, demo_seat ''s2'' ''A2'' SEAT_HELD,
               demo_seat ''s3'' ''A3'' SEAT_HELD],
      holds = [demo_hold ''h2'' ''s2'' ''u2'' 500, demo_hold ''h3'' ''s3'' ''u3'' 100000],
      consumed_events = []\<rparr>"

definition demo :: "seat_db tick list \<Rightarrow> seat_proc" where
  "demo sc =
     \<lparr>committed = demo_db, tx = None, tx_failed = False, tx_now = 1000, script = sc, checked_out = 0,
      bus = [], seatsHeldTotal = 0, seatsReleasedTotal = 0, seatsReservedTotal = 0,
      holdConflictsTotal = 0, res_headers = []\<rparr>"

definition demo_env :: seat_env where
  "demo_env = \<lparr>HOLD_TTL_SECONDS = 120, SWEEP_BATCH_LIMIT = 100, RETRY_AFTER_SECONDS = 2\<rparr>"

definition fine :: "seat_db tick" where
  "fine = \<lparr>others = id, clock = 1000, fate = Runs\<rparr>"

definition failing :: "seat_db tick" where
  "failing = \<lparr>others = id, clock = 1000, fate = Fails_before Conn_Lost\<rparr>"

lemma demo_sel [simp]:
  "committed (demo sc) = demo_db" "tx (demo sc) = None" "script (demo sc) = sc"
  "checked_out (demo sc) = 0" "quiet (demo [])" "reliable (demo [])"
  "quiet (demo (replicate k fine))" "reliable (demo (replicate k fine))"
  "quiet (demo (replicate k fine @ [failing]))"
  by (auto simp: demo_def quiet_def reliable_def fine_def failing_def)

lemma demo_db_ok: "seat_db_ok demo_db"
  by code_simp

lemma demo_schema_ok: "seat_schema_ok demo_db"
  using demo_db_ok by (simp add: seat_db_ok_def)

subsection \<open>Placing a hold\<close>

text \<open>C1: insertHoldTx is all or nothing. Whatever calls of the database fail, as long as no other
  session commits meanwhile, the method leaves the database either as it was or with the hold placed
  in full (expired hold of the seat released, hold row, seat shown as held, one seat.held.v1 outbox
  row): Ok means placed, a conflict means nothing was done, and an exception means one of the two
  (the answer to COMMIT may be lost). The connection is given back with no transaction open.\<close>

theorem insertHoldTx_all_or_nothing:
  fixes s :: seat_proc
  assumes "quiet s" and "tx s = None"
    and "insertHoldTx env nowJs holdId eventId occ seatId userId traceId s = (r, s')"
  shows "(case r of
      Inr (Hold_Ok h) \<Rightarrow>
        hold_placed env nowJs holdId eventId occ seatId userId traceId (committed s) h (committed s')
    | Inr (Hold_Conflict c) \<Rightarrow> committed s' = committed s
    | Inl e \<Rightarrow> committed s' = committed s \<or>
        (\<exists>h. hold_placed env nowJs holdId eventId occ seatId userId traceId (committed s) h (committed s')))
    \<and> tx s' = None \<and> checked_out s' = checked_out s"
  using insert_hold_tx.run_atomic [OF assms]
    insert_hold_spec_placed [of env nowJs holdId eventId occ seatId userId traceId _ "committed s"]
    insert_hold_spec_conflict [of env nowJs holdId eventId occ seatId userId traceId _ "committed s"]
  by (auto simp: all_or_nothing_def split: sum.splits hold_result.splits) (metis hold_result.exhaust)

theorem insertHoldTx_all_or_nothing_witness:
  "fst (insertHoldTx demo_env 1000 ''h1'' ''e1'' 1000 ''s1'' ''u1'' ''t1''
     (demo (replicate 8 fine @ [failing]))) = Inl (fault_exn Conn_Lost) \<and>
   tx (snd (insertHoldTx demo_env 1000 ''h1'' ''e1'' 1000 ''s1'' ''u1'' ''t1''
     (demo (replicate 8 fine @ [failing])))) = None"
proof -
  let ?op = "insertHoldTx demo_env 1000 ''h1'' ''e1'' 1000 ''s1'' ''u1'' ''t1'' (demo (replicate 8 fine @ [failing]))"
  have r: "fst ?op = Inl (fault_exn Conn_Lost)" by code_simp
  from insertHoldTx_all_or_nothing [OF _ _ run_pair [OF this]] r show ?thesis by simp
qed

text \<open>C5: When a hold is granted. On a reliable, undisturbed connection let \<open>begun s\<close> be the transaction's
  instant, the server's clock at its BEGIN. insertHoldTx grants the hold exactly if the id is new, the
  seat exists, and no held hold blocks it: none on the seat that has not expired at that instant, and
  none of the user except an expired one on this very seat. Then the hold is placed in full, dated with
  that instant. Otherwise it answers with a conflict whose reason is the blocking hold, or fails on the
  foreign key if there is no such seat, and the database is as before.\<close>

theorem insertHoldTx_decision:
  fixes s :: seat_proc
  assumes "quiet s" and "reliable s" and "tx s = None"
    and "insertHoldTx env nowJs holdId eventId occ seatId userId traceId s = (r, s')"
  shows "((\<exists>h. r = Inr (Hold_Ok h)) \<longleftrightarrow>
       (\<forall>x \<in> set (holds (committed s)). h_id x \<noteq> holdId) \<and>
       (\<exists>x \<in> set (seats (committed s)). s_id x = seatId) \<and>
       (\<forall>x \<in> set (holds (committed s)). held x \<and> h_seat_id x = seatId \<longrightarrow> h_held_until x < begun s) \<and>
       (\<forall>x \<in> set (holds (committed s)). held x \<and> h_user_id x = userId \<longrightarrow>
          h_seat_id x = seatId \<and> h_held_until x < begun s)) \<and>
    (\<forall>h. r = Inr (Hold_Ok h) \<longrightarrow> h_created_at h = begun s \<and>
       hold_placed env nowJs holdId eventId occ seatId userId traceId (committed s) h (committed s')) \<and>
    (\<forall>c. r = Inr (Hold_Conflict c) \<longrightarrow> committed s' = committed s \<and>
       (case c of
          seat_held \<Rightarrow> \<exists>x \<in> set (holds (committed s)).
            h_id x = holdId \<or> held x \<and> h_seat_id x = seatId \<and> begun s \<le> h_held_until x
        | user_has_hold \<Rightarrow> \<exists>x \<in> set (holds (committed s)). blocking (begun s) seatId x \<and> h_user_id x = userId)) \<and>
    (\<forall>e. r = Inl e \<longrightarrow> committed s' = committed s \<and>
       e = foreign_key_violation ''holds_seat_id_fkey'' \<and>
       (\<forall>x \<in> set (seats (committed s)). s_id x \<noteq> seatId))"
proof -
  let ?spec = "insert_hold_spec env nowJs holdId eventId occ seatId userId traceId (begun s)"
  have sp: "case r of Inr a \<Rightarrow> ?spec (committed s) = Inr (a, committed s')
      | Inl e \<Rightarrow> ?spec (committed s) = Inl e \<and> committed s' = committed s"
    by (rule insert_hold_tx.run_dated [OF assms])
  have ok: "(\<exists>h. r = Inr (Hold_Ok h)) \<longleftrightarrow> (\<exists>h d'. ?spec (committed s) = Inr (Hold_Ok h, d'))"
    using sp by (auto split: sum.splits)
  show ?thesis
  proof (intro conjI allI impI)
    show "(\<exists>h. r = Inr (Hold_Ok h)) \<longleftrightarrow>
       (\<forall>x \<in> set (holds (committed s)). h_id x \<noteq> holdId) \<and>
       (\<exists>x \<in> set (seats (committed s)). s_id x = seatId) \<and>
       (\<forall>x \<in> set (holds (committed s)). held x \<and> h_seat_id x = seatId \<longrightarrow> h_held_until x < begun s) \<and>
       (\<forall>x \<in> set (holds (committed s)). held x \<and> h_user_id x = userId \<longrightarrow>
          h_seat_id x = seatId \<and> h_held_until x < begun s)"
      unfolding ok insert_hold_spec_ok_iff blocking_def by blast
  next
    fix h assume "r = Inr (Hold_Ok h)"
    then have h: "?spec (committed s) = Inr (Hold_Ok h, committed s')" using sp by simp
    show "h_created_at h = begun s" by (rule insert_hold_spec_created [OF h])
    show "hold_placed env nowJs holdId eventId occ seatId userId traceId (committed s) h (committed s')"
      by (rule insert_hold_spec_placed [OF h])
  next
    fix c assume c: "r = Inr (Hold_Conflict c)"
    then show "committed s' = committed s" using sp insert_hold_spec_conflict by simp
    show "case c of
          seat_held \<Rightarrow> \<exists>x \<in> set (holds (committed s)).
            h_id x = holdId \<or> held x \<and> h_seat_id x = seatId \<and> begun s \<le> h_held_until x
        | user_has_hold \<Rightarrow> \<exists>x \<in> set (holds (committed s)). blocking (begun s) seatId x \<and> h_user_id x = userId"
      using c sp insert_hold_spec_conflict_reason [of env nowJs holdId eventId occ seatId userId traceId "begun s"]
      by (fastforce simp: blocking_def split: conflict_reason.splits)
  qed (use sp in \<open>auto split: sum.splits dest: insert_hold_spec_error\<close>)
qed

text \<open>Seat s2 of the example has a held hold that expired at 500, seat s3 one that has not.\<close>

theorem insertHoldTx_decision_witness:
  "(\<exists>h. fst (insertHoldTx demo_env 1000 ''h1'' ''e1'' 1000 ''s2'' ''u1'' ''t1'' (demo [])) = Inr (Hold_Ok h) \<and>
      h_created_at h = begun (demo [])) \<and>
   h_held_until (hd (holds demo_db)) < begun (demo [])"
proof -
  let ?op = "insertHoldTx demo_env 1000 ''h1'' ''e1'' 1000 ''s2'' ''u1'' ''t1'' (demo [])"
  let ?h = "\<lparr>h_id = ''h1'', h_seat_id = ''s2'', h_user_id = ''u1'', h_status = HELD, h_held_until = 121000,
    h_created_at = 1000, h_released_at = None, h_reserved_at = None\<rparr>"
  have r: "fst ?op = Inr (Hold_Ok ?h)" by code_simp
  have x: "hd (holds demo_db) \<in> set (holds demo_db)" "held (hd (holds demo_db))" "h_seat_id (hd (holds demo_db)) = ''s2''"
    by (simp_all add: demo_db_def demo_hold_def)
  from insertHoldTx_decision [OF _ _ _ run_pair [OF r]] r x show ?thesis by auto
qed

text \<open>POST /api/seats/:id/hold. On a reliable, undisturbed connection a well-formed request is
  answered either with the hold (placed in full, one seat:held message on the bus, the counter of
  held seats incremented) or with 409, Retry-After set, the conflict counted, the error naming the
  blocking hold, nothing changed in the database and nothing said on the bus; the only other outcome
  is the foreign key error of an unknown seat.\<close>

theorem seats_hold_answer:
  fixes s :: seat_proc
  assumes "quiet s" "reliable s" "tx s = None" and "HoldBodySchema body"
    and "seats_hold env fr seatId body userId header s = (r, s')"
  shows "(case r of
      Inr resp \<Rightarrow> hold_accepted env fr seatId userId header (committed s) resp s s'
    | Inl e \<Rightarrow>
        e = Http_Error 409 ''user_already_has_hold'' \<and>
          hold_refused env fr seatId userId (committed s) user_has_hold s s' \<or>
        e = Http_Error 409 ''seat_unavailable'' \<and>
          hold_refused env fr seatId userId (committed s) seat_held s s' \<or>
        e = foreign_key_violation ''holds_seat_id_fkey'' \<and>
          (\<forall>x \<in> set (seats (committed s)). s_id x \<noteq> seatId) \<and>
          committed s' = committed s \<and> bus s' = bus s)"
proof (cases r)
  case (Inl e)
  from seats_hold_reliable [OF assms, unfolded Inl sum.case] show ?thesis
  proof (elim disjE exE conjE)
    fix c
    assume "e = Http_Error 409 (conflict_error c)"
      and "hold_refused env fr seatId userId (committed s) c s s'"
    then show ?thesis by (cases c) (simp_all add: Inl conflict_error_def)
  qed (simp add: Inl)
next
  case (Inr resp)
  then show ?thesis using seats_hold_reliable [OF assms] by simp
qed

definition demo_fresh :: hold_fresh where
  "demo_fresh = \<lparr>f_now = 1000, f_holdId = ''h1'', f_eventId = ''e1'', f_occ = 1000, f_trace = ''t1''\<rparr>"

theorem seats_hold_answer_witness:
  "fst (seats_hold demo_env demo_fresh ''s1'' (Some (JObj [])) ''u3'' None (demo [])) =
     Inl (Http_Error 409 ''user_already_has_hold'') \<and>
   committed (snd (seats_hold demo_env demo_fresh ''s1'' (Some (JObj [])) ''u3'' None (demo []))) = demo_db"
proof -
  let ?op = "seats_hold demo_env demo_fresh ''s1'' (Some (JObj [])) ''u3'' None (demo [])"
  have r: "fst ?op = Inl (Http_Error 409 ''user_already_has_hold'')" by code_simp
  from seats_hold_answer [OF _ _ _ _ run_pair [OF this]] r show ?thesis
    by (auto simp: HoldBodySchema_def hold_refused_def fault_exn_def foreign_key_violation_def)
qed

subsection \<open>Releasing and reserving\<close>

text \<open>releaseHold on a reliable, undisturbed connection. If the hold is held, it and only it is
  released, its seat is shown as available, one seat.released.v1 event with the given reason is
  appended and the seat is reported; if it is not, nothing changes and released is false.\<close>

theorem releaseHold_effect:
  fixes s :: seat_proc
  assumes "quiet s" "reliable s" "tx s = None" and "seat_schema_ok (committed s)"
    and "releaseHold holdId reason traceId eventId occ s = (r, s')"
  shows "case find (\<lambda>h. h_id h = holdId \<and> held h) (holds (committed s)) of
      None \<Rightarrow> r = Inr \<lparr>r_released = False, r_seatId = None\<rparr> \<and> committed s' = committed s
    | Some h \<Rightarrow>
        r = Inr \<lparr>r_released = True, r_seatId = Some (h_seat_id h)\<rparr> \<and>
        (\<exists>now.
          holds (committed s') =
            upd_where (\<lambda>x. h_id x = holdId) (release_row now) (holds (committed s)) \<and>
          seats (committed s') = upd_where (\<lambda>x. s_id x = h_seat_id h)
            (\<lambda>x. x\<lparr>s_status := SEAT_AVAILABLE\<rparr>) (seats (committed s)) \<and>
          outbox (committed s') = outbox (committed s) @
            [new_outbox_row (Suc (outbox_seq (committed s))) now holdId ''seat.released.v1''
              (seat_released_payload eventId (h_seat_id h) reason traceId occ) [(''traceId'', traceId)]])"
proof -
  let ?d = "committed s"
  let ?spec = "release_hold_spec holdId reason traceId eventId occ"
  obtain now where sp: "case r of Inr a \<Rightarrow> ?spec now ?d = Inr (a, committed s')
      | Inl e \<Rightarrow> ?spec now ?d = Inl e \<and> committed s' = ?d"
    using release_hold.run_reliable [OF assms(1-3,5)] by blast
  show ?thesis
  proof (cases "find (\<lambda>h. h_id h = holdId \<and> held h) (holds ?d)")
    case None
    then have "\<forall>h \<in> set (holds ?d). h_id h = holdId \<longrightarrow> \<not> held h" by (auto simp: find_None_iff)
    from release_hold_spec_noop [OF this] show ?thesis using sp None by (auto split: sum.splits)
  next
    case (Some h)
    then have h: "h \<in> set (holds ?d)" "h_id h = holdId" "held h" using find_SomeD by fastforce+
    let ?hs = "upd_where (\<lambda>x. h_id x = holdId \<and> held x) (release_row now) (holds ?d)"
    have eq: "?hs = upd_where (\<lambda>x. h_id x = holdId) (release_row now) (holds ?d)"
      using hold_by_id_unique [OF assms(4) _ h(1)] h(2,3) by (auto simp: upd_where_def)
    have "\<not> has_hold ?hs HELD (h_seat_id h)"
      unfolding has_hold_def bex_upd_where
      using h held_seat_unique [OF assms(4) _ h(1) _ h(3)] by auto
    then have f: "free_seat (h_seat_id h) (update_holds (\<lambda>x. h_id x = holdId \<and> held x) (release_row now) ?d) =
        update_seats (\<lambda>s. s_id s = h_seat_id h) (\<lambda>s. s\<lparr>s_status := SEAT_AVAILABLE\<rparr>)
          (update_holds (\<lambda>x. h_id x = holdId \<and> held x) (release_row now) ?d)"
      by (simp add: free_seat_eq)
    show ?thesis
      unfolding Some option.case
      using sp release_hold_spec_held [OF assms(4) h(1,3), of reason traceId eventId occ now] eq
      unfolding h(2) f by (intro conjI exI [of _ now]) (auto split: sum.splits)
  qed
qed

theorem releaseHold_effect_witness:
  "fst (releaseHold ''h2'' ''user_cancelled'' ''t'' ''e'' 1000 (demo [])) =
     Inr \<lparr>r_released = True, r_seatId = Some ''s2''\<rparr> \<and>
   (\<exists>now. holds (committed (snd (releaseHold ''h2'' ''user_cancelled'' ''t'' ''e'' 1000 (demo [])))) =
     upd_where (\<lambda>x. h_id x = ''h2'') (release_row now) (holds demo_db))"
proof -
  let ?op = "releaseHold ''h2'' ''user_cancelled'' ''t'' ''e'' 1000 (demo [])"
  have r: "fst ?op = Inr \<lparr>r_released = True, r_seatId = Some ''s2''\<rparr>" by code_simp
  have f: "find (\<lambda>h. h_id h = ''h2'' \<and> held h) (holds demo_db) = Some (demo_hold ''h2'' ''s2'' ''u2'' 500)"
    by code_simp
  from releaseHold_effect [OF _ _ _ _ run_pair [OF r]] f r show ?thesis
    by (auto simp: demo_schema_ok)
qed

text \<open>reserveHold on a reliable, undisturbed connection. If the event has not been consumed by the
  group and the hold is held, the hold becomes RESERVED, its seat is shown as reserved, the event is
  recorded as consumed and one seat.reserved.v1 event is appended, all in one; otherwise nothing
  changes and reserved is false.\<close>

theorem reserveHold_effect:
  fixes s :: seat_proc
  assumes "quiet s" "reliable s" "tx s = None" and "seat_schema_ok (committed s)"
    and "reserveHold holdId eventId cg traceId newEventId occ s = (r, s')"
  shows "case find (\<lambda>h. h_id h = holdId \<and> held h \<and> (eventId, cg) \<notin> set (consumed_events (committed s)))
        (holds (committed s)) of
      None \<Rightarrow> r = Inr not_reserved \<and> committed s' = committed s
    | Some h \<Rightarrow>
        r = Inr \<lparr>q_reserved = True, q_seatId = Some (h_seat_id h), q_userId = Some (h_user_id h)\<rparr> \<and>
        (\<exists>now.
          holds (committed s') =
            upd_where (\<lambda>x. h_id x = holdId) (reserve_row now) (holds (committed s)) \<and>
          seats (committed s') = upd_where (\<lambda>x. s_id x = h_seat_id h)
            (\<lambda>x. x\<lparr>s_status := SEAT_RESERVED\<rparr>) (seats (committed s)) \<and>
          consumed_events (committed s') = consumed_events (committed s) @ [(eventId, cg)] \<and>
          outbox (committed s') = outbox (committed s) @
            [new_outbox_row (Suc (outbox_seq (committed s))) now holdId ''seat.reserved.v1''
              (seat_reserved_payload newEventId (h_seat_id h) (h_user_id h) holdId traceId occ)
              [(''traceId'', traceId)]])"
proof -
  let ?d = "committed s"
  let ?spec = "reserve_hold_spec holdId eventId cg traceId newEventId occ"
  obtain now where sp: "case r of Inr a \<Rightarrow> ?spec now ?d = Inr (a, committed s')
      | Inl e \<Rightarrow> ?spec now ?d = Inl e \<and> committed s' = ?d"
    using reserve_hold.run_reliable [OF assms(1-3,5)] by blast
  show ?thesis
  proof (cases "find (\<lambda>h. h_id h = holdId \<and> held h \<and> (eventId, cg) \<notin> set (consumed_events ?d)) (holds ?d)")
    case None
    then have "(eventId, cg) \<in> set (consumed_events ?d) \<or>
      (\<forall>h \<in> set (holds ?d). h_id h = holdId \<longrightarrow> \<not> held h)" by (auto simp: find_None_iff)
    from reserve_hold_spec_noop [OF this] show ?thesis using sp None by (auto split: sum.splits)
  next
    case (Some h)
    then have h: "h \<in> set (holds ?d)" "h_id h = holdId" "held h" and
      new: "(eventId, cg) \<notin> set (consumed_events ?d)" using find_SomeD by fastforce+
    have eq: "upd_where (\<lambda>x. h_id x = holdId \<and> held x) (reserve_row now) (holds ?d) =
        upd_where (\<lambda>x. h_id x = holdId) (reserve_row now) (holds ?d)"
      using hold_by_id_unique [OF assms(4) _ h(1)] h(2,3) by (auto simp: upd_where_def)
    show ?thesis
      unfolding Some option.case
      using sp reserve_hold_spec_held [OF assms(4) h(1,3) new, of traceId newEventId occ now] eq
      unfolding h(2) by (intro conjI exI [of _ now]) (auto split: sum.splits)
  qed
qed

theorem reserveHold_effect_witness:
  "fst (reserveHold ''h3'' ''p1'' ''seat-service'' ''t'' ''e'' 1000 (demo [])) =
     Inr \<lparr>q_reserved = True, q_seatId = Some ''s3'', q_userId = Some ''u3''\<rparr> \<and>
   consumed_events (committed (snd (reserveHold ''h3'' ''p1'' ''seat-service'' ''t'' ''e'' 1000 (demo [])))) =
     [(''p1'', ''seat-service'')]"
proof -
  let ?op = "reserveHold ''h3'' ''p1'' ''seat-service'' ''t'' ''e'' 1000 (demo [])"
  have r: "fst ?op = Inr \<lparr>q_reserved = True, q_seatId = Some ''s3'', q_userId = Some ''u3''\<rparr>" by code_simp
  have f: "find (\<lambda>h. h_id h = ''h3'' \<and> held h \<and> (''p1'', ''seat-service'') \<notin> set (consumed_events demo_db))
      (holds demo_db) = Some (demo_hold ''h3'' ''s3'' ''u3'' 100000)"
    by code_simp
  have c: "consumed_events demo_db = []" by code_simp
  from reserveHold_effect [OF _ _ _ _ run_pair [OF r]] f r show ?thesis
    by (auto simp: demo_schema_ok c)
qed

text \<open>POST /api/seats/:id/release gives back one's own hold and nobody else's. On a reliable,
  undisturbed connection the handler always returns; if the seat's live hold is the caller's, that
  hold is released, one seat:released message is emitted and counted; otherwise (no hold, or another
  user's) neither the database nor the bus changes.\<close>

theorem seats_release_only_own:
  fixes s :: seat_proc
  assumes "quiet s" "reliable s" "tx s = None" and "seat_schema_ok (committed s)"
    and "seats_release eventId occ fresh seatId userId header s = (r, s')"
  shows "r = Inr () \<and> release_done userId seatId (committed s) s s'"
  using assms by (rule seats_release_reliable)

theorem seats_release_only_own_witness:
  "committed (snd (seats_release ''e'' 1000 ''t'' ''s3'' ''u2'' None (demo []))) = demo_db"
proof -
  let ?op = "seats_release ''e'' 1000 ''t'' ''s3'' ''u2'' None (demo [])"
  have r: "fst ?op = Inr ()" by code_simp
  have n: "\<not> (\<exists>h \<in> set (holds demo_db). held h \<and> h_seat_id h = ''s3'' \<and> h_user_id h = ''u2'')"
    by code_simp
  from seats_release_only_own [OF _ _ _ _ run_pair [OF r]] n show ?thesis
    unfolding release_done_def by (simp add: demo_schema_ok)
qed

text \<open>GET /api/seats lists every seat exactly once, in the order of the labels, although the query
  joins the holds: at most one held hold can match a seat.\<close>

theorem listAll_once_per_seat:
  fixes s :: seat_proc and coll :: "string \<Rightarrow> 'k::linorder"
  assumes "quiet s" "reliable s" "tx s = None" and "seat_schema_ok (committed s)"
    and "listAll coll s = (r, s')"
  shows "\<exists>vs. r = Inr vs \<and> committed s' = committed s \<and>
    sorted (map (\<lambda>v. coll (s_label (v_seat v))) vs) \<and>
    mset (map v_seat vs) = mset (seats (committed s))"
proof -
  obtain now where sp: "case r of Inr a \<Rightarrow> select_seats coll now (committed s) = Inr (a, committed s')
      | Inl e \<Rightarrow> select_seats coll now (committed s) = Inl e \<and> committed s' = committed s"
    using autocommit.run_reliable [OF assms(1-3) assms(5) [unfolded listAll_def]] by blast
  show ?thesis
  proof (cases r)
    case (Inl e)
    then show ?thesis using sp by (simp add: select_seats_def)
  next
    case (Inr vs)
    then have "select_seats coll now (committed s) = Inr (vs, committed s')" using sp by simp
    from listed_seats [OF assms(4) this] Inr show ?thesis by blast
  qed
qed

theorem listAll_once_per_seat_witness:
  "\<exists>vs. fst (listAll length (demo [])) = Inr vs \<and> mset (map v_seat vs) = mset (seats demo_db)"
proof -
  obtain r s' where r: "listAll length (demo []) = (r, s')" by (cases "listAll length (demo [])")
  have "\<exists>vs. r = Inr vs \<and> committed s' = committed (demo []) \<and>
      sorted (map (\<lambda>v. length (s_label (v_seat v))) vs) \<and>
      mset (map v_seat vs) = mset (seats (committed (demo [])))"
    by (rule listAll_once_per_seat [OF _ _ _ _ r]) (simp_all add: demo_schema_ok)
  then show ?thesis by (simp add: r) blast
qed

subsection \<open>Invariants of the service\<close>

text \<open>C3: No double booking, and no leaked connection. From a state whose database is well formed, every
  state the service reaches, through any sequence of requests, sweeps and messages with any failures
  of the database and any replicas in between, has a database that is well formed (seat_db_ok: keys,
  the two unique indexes, foreign key, seats shown as their holds say), so that two distinct held
  holds differ in seat and in user; no transaction is left open and as many connections are lent as
  at the start.\<close>

theorem seat_service_invariant:
  assumes "seat_reach env z json_parse s s'" and "seat_db_ok (committed s)" and "tx s = None"
  shows "seat_db_ok (committed s') \<and> tx s' = None \<and> checked_out s' = checked_out s \<and>
    (\<forall>h \<in> set (holds (committed s')). \<forall>h' \<in> set (holds (committed s')).
       held h \<and> held h' \<and> h \<noteq> h' \<longrightarrow> h_seat_id h \<noteq> h_seat_id h' \<and> h_user_id h \<noteq> h_user_id h')"
proof -
  have "settled_at (committed s) (checked_out s) s'"
    using assms(1,3) by (rule seat_reach_settled)
  then have ok: "seat_db_ok (committed s')" and "tx s' = None" "checked_out s' = checked_out s"
    using assms(2) by (auto simp: settled_at_def seat_rel_def)
  moreover have "seat_schema_ok (committed s')" using ok by (simp add: seat_db_ok_def)
  ultimately show ?thesis using held_seat_unique held_user_unique by blast
qed

lemma demo_step:
  "seat_step demo_env z json_parse (demo []) (snd (seats_hold demo_env demo_fresh ''s1'' (Some (JObj [])) ''u1'' None (demo [])))"
  by (rule seat_step_in.hold [of replicas "[]" demo_env demo_fresh "''s1''" "Some (JObj [])" "''u1''" None "demo []"
        "fst (seats_hold demo_env demo_fresh ''s1'' (Some (JObj [])) ''u1'' None (demo []))"])
    (simp_all add: obeys_def demo_def)

lemma demo_reach:
  "seat_reach demo_env z json_parse (demo []) (snd (seats_hold demo_env demo_fresh ''s1'' (Some (JObj [])) ''u1'' None (demo [])))"
  by (rule seat_reach.step [OF seat_reach.start demo_step])

theorem seat_service_invariant_witness:
  "seat_db_ok (committed (snd (seats_hold demo_env demo_fresh ''s1'' (Some (JObj [])) ''u1'' None (demo []))))"
  using seat_service_invariant [OF demo_reach] by (simp add: demo_db_ok)

text \<open>C6: A hold's life. Along any such sequence no hold disappears, its seat, user, deadline and date
  of creation never change, and once RELEASED or RESERVED it never changes again: a paid seat is not
  taken back and a released hold is not revived.\<close>

theorem hold_life:
  assumes "seat_reach env z json_parse s s'" and "seat_db_ok (committed s)" and "tx s = None"
    and "h \<in> set (holds (committed s))"
  shows "\<exists>h' \<in> set (holds (committed s')).
    h_id h' = h_id h \<and> h_seat_id h' = h_seat_id h \<and> h_user_id h' = h_user_id h \<and>
    h_held_until h' = h_held_until h \<and> h_created_at h' = h_created_at h \<and>
    (h_status h \<noteq> HELD \<longrightarrow> h' = h)"
proof -
  have "settled_at (committed s) (checked_out s) s'"
    using assms(1,3) by (rule seat_reach_settled)
  then have "evolves (committed s) (committed s')"
    using assms(2) by (auto simp: settled_at_def seat_rel_def)
  then obtain hs new where hs: "holds (committed s') = hs @ new" "list_all2 hold_evolves (holds (committed s)) hs"
    by (auto simp: evolves_def)
  obtain i where i: "i < length (holds (committed s))" "h = holds (committed s) ! i"
    using assms(4) by (auto simp: in_set_conv_nth)
  then have "hold_evolves h (hs ! i)" "hs ! i \<in> set hs"
    using hs(2) by (auto simp: list_all2_conv_all_nth)
  then show ?thesis using hs(1) by (auto simp: hold_evolves_def)
qed

theorem hold_life_witness:
  "\<exists>h' \<in> set (holds (committed (snd (seats_hold demo_env demo_fresh ''s1'' (Some (JObj [])) ''u1'' None (demo []))))).
     h_id h' = ''h2'' \<and> h_seat_id h' = ''s2''"
proof -
  have "demo_hold ''h2'' ''s2'' ''u2'' 500 \<in> set (holds (committed (demo [])))" by (simp add: demo_db_def)
  from hold_life [OF demo_reach _ _ this] show ?thesis by (auto simp: demo_db_ok demo_hold_def)
qed

subsection \<open>The sweeper\<close>

text \<open>C14: A sweep releases expired holds only. On a reliable, undisturbed connection a tick releases,
  at the instant of its BEGIN, \<open>begun s\<close>, a set of at most SWEEP_BATCH_LIMIT holds all of which are held
  and past their deadline then, leaves every other hold alone, and appends exactly one seat.released.v1 event with reason
  sweeper for each of them, in the order of the table; and if the scan meets every expired hold and
  they fit the batch, no expired hold is left.\<close>

theorem sweep_releases_expired:
  fixes s :: seat_proc
  assumes "quiet s" "reliable s" "tx s = None" and "seat_schema_ok (committed s)" and "scan_ok scan"
    and "sweep_tick env scan traceId fresh occ s = (r, s')"
  shows "r = Inr () \<and> (\<exists>batch.
    batch = swept scan (SWEEP_BATCH_LIMIT env) (begun s) (committed s) \<and>
    length batch \<le> SWEEP_BATCH_LIMIT env \<and> (\<forall>h \<in> set batch. expired (begun s) h) \<and>
    holds (committed s') = upd_where (\<lambda>h. h \<in> set batch) (release_row (begun s)) (holds (committed s)) \<and>
    map (\<lambda>r. (o_aggregate_id r, o_event_type r, o_payload r)) (outbox (committed s')) =
      map (\<lambda>r. (o_aggregate_id r, o_event_type r, o_payload r)) (outbox (committed s)) @
      map (\<lambda>(i, h). (h_id h, ''seat.released.v1'',
        seat_released_payload (fresh i) (h_seat_id h) ''sweeper'' traceId (occ i))) (enumerate 0 batch) \<and>
    (set (scan (filter (expired (begun s)) (holds (committed s)))) = {h \<in> set (holds (committed s)). expired (begun s) h} \<and>
     length (scan (filter (expired (begun s)) (holds (committed s)))) \<le> SWEEP_BATCH_LIMIT env \<longrightarrow>
       (\<forall>h \<in> set (holds (committed s')). \<not> expired (begun s) h)))"
proof -
  let ?d = "committed s" and ?L = "SWEEP_BATCH_LIMIT env" and ?now = "begun s"
  let ?spec = "sweep_spec env scan traceId fresh occ"
  have sp: "case r of Inr a \<Rightarrow> ?spec ?now ?d = Inr (a, committed s')
      | Inl e \<Rightarrow> ?spec ?now ?d = Inl e \<and> committed s' = ?d"
    by (rule sweep.run_dated [OF assms(1-3,6)])
  then have r: "r = Inr ()" and d': "?spec ?now ?d = Inr ((), committed s')"
    by (auto simp: sweep_spec_def Let_def split: sum.splits)
  let ?batch = "swept scan ?L ?now ?d"
  have hs: "holds (committed s') = upd_where (\<lambda>h. h_id h \<in> set (sweep_batch scan ?L ?now ?d)) (release_row ?now) (holds ?d)"
    using sweep_spec_holds [OF d'] .
  also have "\<dots> = upd_where (\<lambda>h. h \<in> set ?batch) (release_row ?now) (holds ?d)"
    by (auto simp: upd_where_def swept_def)
  finally have 1: "holds (committed s') = upd_where (\<lambda>h. h \<in> set ?batch) (release_row ?now) (holds ?d)" .
  have 2: "map (\<lambda>r. (o_aggregate_id r, o_event_type r, o_payload r)) (outbox (committed s')) =
      map (\<lambda>r. (o_aggregate_id r, o_event_type r, o_payload r)) (outbox ?d) @
      map (\<lambda>(i, h). (h_id h, ''seat.released.v1'',
        seat_released_payload (fresh i) (h_seat_id h) ''sweeper'' traceId (occ i))) (enumerate 0 ?batch)"
  proof -
    have "enumerate 0 (map f xs) = map (\<lambda>(i, x). (i, f x)) (enumerate 0 xs)" for f :: "hold_row \<Rightarrow> uuid \<times> uuid" and xs
      by (simp add: enumerate_eq_zip zip_map2 split_def)
    moreover have "committed s' = fold (sweep_row_db traceId fresh occ ?now)
        (enumerate 0 (map (\<lambda>h. (h_id h, h_seat_id h)) ?batch))
        (update_holds (\<lambda>h. h_id h \<in> set (sweep_batch scan ?L ?now ?d)) (release_row ?now) ?d)"
      using d' by (simp add: sweep_spec_def Let_def)
    ultimately show ?thesis by (simp add: fold_sweep_outbox split_def)
  qed
  have 3: "set (scan (filter (expired ?now) (holds ?d))) = {h \<in> set (holds ?d). expired ?now h} \<and>
      length (scan (filter (expired ?now) (holds ?d))) \<le> ?L \<longrightarrow>
      (\<forall>h \<in> set (holds (committed s')). \<not> expired ?now h)"
    unfolding hs ball_upd_where using sweep_complete [of scan ?now ?d ?L] by auto
  have 4: "length ?batch \<le> ?L" using assms(4) by (rule length_swept)
  have 5: "\<forall>h \<in> set ?batch. expired ?now h"
    using swept_expired [OF assms(4,5)] by (auto simp: swept_def simp del: imp_conjL)
  show ?thesis
    by (intro conjI exI [of _ ?batch]) (rule r refl 1 2 3 4 5)+
qed

theorem sweep_releases_expired_witness:
  "fst (sweep_tick demo_env id ''t'' (\<lambda>i. ''e'') (\<lambda>i. 1000) (demo [])) = Inr () \<and>
   map h_status (holds (committed (snd (sweep_tick demo_env id ''t'' (\<lambda>i. ''e'') (\<lambda>i. 1000) (demo []))))) =
     [RELEASED, HELD]"
proof -
  have "scan_ok id" by (simp add: scan_ok_def)
  then have "fst (sweep_tick demo_env id ''t'' (\<lambda>i. ''e'') (\<lambda>i. 1000) (demo [])) = Inr ()"
    by (intro sweep_releases_expired [THEN conjunct1, OF _ _ _ _ _ surjective_pairing]) (simp_all add: demo_schema_ok)
  moreover have "map h_status (holds (committed (snd (sweep_tick demo_env id ''t'' (\<lambda>i. ''e'') (\<lambda>i. 1000) (demo []))))) =
     [RELEASED, HELD]" by code_simp
  ultimately show ?thesis by blast
qed

text \<open>The sweeper may announce a release that never happens: the bus message is emitted inside the
  transaction, so when COMMIT fails the clients have been told that the seat is free while the hold
  is still held.\<close>

theorem sweep_announces_uncommitted:
  "\<exists>s :: seat_proc. quiet s \<and> tx s = None \<and> seat_db_ok (committed s) \<and>
     (case sweep_tick demo_env id ''t'' (\<lambda>i. ''e'') (\<lambda>i. 1000) s of (r, s') \<Rightarrow>
        r = Inl (fault_exn Conn_Lost) \<and> committed s' = committed s \<and>
        bus s' = bus s @ [Bus_Released (Some ''s2'')])"
proof (intro exI conjI)
  let ?s = "demo (replicate 5 fine @ [failing])"
  show "quiet ?s" "tx ?s = None" "seat_db_ok (committed ?s)" by (simp_all add: demo_db_ok)
  show "case sweep_tick demo_env id ''t'' (\<lambda>i. ''e'') (\<lambda>i. 1000) ?s of (r, s') \<Rightarrow>
        r = Inl (fault_exn Conn_Lost) \<and> committed s' = committed ?s \<and>
        bus s' = bus ?s @ [Bus_Released (Some ''s2'')]"
    by code_simp
qed

text \<open>A paid seat can be sold again: insertHoldTx looks at the holds only, so a seat shown as RESERVED
  whose reserved hold is not HELD any more is granted to the next user.\<close>

theorem reserved_seat_held_again:
  "\<exists>s :: seat_proc. quiet s \<and> reliable s \<and> tx s = None \<and> seat_db_ok (committed s) \<and>
     (\<exists>x \<in> set (seats (committed s)). s_id x = ''s3'' \<and> s_status x = SEAT_RESERVED) \<and>
     (\<exists>x \<in> set (holds (committed s)). h_seat_id x = ''s3'' \<and> h_status x = RESERVED) \<and>
     (\<exists>h. fst (insertHoldTx demo_env 1000 ''h1'' ''e1'' 1000 ''s3'' ''u1'' ''t1'' s) = Inr (Hold_Ok h))"
proof (intro exI conjI)
  let ?s = "snd (reserveHold ''h3'' ''p1'' ''seat-service'' ''t'' ''e'' 1000 (demo []))"
  have "script ?s = []" by code_simp
  then show "quiet ?s" "reliable ?s" by (simp_all add: quiet_def reliable_def)
  show "tx ?s = None" "seat_db_ok (committed ?s)"
    "\<exists>x \<in> set (seats (committed ?s)). s_id x = ''s3'' \<and> s_status x = SEAT_RESERVED"
    "\<exists>x \<in> set (holds (committed ?s)). h_seat_id x = ''s3'' \<and> h_status x = RESERVED"
    "fst (insertHoldTx demo_env 1000 ''h1'' ''e1'' 1000 ''s3'' ''u1'' ''t1'' ?s) = Inr (Hold_Ok
       \<lparr>h_id = ''h1'', h_seat_id = ''s3'', h_user_id = ''u1'', h_status = HELD,
        h_held_until = 121000, h_created_at = 1000, h_released_at = None, h_reserved_at = None\<rparr>)"
    by code_simp+
qed

subsection \<open>Consuming payment events\<close>

text \<open>C12: The handler of payment events never throws and settles every delivery: a message that is not
  an event of the contracts goes to the dead letter queue and changes nothing; an event is acknowledged
  only when its effect has been committed; and if the database fails it is given back, the effect
  being either absent or, when only the answer was lost, complete.\<close>

theorem payment_event_settled:
  fixes s :: seat_proc
  assumes "quiet s" and "tx s = None"
    and "handle_payment_event z json_parse newEventId occ content s = (r, s')"
  shows "tx s' = None \<and> checked_out s' = checked_out s \<and>
    (case parse_event (AnyEvent z) json_parse content of
       None \<Rightarrow> r = Inr (Nack False) \<and> committed s' = committed s
     | Some ev \<Rightarrow>
         r = Inr Ack \<and> effect_done ev (committed s) (committed s') \<or>
         r = Inr (Nack True) \<and> (committed s' = committed s \<or> effect_done ev (committed s) (committed s')))"
  using assms by (rule handle_quiet)

definition demo_uuid :: "char \<Rightarrow> uuid" where
  "demo_uuid c = replicate 8 c @ ''-'' @ replicate 4 c @ ''-'' @ replicate 4 c @ ''-'' @ replicate 4 c @
     ''-'' @ replicate 12 c"

definition demo_failed :: json where
  "demo_failed = JObj [(''schema'', JStr ''payment.failed.v1''), (''eventId'', JStr (demo_uuid CHR ''a'')),
     (''paymentIntentId'', JStr (demo_uuid CHR ''b'')), (''seatId'', JStr (demo_uuid CHR ''c'')),
     (''userId'', JStr (demo_uuid CHR ''d'')), (''holdId'', JStr (demo_uuid CHR ''e'')),
     (''reason'', JStr ''card_declined''), (''traceId'', JStr (demo_uuid CHR ''f'')),
     (''occurredAt'', JStr (toISOString 0))]"

theorem payment_event_settled_witness:
  "fst (handle_payment_event zod_shapes (\<lambda>c. Some demo_failed) ''e'' 0 ''msg'' (demo [failing])) =
     Inr (Nack True) \<and>
   fst (handle_payment_event zod_shapes (\<lambda>c. None) ''e'' 0 ''msg'' (demo [failing])) = Inr (Nack False) \<and>
   committed (snd (handle_payment_event zod_shapes (\<lambda>c. None) ''e'' 0 ''msg'' (demo [failing]))) = demo_db"
proof -
  have q: "quiet (demo [failing])" by (simp add: quiet_def demo_def failing_def)
  have "fst (handle_payment_event zod_shapes (\<lambda>c. Some demo_failed) ''e'' 0 ''msg'' (demo [failing])) =
     Inr (Nack True)" by code_simp
  then show ?thesis
    using payment_event_settled [OF q _ surjective_pairing, of zod_shapes "\<lambda>c. None" "''e''" 0 "''msg''"]
    by (simp add: parse_event_def)
qed

text \<open>C11: Delivered at least once, applied once. However many times the broker delivers an event and
  however the deliveries fail, once it is acknowledged the database is the original one with the
  event's effect applied exactly once; until then it is that or untouched.\<close>

theorem payment_event_applied_once:
  assumes "parse_event (AnyEvent z) json_parse content = Some ev"
    and "\<forall>(sc, x) \<in> set ds. \<forall>t \<in> set sc. others t = id"
    and "tx s = None" and "deliveries z json_parse content ds s = (v, s')"
  shows "(v = None \<or> v = Some Ack) \<and> tx s' = None \<and>
    (effect_done ev (committed s) (committed s') \<or> v = None \<and> committed s' = committed s)"
  using assms by (rule deliveries_effect)

theorem payment_event_applied_once_witness:
  "fst (deliveries zod_shapes (\<lambda>c. Some demo_failed) ''msg'' [([failing], ''e1'', 0), ([], ''e2'', 0)] (demo [])) =
     Some Ack \<and>
   (\<exists>ev. effect_done ev demo_db (committed (snd
      (deliveries zod_shapes (\<lambda>c. Some demo_failed) ''msg'' [([failing], ''e1'', 0), ([], ''e2'', 0)] (demo [])))))"
proof -
  let ?ds = "[([failing], ''e1'', 0), ([], ''e2'', 0)] :: delivery list"
  have r: "fst (deliveries zod_shapes (\<lambda>c. Some demo_failed) ''msg'' ?ds (demo [])) = Some Ack" by code_simp
  obtain ev where ev: "parse_event (AnyEvent zod_shapes) (\<lambda>c. Some demo_failed) ''msg'' = Some ev"
  proof -
    have "parse_event (AnyEvent zod_shapes) (\<lambda>c. Some demo_failed) ''msg'' \<noteq> None" by code_simp
    then show ?thesis using that by blast
  qed
  have q: "\<forall>(sc, x) \<in> set ?ds. \<forall>t \<in> set sc. others t = id" by (simp add: failing_def)
  from payment_event_applied_once [OF ev q _ run_pair [OF r]] r show ?thesis by auto
qed

text \<open>C16: The events the seat service publishes are events of the contracts: when the ids are UUIDs, the
  dates lie in the supported range, the price is not negative and the currency has three letters, the
  payload of each of its three outbox rows is accepted by its schema and read back field by field.\<close>

theorem seat_events_conform:
  assumes "zod_documented z" and "is_uuid eventId" "is_uuid seatId" "is_uuid userId" "is_uuid holdId"
    "is_uuid traceId" and "date_ok until" "date_ok occ" and "0 \<le> price" and "length currency = 3"
    and "reason \<in> set release_reasons"
  shows
    "SeatHeldV1 z (seat_held_payload eventId seatId userId holdId until price currency traceId occ) =
       Some (SeatHeld \<lparr>m_eventId = eventId, m_traceId = traceId, m_occurredAt = toISOString occ\<rparr>
         seatId userId holdId (toISOString until) price currency) \<and>
     SeatReleasedV1 z (seat_released_payload eventId seatId reason traceId occ) =
       Some (SeatReleased \<lparr>m_eventId = eventId, m_traceId = traceId, m_occurredAt = toISOString occ\<rparr>
         seatId None reason) \<and>
     SeatReservedV1 z (seat_reserved_payload eventId seatId userId holdId traceId occ) =
       Some (SeatReserved \<lparr>m_eventId = eventId, m_traceId = traceId, m_occurredAt = toISOString occ\<rparr>
         seatId userId holdId)"
  using assms by (simp add: seat_held_payload_conforms seat_released_payload_conforms
    seat_reserved_payload_conforms)

theorem seat_events_conform_witness:
  "SeatReleasedV1 zod_shapes (seat_released_payload (demo_uuid CHR ''a'') (demo_uuid CHR ''c'') ''sweeper''
     (demo_uuid CHR ''f'') 0) \<noteq> None"
proof -
  have u: "is_uuid (demo_uuid CHR ''a'')" "is_uuid (demo_uuid CHR ''c'')" "is_uuid (demo_uuid CHR ''f'')"
    by code_simp+
  from seat_events_conform [OF zod_shapes_documented u(1,2,1,1,3), of 0 0 0 "''USD''" "''sweeper''"]
  show ?thesis by (simp add: date_ok_def release_reasons_def)
qed

end
