(* ===== verification/Outbox_Properties.thy ===== *)
theory Outbox_Properties
  imports Outbox_Worker Seat_Properties
begin

text \<open>
  What the outbox worker promises: no event is lost, the retry policy, the routing of the events of
  the contracts; that the repositories of the seat service are sessions it may run beside, and that
  its own statements are sessions the seat service may run beside (what \<open>Announcing\<close> composes); and two
  ways in which it misses its promise.
\<close>

subsection \<open>One row\<close>

lemma wp_update_alone:
  fixes s1 :: "('d, 'x outbox_proc_ext) conn_scheme"
  assumes i1: "idle (alone False) d n m1 s1" and t: "\<And>now d. \<exists>d'. st now d = Inr ((), d')"
  shows "wp (query st) (\<lambda>_ s'. tx s' = None \<and> sent s' = sent s1 \<and> (\<exists>now. st now d = Inr ((), committed s')))
    (\<lambda>_ _. False) s1"
proof (rule wp_query_auto [OF i1])
  fix d0 now a d' and s2 :: "('d, 'x outbox_proc_ext) conn_scheme"
  assume a: "rel (alone False) d d0" "st now d0 = Inr (a, d')" "idle (alone False) d' n m1 s2"
  then have "conn.more s2 = conn.more s1" using i1 by (simp add: conn_state_defs)
  then show "tx s2 = None \<and> sent s2 = sent s1 \<and> (\<exists>now. st now d = Inr ((), committed s2))"
    using a idleD [OF a(3)] outbox_frame(1) by auto
next
  fix d0 now e s2 assume "st now d0 = Inl e" then show False using t [of now d0] by auto
qed simp_all

lemma wp_publish_alone:
  fixes s :: "('d, 'x outbox_proc_ext) conn_scheme"
  defines "ok \<equiv> case pub_fates s of [] \<Rightarrow> True | f # fs \<Rightarrow> f = Confirmed"
  assumes "idle (alone False) d n (conn.more s) s"
    and "\<And>m1 s1. ok \<Longrightarrow> idle (alone False) d n m1 s1 \<Longrightarrow> sent s1 = sent s @ [msg] \<Longrightarrow> Q True s1"
    and "\<And>m1 s1. \<not> ok \<Longrightarrow> idle (alone False) d n m1 s1 \<Longrightarrow> sent s1 = sent s \<Longrightarrow> Q False s1"
    and "\<And>e m1 s1. \<not> ok \<Longrightarrow> idle (alone False) d n m1 s1 \<Longrightarrow> sent s1 = sent s \<Longrightarrow> E e s1"
  shows "wp (publish msg) Q E s"
  using assms(2-5) unfolding ok_def
  by (auto simp: wp_def publish_def conn_state_defs split: list.split pub_fate.split)

lemma process_row_run:
  assumes "quiet s" "reliable s" "tx s = None" and "process_row exch row s = (r, s')"
  shows "r = Inr () \<and> tx s' = None \<and>
    (if (case pub_fates s of [] \<Rightarrow> True | f # fs \<Rightarrow> f = Confirmed)
     then sent s' = sent s @ [message_of exch row] \<and>
       (\<exists>now. delete_outbox (o_id row) now (committed s) = Inr ((), committed s'))
     else sent s' = sent s \<and>
       (let n = Suc (o_attempts row) in \<exists>now.
          (if MAX_ATTEMPTS \<le> n then mark_dead n (o_id row) else reschedule n (backoff_ms n) (o_id row))
            now (committed s) = Inr ((), committed s')))"
proof -
  let ?i = "o_id row" and ?n = "Suc (o_attempts row)"
  have i: "idle (alone False) (committed s) (checked_out s) (conn.more s) s"
    using assms(1-3) by (rule reliable_idle)
  have tot: "\<exists>d'. delete_outbox ?i now d = Inr ((), d')" "\<exists>d'. mark_dead ?n ?i now d = Inr ((), d')"
    "\<exists>d'. reschedule ?n (backoff_ms ?n) ?i now d = Inr ((), d')" for now d
    by (simp_all add: outbox_stmt_defs)
  let ?ok = "case pub_fates s of [] \<Rightarrow> True | f # fs \<Rightarrow> f = Confirmed"
  let ?Q = "\<lambda>(u :: unit) s'. tx s' = None \<and> (if ?ok
     then sent s' = sent s @ [message_of exch row] \<and>
       (\<exists>now. delete_outbox ?i now (committed s) = Inr ((), committed s'))
     else sent s' = sent s \<and> (\<exists>now. (if MAX_ATTEMPTS \<le> ?n then mark_dead ?n ?i
       else reschedule ?n (backoff_ms ?n) ?i) now (committed s) = Inr ((), committed s')))"
  have no: "wp (if MAX_ATTEMPTS \<le> ?n then query (mark_dead ?n ?i)
      else query (reschedule ?n (backoff_ms ?n) ?i)) ?Q (\<lambda>_ _. False) s1"
    if "idle (alone False) (committed s) (checked_out s) m1 s1" "sent s1 = sent s" "\<not> ?ok" for m1 s1
    using that(2,3) wp_mono [OF wp_update_alone [OF that(1) tot(2)]] wp_mono [OF wp_update_alone [OF that(1) tot(3)]] by simp
  have yes: "wp (query (delete_outbox ?i)) ?Q (\<lambda>_ _. False) s1"
    if "idle (alone False) (committed s) (checked_out s) m1 s1" "sent s1 = sent s @ [message_of exch row]" "?ok"
    for m1 s1
    using that(2,3) wp_mono [OF wp_update_alone [OF that(1) tot(1)]] by simp
  have "wp (process_row exch row) ?Q (\<lambda>_ _. False) s"
    unfolding process_row_def wp_bind wp_try wp_ret Let_def
    by (rule wp_publish_alone [OF i]) (use yes no in auto)
  from wpD [OF this assms(4)] show ?thesis by (auto simp: Let_def split: sum.splits if_splits)
qed

lemma backoff_bounds: "0 < n \<Longrightarrow> 2000 \<le> backoff_ms n \<and> backoff_ms n \<le> 256000"
proof -
  assume n: "0 < n"
  have "(2::int) ^ 1 \<le> 2 ^ min n 8" by (rule power_increasing) (use n in auto)
  moreover have "(2::int) ^ min n 8 \<le> 2 ^ 8" by (rule power_increasing) auto
  ultimately show ?thesis by (simp add: backoff_ms_def BASE_BACKOFF_MS_def)
qed

lemma upd_where_one:
  assumes "r \<in> set rows" and "distinct (map key rows)" and "\<And>x. key (f x) = key x"
  shows "x \<in> set (upd_where (\<lambda>x. key x = key r) f rows) \<and> key x = key r \<longleftrightarrow> x = f r"
proof -
  have "x \<in> set rows \<Longrightarrow> key x = key r \<Longrightarrow> x = r" for x
    using assms(1,2) by (auto simp: distinct_map dest: inj_onD)
  then show ?thesis
    using assms(1,3) by (auto simp: in_upd_where split: if_splits) metis+
qed

subsection \<open>The worker beside the seat service\<close>

lemma outbox_rel_cong: "outbox d' = outbox d \<Longrightarrow> outbox_seq d' = outbox_seq d \<Longrightarrow> outbox_rel d d'"
  by (simp add: outbox_rel_def evs_def outbox_ok_def)

lemma outbox_rel_append_to:
  "outbox d1 = outbox d \<Longrightarrow> outbox_seq d1 = outbox_seq d \<Longrightarrow> outbox_rel d (append_outbox now agg ty p hs d1)"
  using outbox_rel_trans [OF outbox_rel_cong outbox_rel_append] by blast

lemma outbox_rel_insert_hold:
  assumes "insert_hold_spec env nowJs holdId eventId occ seatId userId traceId now d = Inr (r, d')"
  shows "outbox_rel d d'"
proof (cases r)
  case (Hold_Conflict c)
  then show ?thesis using assms by (auto dest: insert_hold_spec_conflict)
next
  case (Hold_Ok h)
  then obtain d2 agg p hs where
    "insert_hold holdId seatId userId (nowJs + HOLD_TTL_SECONDS env * 1000) now
       (update_holds (\<lambda>h. h_seat_id h = seatId \<and> expired now h) (release_row now) d) = Inr (h, d2)"
    "d' = append_outbox now agg ''seat.held.v1'' p hs
      (update_seats (\<lambda>s. s_id s = seatId) (\<lambda>s. s\<lparr>s_status := SEAT_HELD\<rparr>) d2)"
    using assms by (auto simp: insert_hold_spec_def Let_def split: sum.splits if_splits)
  then show ?thesis
    using insert_hold_Inr by (fastforce intro: outbox_rel_append_to)
qed

lemma outbox_rel_release_hold:
  "release_hold_spec holdId reason traceId eventId occ now d = Inr (r, d') \<Longrightarrow> outbox_rel d d'"
  by (auto simp: release_hold_spec_def Let_def intro: outbox_rel_append_to split: if_splits)

lemma outbox_rel_reserve_hold:
  "reserve_hold_spec holdId eventId cg traceId newEventId occ now d = Inr (r, d') \<Longrightarrow> outbox_rel d d'"
  by (auto simp: reserve_hold_spec_def Let_def intro: outbox_rel_append_to split: if_splits)

lemma outbox_rel_fold:
  "outbox_rel d d1 \<Longrightarrow> outbox_rel d (fold (sweep_row_db traceId fresh occ now) xs d1)"
proof (induction xs arbitrary: d1)
  case (Cons x xs)
  obtain i hid k where x: "x = (i, hid, k)" by (cases x)
  have "outbox_rel d1 (sweep_row_db traceId fresh occ now x d1)"
    by (simp add: x sweep_row_db_def outbox_rel_append_to)
  then show ?case using Cons.IH outbox_rel_trans [OF Cons.prems] by simp
qed simp

lemma outbox_rel_sweep:
  "sweep_spec env scan traceId fresh occ now d = Inr (u, d') \<Longrightarrow> outbox_rel d d'"
  by (auto simp: sweep_spec_def Let_def intro!: outbox_rel_fold outbox_rel_cong)

lemma seat_rel_outbox:
  assumes "outbox_ok d \<Longrightarrow> outbox_ok (d\<lparr>outbox := rows\<rparr>)"
  shows "seat_rel d (d\<lparr>outbox := rows\<rparr>)"
proof -
  have "evolves d (d\<lparr>outbox := rows\<rparr>)"
    unfolding evolves_def
    by (rule conjI, rule exI [of _ "holds d"], rule exI [of _ "[]"]) (simp_all add: list_all2_same)
  moreover have "seat_db_ok (d\<lparr>outbox := rows\<rparr>)" if "seat_db_ok d"
    using that assms by (simp add: seat_db_ok_def seat_schema_ok_def seat_status_ok_def)
  ultimately show ?thesis by (simp add: seat_rel_def)
qed

lemma seat_rel_worker:
  "recover_stuck now d = Inr (u, d') \<Longrightarrow> seat_rel d d'"
  "select_pending locked now d = Inr (rows, d') \<Longrightarrow> seat_rel d d'"
  "mark_processing ids now d = Inr (u, d') \<Longrightarrow> seat_rel d d'"
  "delete_outbox i now d = Inr (u, d') \<Longrightarrow> seat_rel d d'"
  "mark_dead n i now d = Inr (u, d') \<Longrightarrow> seat_rel d d'"
  "reschedule n b i now d = Inr (u, d') \<Longrightarrow> seat_rel d d'"
proof -
  have upd: "outbox_ok (update_outbox P f d)" if "outbox_ok d" "\<And>r. ev_of (f r) = ev_of r" for P f
    using outbox_rel_update [of f d P, OF that(2)] that(1) by (simp add: outbox_rel_def)
  show "recover_stuck now d = Inr (u, d') \<Longrightarrow> seat_rel d d'"
    "mark_processing ids now d = Inr (u, d') \<Longrightarrow> seat_rel d d'"
    "mark_dead n i now d = Inr (u, d') \<Longrightarrow> seat_rel d d'"
    "reschedule n b i now d = Inr (u, d') \<Longrightarrow> seat_rel d d'"
    by (auto simp: outbox_stmt_defs update_outbox_def ev_of_def
        intro!: seat_rel_outbox upd [unfolded update_outbox_def])
  show "select_pending locked now d = Inr (rows, d') \<Longrightarrow> seat_rel d d'"
    using seat_rel_preorder(1) by (auto simp: select_pending_def dest: reflpD)
  show "delete_outbox i now d = Inr (u, d') \<Longrightarrow> seat_rel d d'"
    by (auto simp: delete_outbox_def outbox_ok_def distinct_map_filter intro!: seat_rel_outbox)
qed

subsection \<open>A worker's process on a small table\<close>

definition demo_row :: "nat \<Rightarrow> instant \<Rightarrow> nat \<Rightarrow> outbox_row" where
  "demo_row i due n =
     (new_outbox_row i 0 ''h1'' ''seat.released.v1'' JNull [])\<lparr>o_next_attempt_at := due, o_attempts := n\<rparr>"

definition demo_worker :: "outbox_row list \<Rightarrow> outbox_db tick list \<Rightarrow> pub_fate list \<Rightarrow> outbox_db outbox_proc" where
  "demo_worker rows sc fates =
     \<lparr>committed = \<lparr>outbox = rows, outbox_seq = 10\<rparr>, tx = None, tx_failed = False, tx_now = 1000000,
      script = sc, checked_out = 0, w_running = False, sent = [], pub_fates = fates\<rparr>"

definition timeout_at :: "nat \<Rightarrow> outbox_db tick list" where
  "timeout_at k = replicate k \<lparr>others = id, clock = 1000000, fate = Runs\<rparr> @
     [\<lparr>others = id, clock = 1000000, fate = Fails_before Stmt_Timeout\<rparr>]"

lemma demo_worker_sel [simp]:
  "tx (demo_worker rows sc fates) = None" "script (demo_worker rows sc fates) = sc"
  "committed (demo_worker rows sc fates) = \<lparr>outbox = rows, outbox_seq = 10\<rparr>"
  "quiet (demo_worker rows [] fates)" "reliable (demo_worker rows [] fates)"
  "\<not> w_running (demo_worker rows sc fates)" "pub_fates (demo_worker rows sc fates) = fates"
  "sent (demo_worker rows sc fates) = []"
  by (simp_all add: demo_worker_def quiet_def reliable_def)

subsection \<open>The promises\<close>

text \<open>C21: No event is lost by the outbox worker and none is invented. Whatever calls of the database and
  publishes fail during a tick, and whatever events of a set \<open>E\<close> other sessions append meanwhile, every
  event that was in the outbox before the tick is still in it afterwards, unless the broker has
  confirmed its message during the tick; every message confirmed during the tick is the message of an
  event of the outbox or of \<open>E\<close>, and so is every row afterwards an event of the outbox or of \<open>E\<close>; the worker
  is ready for its next tick, and if the tick returned the connection is idle.\<close>

theorem outbox_tick_loses_nothing:
  fixes s :: "('m outbox_db_scheme, 'x outbox_proc_ext) conn_scheme"
  assumes "\<forall>t \<in> set (script s). \<forall>d. outbox_rel d (others t d) \<and> evs (others t d) \<subseteq> evs d \<union> E" and "tx s = None"
    and "outbox_ok (committed s)" and "\<not> w_running s"
    and "outbox_tick exch locked s = (r, s')"
  shows "(\<exists>ms. sent s' = sent s @ ms \<and>
      (\<forall>row \<in> set (outbox (committed s)).
        (\<exists>row' \<in> set (outbox (committed s')). ev_of row' = ev_of row) \<or> message_of exch row \<in> set ms) \<and>
      (\<forall>m \<in> set ms. \<exists>k \<in> evs (committed s) \<union> E. m = message_ev exch k)) \<and>
    evs (committed s') \<subseteq> evs (committed s) \<union> E \<and>
    outbox_ok (committed s') \<and> \<not> w_running s' \<and> checked_out s' = checked_out s \<and>
    (\<forall>a. r = Inr a \<longrightarrow> tx s' = None)"
proof -
  have i: "idle (appending E) (committed s) (checked_out s) (conn.more s) s"
    using assms(1,2) appending_preorder [of E] by (auto simp: conn_state_defs)
  have k: "carrying exch E (committed s) (sent s) {} (committed s) (sent s)"
    using assms(3) by (simp add: carrying_def carried_refl)
  note after = carry.tick_run [OF i k assms(4,5)]
  then obtain ms where ms: "sent s' = sent s @ ms" "carried exch (committed s) (committed s') ms"
      "set ms \<subseteq> message_ev exch ` (evs (committed s) \<union> E)" and evs: "evs (committed s') \<subseteq> evs (committed s) \<union> E"
    by (auto simp: carrying_def)
  have kept: "(\<exists>row' \<in> set (outbox (committed s')). ev_of row' = ev_of row) \<or> message_of exch row \<in> set ms"
    if "row \<in> set (outbox (committed s))" for row
  proof -
    have "ev_of row \<in> evs (committed s)" using that by (simp add: evs_def)
    then have "ev_of row \<in> evs (committed s') \<or> message_ev exch (ev_of row) \<in> set ms"
      using ms(2) by (simp add: carried_def)
    then show ?thesis unfolding message_ev_of evs_def by (auto simp: eq_commute)
  qed
  have "outbox_ok (committed s')" using ms(2) by (simp add: carried_def)
  with after kept ms(1,3) evs show ?thesis by blast
qed

theorem outbox_tick_loses_nothing_witness:
  "\<exists>row' \<in> set (outbox (committed (snd (outbox_tick seat_exchange (\<lambda>_. False)
     (demo_worker [demo_row 1 0 0] [] [Unconfirmed]))))). ev_of row' = ev_of (demo_row 1 0 0)"
proof -
  let ?s = "demo_worker [demo_row 1 0 0] [] [Unconfirmed]"
  let ?op = "outbox_tick seat_exchange (\<lambda>_. False) ?s"
  have ok: "outbox_ok (committed ?s)" by (simp add: outbox_ok_def demo_row_def)
  have n: "sent (snd ?op) = []" by code_simp
  from outbox_tick_loses_nothing [where s = ?s and E = "{}", OF _ _ ok _ surjective_pairing [of ?op]]
  obtain ms where "sent (snd ?op) = ms" "\<forall>row \<in> set (outbox (committed ?s)).
      (\<exists>row' \<in> set (outbox (committed (snd ?op))). ev_of row' = ev_of row) \<or> message_of seat_exchange row \<in> set ms"
    by auto
  then show ?thesis using n by simp
qed

lemma process_row_retried:
  fixes d d' :: "'m outbox_db_scheme"
  assumes row: "row \<in> set (outbox d)" "distinct (map o_id (outbox d))" and n: "n = Suc (o_attempts row)"
    and u: "(if MAX_ATTEMPTS \<le> n then mark_dead n (o_id row) else reschedule n (backoff_ms n) (o_id row)) now d =
      Inr ((), d')"
  shows "\<exists>row'. (\<forall>x. x \<in> set (outbox d') \<and> o_id x = o_id row \<longleftrightarrow> x = row') \<and>
    o_attempts row' = n \<and> ev_of row' = ev_of row \<and>
    (if 10 \<le> n then o_state row' = DEAD
     else o_state row' = PENDING \<and>
       (\<exists>now. 2000 \<le> o_next_attempt_at row' - now \<and> o_next_attempt_at row' - now \<le> 256000 \<and>
          o_next_attempt_at row' = now + 1000 * 2 ^ min n 8))"
proof -
  let ?dead = "\<lambda>r. r\<lparr>o_state := DEAD, o_attempts := n, o_next_attempt_at := now + 3600000\<rparr>"
  let ?again = "\<lambda>r. r\<lparr>o_state := PENDING, o_attempts := n, o_next_attempt_at := now + backoff_ms n\<rparr>"
  define f :: "outbox_row \<Rightarrow> outbox_row" where "f = (if MAX_ATTEMPTS \<le> n then ?dead else ?again)"
  have o': "outbox d' = upd_where (\<lambda>x. o_id x = o_id row) f (outbox d)"
    using u by (auto simp: f_def mark_dead_def reschedule_def update_outbox_def split: if_splits)
  have id: "o_id (f x) = o_id x" for x by (simp add: f_def)
  have 1: "\<forall>x. x \<in> set (outbox d') \<and> o_id x = o_id row \<longleftrightarrow> x = f row"
    unfolding o' using upd_where_one [OF row, of f] id by blast
  have 2: "o_attempts (f row) = n" "ev_of (f row) = ev_of row" by (simp_all add: f_def ev_of_def)
  have 3: "if 10 \<le> n then o_state (f row) = DEAD
      else o_state (f row) = PENDING \<and>
        (\<exists>now. 2000 \<le> o_next_attempt_at (f row) - now \<and> o_next_attempt_at (f row) - now \<le> 256000 \<and>
           o_next_attempt_at (f row) = now + 1000 * 2 ^ min n 8)"
    using backoff_bounds [of n] n
    by (auto simp: f_def MAX_ATTEMPTS_def backoff_ms_def BASE_BACKOFF_MS_def)
  show ?thesis by (intro conjI exI [of _ "f row"]) (rule 1 2 3)+
qed

text \<open>The retry policy. Processing a row of the table on a reliable, undisturbed connection: when the
  broker confirms, its message has been sent to the exchange and routing key of its type and the row is
  gone; otherwise the row stays with one attempt more, DEAD once ten attempts have failed and before
  that PENDING again after a delay of 1000 * 2^min(attempts, 8) ms, between 2 and 256 seconds.\<close>

theorem process_row_policy:
  fixes s :: "('m outbox_db_scheme, 'x outbox_proc_ext) conn_scheme"
  assumes "quiet s" "reliable s" "tx s = None" and "row \<in> set (outbox (committed s))"
    and "distinct (map o_id (outbox (committed s)))"
    and "process_row exch row s = (r, s')"
  shows "r = Inr () \<and>
    (if (case pub_fates s of [] \<Rightarrow> True | f # fs \<Rightarrow> f = Confirmed)
     then sent s' = sent s @ [message_of exch row] \<and>
       outbox (committed s') = filter (\<lambda>x. o_id x \<noteq> o_id row) (outbox (committed s))
     else sent s' = sent s \<and>
       (\<exists>row'. (\<forall>x. x \<in> set (outbox (committed s')) \<and> o_id x = o_id row \<longleftrightarrow> x = row') \<and>
          o_attempts row' = Suc (o_attempts row) \<and> ev_of row' = ev_of row \<and>
          (if 10 \<le> Suc (o_attempts row) then o_state row' = DEAD
           else o_state row' = PENDING \<and>
             (\<exists>now. 2000 \<le> o_next_attempt_at row' - now \<and> o_next_attempt_at row' - now \<le> 256000 \<and>
                o_next_attempt_at row' = now + 1000 * 2 ^ min (Suc (o_attempts row)) 8))))"
proof (cases "case pub_fates s of [] \<Rightarrow> True | f # fs \<Rightarrow> f = Confirmed")
  case True
  then obtain now where r: "r = Inr ()" "sent s' = sent s @ [message_of exch row]"
    and u: "delete_outbox (o_id row) now (committed s) = Inr ((), committed s')"
    using process_row_run [OF assms(1-3,6)] by auto
  have "committed s' = (committed s)\<lparr>outbox := filter (\<lambda>x. o_id x \<noteq> o_id row) (outbox (committed s))\<rparr>"
    using u by (simp add: delete_outbox_def)
  then show ?thesis using True r by simp
next
  case False
  let ?n = "Suc (o_attempts row)"
  obtain now where r: "r = Inr ()" "sent s' = sent s" and
    u: "(if MAX_ATTEMPTS \<le> ?n then mark_dead ?n (o_id row) else reschedule ?n (backoff_ms ?n) (o_id row))
            now (committed s) = Inr ((), committed s')"
    using process_row_run [OF assms(1-3,6)] False by (auto simp: Let_def)
  show ?thesis
    unfolding if_not_P [OF False] using r process_row_retried [OF assms(4,5) refl u] by blast
qed

theorem process_row_policy_witness:
  "fst (process_row seat_exchange (demo_row 1 0 9) (demo_worker [demo_row 1 0 9] [] [Unconfirmed])) = Inr () \<and>
   map o_state (outbox (committed (snd (process_row seat_exchange (demo_row 1 0 9)
     (demo_worker [demo_row 1 0 9] [] [Unconfirmed]))))) = [DEAD]"
proof -
  let ?s = "demo_worker [demo_row 1 0 9] [] [Unconfirmed]"
  have "fst (process_row seat_exchange (demo_row 1 0 9) ?s) = Inr ()"
    by (rule process_row_policy [THEN conjunct1, OF _ _ _ _ _ surjective_pairing]) simp_all
  moreover have "map o_state (outbox (committed (snd (process_row seat_exchange (demo_row 1 0 9) ?s)))) = [DEAD]"
    by code_simp
  ultimately show ?thesis by blast
qed

text \<open>Routing. For every event of the contracts, the routing key the worker derives from its type by
  dropping the version is one of ROUTING_KEYS, and both services choose the same exchange: seat.events
  for the seat events, payment.events for the payment events.\<close>

theorem outbox_routing:
  "strip_version (event_schema ev) \<in> snd ` set ROUTING_KEYS \<and>
   seat_exchange (event_schema ev) = payment_exchange (event_schema ev) \<and>
   seat_exchange (event_schema ev) =
     (case ev of SeatHeld _ _ _ _ _ _ _ \<Rightarrow> SEAT_EVENTS | SeatReleased _ _ _ _ \<Rightarrow> SEAT_EVENTS
      | SeatReserved _ _ _ _ \<Rightarrow> SEAT_EVENTS | _ \<Rightarrow> PAYMENT_EVENTS)"
proof -
  have "strip_version x \<in> snd ` set ROUTING_KEYS"
    if "x \<in> set [''seat.held.v1'', ''seat.released.v1'', ''seat.reserved.v1'', ''payment.succeeded.v1'',
        ''payment.failed.v1'']" for x
  proof -
    have "strip_version x \<in> set (map strip_version [''seat.held.v1'', ''seat.released.v1'',
        ''seat.reserved.v1'', ''payment.succeeded.v1'', ''payment.failed.v1''])"
      using that by fastforce
    then show ?thesis unfolding strip_version_schemas(1) by simp
  qed
  then show ?thesis
    by (cases ev) (simp_all add: seat_exchange_def payment_exchange_def starts_with_def)
qed

text \<open>A row can be published twice at once. Recovery goes by next_attempt_at, which marking a row
  PROCESSING does not touch: a row that has been due for more than five minutes and that a worker has
  just marked is made PENDING again by the next worker's recovery, at the same instant, and selected by
  it.\<close>

theorem recovery_takes_fresh_row:
  assumes "row \<in> set (outbox d)" and "o_next_attempt_at row < now - 300000" and "o_id row \<in> set ids"
    and "mark_processing ids now d = Inr (u, d1)" and "recover_stuck now d1 = Inr (u', d2)"
    and "length (outbox d) \<le> 100" and "select_pending (\<lambda>_. False) now d2 = Inr (rows, d3)"
  shows "\<exists>row' \<in> set rows. ev_of row' = ev_of row"
proof -
  let ?f = "\<lambda>r. (if o_id r \<in> set ids then r\<lparr>o_state := PROCESSING\<rparr> else r)"
  let ?row = "row\<lparr>o_state := PENDING, o_next_attempt_at := now\<rparr>"
  have "outbox d1 = map ?f (outbox d)"
    using assms(4) by (auto simp: mark_processing_def update_outbox_def upd_where_def)
  then have "row\<lparr>o_state := PROCESSING\<rparr> \<in> set (outbox d1)" using assms(1,3) by force
  moreover have d2: "outbox d2 = upd_where (\<lambda>r. o_state r = PROCESSING \<and> o_next_attempt_at r < now - 300000)
      (\<lambda>r. r\<lparr>o_state := PENDING, o_next_attempt_at := now\<rparr>) (outbox d1)"
    using assms(5) by (auto simp: recover_stuck_def update_outbox_def)
  ultimately have m: "?row \<in> set (outbox d2)"
    unfolding d2 in_upd_where using assms(2) by (intro bexI [of _ "row\<lparr>o_state := PROCESSING\<rparr>"]) simp_all
  have l: "length (outbox d2) = length (outbox d)"
    using assms(4) by (auto simp: d2 mark_processing_def update_outbox_def)
  let ?P = "\<lambda>r. o_state r = PENDING \<and> o_next_attempt_at r \<le> now \<and> \<not> False"
  have "length (filter ?P (outbox d2)) \<le> 100" using l assms(6) length_filter_le [of ?P "outbox d2"] by linarith
  then have "set rows = set (filter ?P (outbox d2))"
    using assms(7) by (auto simp: select_pending_def)
  then have "?row \<in> set rows" using m by simp
  then show ?thesis by (rule bexI [rotated]) (simp add: ev_of_def)
qed

theorem recovery_takes_fresh_row_witness:
  "\<exists>row' \<in> set [(demo_row 1 0 0)\<lparr>o_state := PENDING, o_next_attempt_at := 1000000\<rparr>]. ev_of row' = ev_of (demo_row 1 0 0)"
proof (rule recovery_takes_fresh_row)
  let ?d = "\<lparr>outbox = [demo_row 1 0 0], outbox_seq = 10\<rparr>"
  let ?d1 = "\<lparr>outbox = [(demo_row 1 0 0)\<lparr>o_state := PROCESSING\<rparr>], outbox_seq = 10\<rparr>"
  let ?r = "(demo_row 1 0 0)\<lparr>o_state := PENDING, o_next_attempt_at := 1000000\<rparr>"
  let ?d2 = "\<lparr>outbox = [?r], outbox_seq = 10\<rparr>"
  show "demo_row 1 0 0 \<in> set (outbox ?d)" by simp
  show "o_next_attempt_at (demo_row 1 0 0) < 1000000 - 300000" by code_simp
  show "o_id (demo_row 1 0 0) \<in> set [1]" by code_simp
  show "mark_processing [1] 1000000 ?d = Inr ((), ?d1)" by code_simp
  show "recover_stuck 1000000 ?d1 = Inr ((), ?d2)" by code_simp
  show "length (outbox ?d) \<le> 100" by simp
  show "select_pending (\<lambda>_. False) 1000000 ?d2 = Inr ([?r], ?d2)" by code_simp
qed

text \<open>A failed statement can stop the worker. The tick does not roll back when a statement of its
  transaction fails, so the connection goes back to the pool with the aborted transaction open; the
  next tick on it fails although the database answers every call, and no event is published.\<close>

theorem aborted_transaction_stays:
  "\<exists>s :: outbox_db outbox_proc. tx s = None \<and> quiet s \<and> outbox_ok (committed s) \<and> \<not> w_running s \<and>
     (case outbox_tick seat_exchange (\<lambda>_. False) s of (r, s1) \<Rightarrow>
        r = Inl (fault_exn Stmt_Timeout) \<and> tx s1 \<noteq> None \<and> checked_out s1 = 0 \<and> reliable s1 \<and>
        (case outbox_tick seat_exchange (\<lambda>_. False) s1 of (r', s2) \<Rightarrow>
           r' = Inl tx_aborted \<and> sent s2 = [] \<and> committed s2 = committed s))"
proof (intro exI conjI)
  let ?s = "demo_worker [demo_row 1 0 0] (timeout_at 3) []"
  show "tx ?s = None" "\<not> w_running ?s" by simp_all
  show "quiet ?s" by (simp add: quiet_def timeout_at_def)
  show "outbox_ok (committed ?s)" by (simp add: outbox_ok_def demo_row_def)
  let ?p = "outbox_tick seat_exchange (\<lambda>_. False) ?s"
  have "script (snd ?p) = []" by code_simp
  then have "reliable (snd ?p)" by (simp add: reliable_def)
  moreover have "fst ?p = Inl (fault_exn Stmt_Timeout)" "tx (snd ?p) \<noteq> None" "checked_out (snd ?p) = 0"
    "fst (outbox_tick seat_exchange (\<lambda>_. False) (snd ?p)) = Inl tx_aborted"
    "sent (snd (outbox_tick seat_exchange (\<lambda>_. False) (snd ?p))) = []"
    "committed (snd (outbox_tick seat_exchange (\<lambda>_. False) (snd ?p))) = committed ?s"
    by code_simp+
  ultimately show "case ?p of (r, s1) \<Rightarrow>
        r = Inl (fault_exn Stmt_Timeout) \<and> tx s1 \<noteq> None \<and> checked_out s1 = 0 \<and> reliable s1 \<and>
        (case outbox_tick seat_exchange (\<lambda>_. False) s1 of (r', s2) \<Rightarrow>
           r' = Inl tx_aborted \<and> sent s2 = [] \<and> committed s2 = committed ?s)"
    by (simp add: split_def)
qed

end
