(* ===== verification/Payment_Db.thy ===== *)
theory Payment_Db
  imports Outbox_Table
begin

text \<open>
  The payment database (apps/payment/src/migrations/20240101000000_init.sql) and the SQL statements of
  payment-intents.repository.ts and webhook-reprocessor.ts: the rows, one definition per statement,
  and the invariant \<open>payment_db_ok\<close> the schema enforces.
\<close>

datatype intent_status = PI_PENDING | PI_COMPLETED | PI_FAILED

record intent_row =
  i_id :: uuid
  i_seat_id :: uuid
  i_user_id :: uuid
  i_hold_id :: uuid
  i_amount_cents :: int
  i_currency :: string
  i_psp_intent_id :: "string option"
  i_status :: intent_status
  i_idempotency_key :: uuid
  i_client_secret :: "string option"
  i_created_at :: instant
  i_completed_at :: "instant option"

record inbox_row =
  w_stripe_event_id :: string
  w_type :: string
  w_payload :: json
  w_received_at :: instant
  w_processed_at :: "instant option"

record price_row =
  sp_seat_id :: uuid
  sp_price_cents :: int
  sp_currency :: string
  sp_label :: string

record payment_db = outbox_db +
  intents :: "intent_row list"
  inbox :: "inbox_row list"
  seat_prices :: "price_row list"

abbreviation pending_intent :: "intent_row \<Rightarrow> bool" where
  "pending_intent i \<equiv> i_status i = PI_PENDING"

subsection \<open>Statements\<close>

definition select_seat_price :: "uuid \<Rightarrow> (payment_db, price_row option) stmt" where
  "select_seat_price seatId now d = Inr (find (\<lambda>p. sp_seat_id p = seatId) (seat_prices d), d)"

definition select_by_key :: "uuid \<Rightarrow> (payment_db, intent_row option) stmt" where
  "select_by_key key now d = Inr (find (\<lambda>i. i_idempotency_key i = key) (intents d), d)"

definition select_by_psp :: "string \<Rightarrow> (payment_db, intent_row option) stmt" where
  "select_by_psp psp now d = Inr (find (\<lambda>i. i_psp_intent_id i = Some psp) (intents d), d)"

definition select_pending_by_seat :: "uuid \<Rightarrow> (payment_db, intent_row list) stmt" where
  "select_pending_by_seat seatId now d =
     Inr (filter (\<lambda>i. i_seat_id i = seatId \<and> pending_intent i) (intents d), d)"

record intent_opts =
  op_seatId :: uuid
  op_userId :: uuid
  op_holdId :: uuid
  op_amountCents :: int
  op_currency :: string
  op_idempotencyKey :: uuid
  op_pspIntentId :: string
  op_clientSecret :: string

text \<open>\<open>INSERT INTO payment_intents .. RETURNING *\<close> with its CHECK and its two unique constraints.\<close>

definition insert_intent :: "uuid \<Rightarrow> intent_opts \<Rightarrow> (payment_db, intent_row) stmt" where
  "insert_intent newId opts now d =
     (let row = \<lparr>i_id = newId, i_seat_id = op_seatId opts, i_user_id = op_userId opts,
                 i_hold_id = op_holdId opts, i_amount_cents = op_amountCents opts,
                 i_currency = op_currency opts, i_psp_intent_id = Some (op_pspIntentId opts),
                 i_status = PI_PENDING, i_idempotency_key = op_idempotencyKey opts,
                 i_client_secret = Some (op_clientSecret opts), i_created_at = now,
                 i_completed_at = None\<rparr>
      in
      if op_amountCents opts < 0
        then Inl (Db_Error ''23514'' ''payment_intents_amount_cents_check'')
      else if \<exists>i \<in> set (intents d). i_id i = newId
        then Inl (unique_violation ''payment_intents_pkey'')
      else if \<exists>i \<in> set (intents d). i_idempotency_key i = op_idempotencyKey opts
        then Inl (unique_violation ''payment_intents_idempotency_key_key'')
      else Inr (row, d\<lparr>intents := intents d @ [row]\<rparr>))"

text \<open>\<open>UPDATE payment_intents SET status = st, completed_at = NOW() WHERE P AND status = 'PENDING'
  RETURNING *\<close>, for the three conditions P of the repository.\<close>

definition close_row :: "intent_status \<Rightarrow> instant \<Rightarrow> intent_row \<Rightarrow> intent_row" where
  "close_row st now i = i\<lparr>i_status := st, i_completed_at := Some now\<rparr>"

definition close_intents ::
    "(intent_row \<Rightarrow> bool) \<Rightarrow> intent_status \<Rightarrow> (payment_db, intent_row list) stmt" where
  "close_intents P st now d =
     (let Q = (\<lambda>i. P i \<and> pending_intent i) in
      Inr (returning Q (close_row st now) (intents d),
           d\<lparr>intents := upd_where Q (close_row st now) (intents d)\<rparr>))"

definition complete_by_psp :: "string option \<Rightarrow> (payment_db, intent_row list) stmt" where
  "complete_by_psp psp = close_intents (\<lambda>i. psp \<noteq> None \<and> i_psp_intent_id i = psp) PI_COMPLETED"

definition fail_by_psp :: "string option \<Rightarrow> (payment_db, intent_row list) stmt" where
  "fail_by_psp psp = close_intents (\<lambda>i. psp \<noteq> None \<and> i_psp_intent_id i = psp) PI_FAILED"

definition fail_by_seat :: "uuid \<Rightarrow> (payment_db, intent_row list) stmt" where
  "fail_by_seat seatId = close_intents (\<lambda>i. i_seat_id i = seatId) PI_FAILED"

text \<open>
  \<open>INSERT INTO webhook_inbox .. ON CONFLICT (stripe_event_id) DO NOTHING\<close> with its row count; a
  missing id or type is NULL and violates NOT NULL.
\<close>

definition insert_inbox :: "string option \<Rightarrow> string option \<Rightarrow> json \<Rightarrow> (payment_db, nat) stmt" where
  "insert_inbox eid ty payload now d =
     (case eid of
        None \<Rightarrow> Inl (Db_Error ''23502'' [])
      | Some e \<Rightarrow>
          (case ty of
             None \<Rightarrow> Inl (Db_Error ''23502'' [])
           | Some t \<Rightarrow>
               if \<exists>w \<in> set (inbox d). w_stripe_event_id w = e then Inr (0, d)
               else Inr (1, d\<lparr>inbox := inbox d @
                 [\<lparr>w_stripe_event_id = e, w_type = t, w_payload = payload, w_received_at = now,
                   w_processed_at = None\<rparr>]\<rparr>)))"

definition mark_processed :: "string option \<Rightarrow> (payment_db, unit) stmt" where
  "mark_processed eid now d =
     Inr ((), d\<lparr>inbox := upd_where (\<lambda>w. eid = Some (w_stripe_event_id w))
       (\<lambda>w. w\<lparr>w_processed_at := Some now\<rparr>) (inbox d)\<rparr>)"

definition select_unprocessed :: "(payment_db, inbox_row list) stmt" where
  "select_unprocessed now d =
     Inr (take 50 (sort_key w_received_at (filter (\<lambda>w. w_processed_at w = None) (inbox d))), d)"

lemmas payment_stmt_defs = select_seat_price_def select_by_key_def select_by_psp_def
  select_pending_by_seat_def insert_intent_def close_intents_def complete_by_psp_def fail_by_psp_def
  fail_by_seat_def insert_inbox_def mark_processed_def select_unprocessed_def insert_outbox_def

lemma close_row_sel [simp]:
  "i_id (close_row st now i) = i_id i" "i_seat_id (close_row st now i) = i_seat_id i"
  "i_user_id (close_row st now i) = i_user_id i" "i_hold_id (close_row st now i) = i_hold_id i"
  "i_amount_cents (close_row st now i) = i_amount_cents i" "i_currency (close_row st now i) = i_currency i"
  "i_psp_intent_id (close_row st now i) = i_psp_intent_id i" "i_status (close_row st now i) = st"
  "i_idempotency_key (close_row st now i) = i_idempotency_key i"
  "i_client_secret (close_row st now i) = i_client_secret i"
  "i_created_at (close_row st now i) = i_created_at i"
  by (simp_all add: close_row_def)

lemma append_outbox_payment_sel [simp]:
  "intents (append_outbox now agg ty p hs d) = intents d"
  "inbox (append_outbox now agg ty p hs d) = inbox d"
  "seat_prices (append_outbox now agg ty p hs d) = seat_prices d"
  by (simp_all add: append_outbox_def)

subsection \<open>The invariant and the life of an intent\<close>

definition payment_db_ok :: "payment_db \<Rightarrow> bool" where
  "payment_db_ok d \<longleftrightarrow>
     distinct (map i_id (intents d)) \<and> distinct (map i_idempotency_key (intents d)) \<and>
     (\<forall>i \<in> set (intents d). 0 \<le> i_amount_cents i \<and> (i_completed_at i = None \<longleftrightarrow> pending_intent i)) \<and>
     distinct (map w_stripe_event_id (inbox d)) \<and> outbox_ok d"

definition intent_evolves :: "intent_row \<Rightarrow> intent_row \<Rightarrow> bool" where
  "intent_evolves i i' \<longleftrightarrow>
     i_id i' = i_id i \<and> i_seat_id i' = i_seat_id i \<and> i_user_id i' = i_user_id i \<and>
     i_hold_id i' = i_hold_id i \<and> i_amount_cents i' = i_amount_cents i \<and> i_currency i' = i_currency i \<and>
     i_psp_intent_id i' = i_psp_intent_id i \<and> i_idempotency_key i' = i_idempotency_key i \<and>
     i_client_secret i' = i_client_secret i \<and> i_created_at i' = i_created_at i \<and>
     (\<not> pending_intent i \<longrightarrow> i' = i)"

definition payments_evolve :: "payment_db \<Rightarrow> payment_db \<Rightarrow> bool" where
  "payments_evolve d d' \<longleftrightarrow>
     (\<exists>is new. intents d' = is @ new \<and> list_all2 intent_evolves (intents d) is) \<and>
     w_stripe_event_id ` set (inbox d) \<subseteq> w_stripe_event_id ` set (inbox d') \<and>
     seat_prices d' = seat_prices d"

definition pay_rel :: "payment_db \<Rightarrow> payment_db \<Rightarrow> bool" where
  "pay_rel d d' \<longleftrightarrow> (payment_db_ok d \<longrightarrow> payment_db_ok d' \<and> payments_evolve d d')"

lemma intent_evolves_refl [simp]: "intent_evolves i i"
  by (simp add: intent_evolves_def)

lemma intent_evolves_trans: "intent_evolves a b \<Longrightarrow> intent_evolves b c \<Longrightarrow> intent_evolves a c"
  by (auto simp: intent_evolves_def)

lemma payments_evolve_simple:
  assumes "intents d' = upd_where (\<lambda>i. P i \<and> pending_intent i) (close_row st now) (intents d) @ new"
    and "w_stripe_event_id ` set (inbox d) \<subseteq> w_stripe_event_id ` set (inbox d')"
    and "seat_prices d' = seat_prices d"
  shows "payments_evolve d d'"
proof -
  have "list_all2 intent_evolves is (upd_where (\<lambda>i. P i \<and> pending_intent i) (close_row st now) is)" for "is"
    by (induction "is") (auto simp: intent_evolves_def)
  then show ?thesis using assms unfolding payments_evolve_def by blast
qed

lemma payments_evolve_same:
  assumes "intents d' = intents d @ new"
    and "w_stripe_event_id ` set (inbox d) \<subseteq> w_stripe_event_id ` set (inbox d')"
    and "seat_prices d' = seat_prices d"
  shows "payments_evolve d d'"
  by (rule payments_evolve_simple [where P = "\<lambda>_. False" and new = new])
    (use assms in \<open>simp_all add: upd_where_id\<close>)

lemma payments_evolve_refl [simp]: "payments_evolve d d"
  by (rule payments_evolve_same [where new = "[]"]) simp_all

lemma payments_evolve_trans:
  assumes "payments_evolve a b" and "payments_evolve b c"
  shows "payments_evolve a c"
proof -
  obtain xs new where 1: "intents b = xs @ new" "list_all2 intent_evolves (intents a) xs"
    using assms(1) by (auto simp: payments_evolve_def)
  obtain ys more where 2: "intents c = ys @ more" "list_all2 intent_evolves (xs @ new) ys"
    using assms(2) by (auto simp: payments_evolve_def 1(1))
  then obtain ys1 ys2 where ys: "ys = ys1 @ ys2" "list_all2 intent_evolves xs ys1"
    by (auto simp: list_all2_append1)
  have "list_all2 intent_evolves (intents a) ys1"
    by (rule list_all2_trans [OF _ 1(2) ys(2)]) (rule intent_evolves_trans)
  then show ?thesis
    using assms 2(1) ys(1) by (auto simp: payments_evolve_def)
qed

lemma pay_rel_refl [simp]: "pay_rel d d"
  by (simp add: pay_rel_def)

lemma pay_rel_trans: "pay_rel a b \<Longrightarrow> pay_rel b c \<Longrightarrow> pay_rel a c"
  using payments_evolve_trans by (auto simp: pay_rel_def)

text \<open>The statements that change something respect it.\<close>

lemma payment_db_ok_append: "payment_db_ok d \<Longrightarrow> payment_db_ok (append_outbox now agg ty p hs d)"
  by (simp add: payment_db_ok_def outbox_ok_append)

lemma pay_rel_append: "pay_rel d (append_outbox now agg ty p hs d)"
  unfolding pay_rel_def using payment_db_ok_append
  by (auto intro: payments_evolve_same [where new = "[]"])

lemma pay_rel_close:
  assumes "close_intents P st now d = Inr (rows, d')" and "st \<noteq> PI_PENDING"
  shows "pay_rel d d'"
proof -
  let ?u = "upd_where (\<lambda>i. P i \<and> pending_intent i) (close_row st now) (intents d)"
  have d': "d' = d\<lparr>intents := ?u\<rparr>" using assms(1) by (simp add: close_intents_def Let_def)
  have ids: "map i_id ?u = map i_id (intents d)" "map i_idempotency_key ?u = map i_idempotency_key (intents d)"
    by (rule map_upd_where_key, simp)+
  have rows: "\<forall>i \<in> set ?u. 0 \<le> i_amount_cents i \<and> (i_completed_at i = None \<longleftrightarrow> pending_intent i)"
    if "payment_db_ok d"
    using that assms(2) unfolding ball_upd_where by (auto simp: payment_db_ok_def close_row_def)
  have "payment_db_ok d'" if ok: "payment_db_ok d"
  proof -
    have "outbox_ok d'" using ok by (simp add: payment_db_ok_def d' outbox_ok_def)
    moreover have "intents d' = ?u" "inbox d' = inbox d" by (simp_all add: d')
    moreover have "distinct (map i_id (intents d))" "distinct (map i_idempotency_key (intents d))"
      "distinct (map w_stripe_event_id (inbox d))" using ok by (simp_all only: payment_db_ok_def)
    ultimately show ?thesis using rows [OF ok] ids by (simp only: payment_db_ok_def simp_thms)
  qed
  moreover have "payments_evolve d d'"
    by (rule payments_evolve_simple [where P = P and st = st and now = now and new = "[]"]) (simp_all add: d')
  ultimately show ?thesis by (simp add: pay_rel_def)
qed

lemma pay_rel_insert_intent:
  assumes "insert_intent newId opts now d = Inr (row, d')"
  shows "pay_rel d d'"
proof -
  have d': "d' = d\<lparr>intents := intents d @ [row]\<rparr>" "i_id row = newId" "0 \<le> i_amount_cents row"
    "i_idempotency_key row = op_idempotencyKey opts" "pending_intent row" "i_completed_at row = None"
    "\<forall>i \<in> set (intents d). i_id i \<noteq> newId \<and> i_idempotency_key i \<noteq> op_idempotencyKey opts"
    using assms by (auto simp: insert_intent_def Let_def split: if_splits)
  then show ?thesis
    unfolding pay_rel_def
    by (auto simp: payment_db_ok_def outbox_ok_def intro: payments_evolve_same [where new = "[row]"])
qed

lemma pay_rel_inbox:
  "insert_inbox eid ty payload now d = Inr (n, d') \<Longrightarrow> pay_rel d d'"
  "mark_processed eid now d = Inr (u, d') \<Longrightarrow> pay_rel d d'"
proof -
  show "pay_rel d d'" if "insert_inbox eid ty payload now d = Inr (n, d')"
    using that unfolding pay_rel_def
    by (auto simp: insert_inbox_def payment_db_ok_def outbox_ok_def split: option.splits if_splits
        intro: payments_evolve_same [where new = "[]"])
  show "pay_rel d d'" if "mark_processed eid now d = Inr (u, d')"
  proof -
    let ?u = "upd_where (\<lambda>w. eid = Some (w_stripe_event_id w)) (\<lambda>w. w\<lparr>w_processed_at := Some now\<rparr>) (inbox d)"
    have "map w_stripe_event_id ?u = map w_stripe_event_id (inbox d)"
      by (rule map_upd_where_key) simp
    moreover from this have "w_stripe_event_id ` set ?u = w_stripe_event_id ` set (inbox d)"
      by (metis list.set_map)
    ultimately show ?thesis
      using that unfolding pay_rel_def
      by (auto simp: mark_processed_def payment_db_ok_def outbox_ok_def
          intro!: payments_evolve_same [where new = "[]"])
  qed
qed

end
