(* ===== verification/Intents.thy ===== *)
theory Intents
  imports Payment_Db
begin

text \<open>
  PaymentIntentsRepository of apps/payment/src/checkout/payment-intents.repository.ts: the queries,
  the insertion of an intent and of a webhook, and the three methods that close intents, each one
  transaction with its outbox row, as instances of the transaction contract of Db_Tx.
\<close>

subsection \<open>The events\<close>

definition opt_str :: "string option \<Rightarrow> json" where
  "opt_str x = (case x of None \<Rightarrow> JNull | Some s \<Rightarrow> JStr s)"

definition payment_succeeded_payload :: "uuid \<Rightarrow> intent_row \<Rightarrow> string \<Rightarrow> instant \<Rightarrow> json" where
  "payment_succeeded_payload eventId i traceId occ =
     JObj [(''schema'', JStr ''payment.succeeded.v1''), (''eventId'', JStr eventId),
       (''paymentIntentId'', JStr (i_id i)), (''seatId'', JStr (i_seat_id i)),
       (''userId'', JStr (i_user_id i)), (''holdId'', JStr (i_hold_id i)),
       (''amountCents'', JInt (i_amount_cents i)), (''currency'', JStr (i_currency i)),
       (''pspIntentId'', opt_str (i_psp_intent_id i)), (''traceId'', JStr traceId),
       (''occurredAt'', JStr (toISOString occ))]"

definition payment_failed_payload :: "uuid \<Rightarrow> intent_row \<Rightarrow> string \<Rightarrow> string \<Rightarrow> instant \<Rightarrow> json" where
  "payment_failed_payload eventId i reason traceId occ =
     JObj [(''schema'', JStr ''payment.failed.v1''), (''eventId'', JStr eventId),
       (''paymentIntentId'', JStr (i_id i)), (''seatId'', JStr (i_seat_id i)),
       (''userId'', JStr (i_user_id i)), (''holdId'', JStr (i_hold_id i)),
       (''reason'', JStr reason), (''traceId'', JStr traceId),
       (''occurredAt'', JStr (toISOString occ))]"

text \<open>Their schemas accept them when the ids are UUIDs and the price row was one of the contracts.\<close>

definition intent_ids_ok :: "intent_row \<Rightarrow> bool" where
  "intent_ids_ok i \<longleftrightarrow>
     is_uuid (i_id i) \<and> is_uuid (i_seat_id i) \<and> is_uuid (i_user_id i) \<and> is_uuid (i_hold_id i) \<and>
     0 \<le> i_amount_cents i \<and> length (i_currency i) = 3 \<and> i_psp_intent_id i \<noteq> None"

lemma payment_succeeded_payload_conforms:
  assumes "zod_documented z" and "is_uuid eventId" "is_uuid traceId" "date_ok occ" and "intent_ids_ok i"
  shows "PaymentSucceededV1 z (payment_succeeded_payload eventId i traceId occ) =
    Some (PaymentSucceeded \<lparr>m_eventId = eventId, m_traceId = traceId, m_occurredAt = toISOString occ\<rparr>
      (i_id i) (i_seat_id i) (i_user_id i) (i_hold_id i) (i_amount_cents i) (i_currency i)
      (the (i_psp_intent_id i)))"
  using assms
  by (auto simp: payment_succeeded_payload_def schema_defs zod_documentedD intent_ids_ok_def opt_str_def)

lemma payment_failed_payload_conforms:
  assumes "zod_documented z" and "is_uuid eventId" "is_uuid traceId" "date_ok occ" and "intent_ids_ok i"
  shows "PaymentFailedV1 z (payment_failed_payload eventId i reason traceId occ) =
    Some (PaymentFailed \<lparr>m_eventId = eventId, m_traceId = traceId, m_occurredAt = toISOString occ\<rparr>
      (i_id i) (i_seat_id i) (i_user_id i) (i_hold_id i) reason)"
  using assms by (simp add: payment_failed_payload_def schema_defs zod_documentedD intent_ids_ok_def)

text \<open>A trace id that is not a UUID is refused by both.\<close>

lemma payment_payload_trace:
  assumes "zod_documented z" and "\<not> is_uuid traceId"
  shows "PaymentSucceededV1 z (payment_succeeded_payload eventId i traceId occ) = None"
    and "PaymentFailedV1 z (payment_succeeded_payload eventId i traceId occ) = None"
    and "PaymentFailedV1 z (payment_failed_payload eventId i reason traceId occ) = None"
  using assms
  by (simp_all add: payment_succeeded_payload_def payment_failed_payload_def schema_defs zod_documentedD)

subsection \<open>Queries and insertions\<close>

definition getSeatPrice :: "uuid \<Rightarrow> (payment_db, 'x, price_row option) dbm" where
  "getSeatPrice seatId = query (select_seat_price seatId)"

definition findByIdempotencyKey :: "uuid \<Rightarrow> (payment_db, 'x, intent_row option) dbm" where
  "findByIdempotencyKey key = query (select_by_key key)"

definition createIntent :: "uuid \<Rightarrow> intent_opts \<Rightarrow> (payment_db, 'x, intent_row) dbm" where
  "createIntent newId opts = query (insert_intent newId opts)"

definition findByPspIntentId :: "string \<Rightarrow> (payment_db, 'x, intent_row option) dbm" where
  "findByPspIntentId psp = query (select_by_psp psp)"

definition findPendingBySeatId :: "uuid \<Rightarrow> (payment_db, 'x, intent_row list) dbm" where
  "findPendingBySeatId seatId = query (select_pending_by_seat seatId)"

definition insertWebhookInbox :: "string option \<Rightarrow> string option \<Rightarrow> json \<Rightarrow> (payment_db, 'x, bool) dbm" where
  "insertWebhookInbox eid ty payload = bindM (query (insert_inbox eid ty payload)) (\<lambda>n. retM (0 < n))"

definition markWebhookProcessed :: "string option \<Rightarrow> (payment_db, 'x, unit) dbm" where
  "markWebhookProcessed eid = query (mark_processed eid)"

definition appendOutbox ::
    "uuid \<Rightarrow> string \<Rightarrow> json \<Rightarrow> (string \<times> string) list \<Rightarrow> (payment_db, 'x, unit) dbm" where
  "appendOutbox agg ty payload headers = query (insert_outbox agg ty payload headers)"

subsection \<open>Closing intents\<close>

datatype close_result = Closed intent_row | Not_Closed string

definition markCompleted ::
    "string option \<Rightarrow> uuid \<Rightarrow> string \<Rightarrow> instant \<Rightarrow> (payment_db, 'x, close_result) dbm" where
  "markCompleted psp eventId traceId occ =
     with_conn (rolling_back
       (bindM begin_tx (\<lambda>_.
        bindM (query (complete_by_psp psp)) (\<lambda>rows.
        if rows = []
        then bindM rollback_tx (\<lambda>_. retM (Not_Closed ''no_pending_intent''))
        else
          let intent = hd rows in
          bindM (appendOutbox (i_id intent) ''payment.succeeded.v1''
            (payment_succeeded_payload eventId intent traceId occ)
            [(''traceId'', traceId), (''userId'', i_user_id intent)]) (\<lambda>_.
          bindM commit_tx (\<lambda>_. retM (Closed intent)))))))"

definition markFailed ::
    "string option \<Rightarrow> string \<Rightarrow> uuid \<Rightarrow> string \<Rightarrow> instant \<Rightarrow> (payment_db, 'x, close_result) dbm" where
  "markFailed psp reason eventId traceId occ =
     with_conn (rolling_back
       (bindM begin_tx (\<lambda>_.
        bindM (query (fail_by_psp psp)) (\<lambda>rows.
        if rows = []
        then bindM rollback_tx (\<lambda>_. retM (Not_Closed ''no_pending_intent''))
        else
          let intent = hd rows in
          bindM (appendOutbox (i_id intent) ''payment.failed.v1''
            (payment_failed_payload eventId intent reason traceId occ)
            [(''traceId'', traceId), (''userId'', i_user_id intent)]) (\<lambda>_.
          bindM commit_tx (\<lambda>_. retM (Closed intent)))))))"

definition markFailedBySeatId ::
    "uuid \<Rightarrow> string \<Rightarrow> uuid \<Rightarrow> string \<Rightarrow> instant \<Rightarrow> (payment_db, 'x, close_result) dbm" where
  "markFailedBySeatId seatId reason eventId traceId occ =
     with_conn (rolling_back
       (bindM begin_tx (\<lambda>_.
        bindM (query (fail_by_seat seatId)) (\<lambda>rows.
        if rows = []
        then bindM rollback_tx (\<lambda>_. retM (Not_Closed ''no_pending_intent''))
        else
          let intent = hd rows in
          bindM (appendOutbox (i_id intent) ''payment.failed.v1''
            (payment_failed_payload eventId intent reason traceId occ)
            [(''traceId'', traceId), (''userId'', i_user_id intent)]) (\<lambda>_.
          bindM commit_tx (\<lambda>_. retM (Closed intent)))))))"

text \<open>The one statement all three amount to: \<open>P\<close> selects, \<open>st\<close> is the new status, \<open>ev\<close> the event of
  the first closed row.\<close>

definition close_spec ::
    "(intent_row \<Rightarrow> bool) \<Rightarrow> intent_status \<Rightarrow> string \<Rightarrow> (intent_row \<Rightarrow> json) \<Rightarrow> string \<Rightarrow>
     (payment_db, close_result) stmt" where
  "close_spec P st ty ev traceId now d =
     (let Q = (\<lambda>i. P i \<and> pending_intent i); rows = filter Q (intents d);
          i = close_row st now (hd rows) in
      if rows = [] then Inr (Not_Closed ''no_pending_intent'', d)
      else Inr (Closed i,
        append_outbox now (i_id i) ty (ev i) [(''traceId'', traceId), (''userId'', i_user_id i)]
          (d\<lparr>intents := upd_where Q (close_row st now) (intents d)\<rparr>)))"

abbreviation by_psp :: "string option \<Rightarrow> intent_row \<Rightarrow> bool" where
  "by_psp psp i \<equiv> psp \<noteq> None \<and> i_psp_intent_id i = psp"

abbreviation mark_completed_spec where
  "mark_completed_spec psp eventId traceId occ \<equiv>
     close_spec (by_psp psp) PI_COMPLETED ''payment.succeeded.v1''
       (\<lambda>i. payment_succeeded_payload eventId i traceId occ) traceId"

abbreviation mark_failed_spec where
  "mark_failed_spec psp reason eventId traceId occ \<equiv>
     close_spec (by_psp psp) PI_FAILED ''payment.failed.v1''
       (\<lambda>i. payment_failed_payload eventId i reason traceId occ) traceId"

abbreviation mark_failed_by_seat_spec where
  "mark_failed_by_seat_spec seatId reason eventId traceId occ \<equiv>
     close_spec (\<lambda>i. i_seat_id i = seatId) PI_FAILED ''payment.failed.v1''
       (\<lambda>i. payment_failed_payload eventId i reason traceId occ) traceId"

lemma close_intents_Inr:
  "close_intents P st now d = Inr (rows, d') \<Longrightarrow>
     rows = map (close_row st now) (filter (\<lambda>i. P i \<and> pending_intent i) (intents d)) \<and>
     d' = d\<lparr>intents := upd_where (\<lambda>i. P i \<and> pending_intent i) (close_row st now) (intents d)\<rparr>"
  by (simp add: close_intents_def Let_def returning_def)

lemma close_tx_atomic:
  fixes ev :: "intent_row \<Rightarrow> json"
  shows "idle G d n m s \<Longrightarrow> wp (with_conn (rolling_back
       (bindM begin_tx (\<lambda>_.
        bindM (query (close_intents P st)) (\<lambda>rows.
        if rows = []
        then bindM rollback_tx (\<lambda>_. retM (Not_Closed ''no_pending_intent''))
        else
          let intent = hd rows in
          bindM (appendOutbox (i_id intent) ty (ev intent)
            [(''traceId'', traceId), (''userId'', i_user_id intent)]) (\<lambda>_.
          bindM commit_tx (\<lambda>_. retM (Closed intent))))))))
    (atomic_ok G (close_spec P st ty ev traceId) d n m)
    (atomic_err G (close_spec P st ty ev traceId) d n m) s"
  unfolding with_conn_def rolling_back_def appendOutbox_def Let_def wp_simps
  by ((rule tx_steps, assumption)
      | (split if_split, intro conjI impI)
      | (rule tx_ends, assumption+)
      | (force simp: close_spec_def close_intents_def returning_def insert_outbox_def hd_map Let_def))+

interpretation mark_completed: atomic_op "markCompleted psp eventId traceId occ"
  "mark_completed_spec psp eventId traceId occ" for psp eventId traceId occ
  by unfold_locales (unfold markCompleted_def complete_by_psp_def, erule close_tx_atomic)

interpretation mark_failed: atomic_op "markFailed psp reason eventId traceId occ"
  "mark_failed_spec psp reason eventId traceId occ" for psp reason eventId traceId occ
  by unfold_locales (unfold markFailed_def fail_by_psp_def, erule close_tx_atomic)

interpretation mark_failed_by_seat: atomic_op "markFailedBySeatId seatId reason eventId traceId occ"
  "mark_failed_by_seat_spec seatId reason eventId traceId occ" for seatId reason eventId traceId occ
  by unfold_locales (unfold markFailedBySeatId_def fail_by_seat_def, erule close_tx_atomic)

subsection \<open>What closing does\<close>

lemma close_spec_total: "\<exists>r d'. close_spec P st ty ev traceId now d = Inr (r, d')"
  by (simp add: close_spec_def Let_def)

lemma close_spec_noop:
  assumes "\<forall>i \<in> set (intents d). P i \<longrightarrow> \<not> pending_intent i"
  shows "close_spec P st ty ev traceId now d = Inr (Not_Closed ''no_pending_intent'', d)"
  using assms by (simp add: close_spec_def Let_def filter_empty_conv)

lemma close_spec_one:
  assumes "filter (\<lambda>i. P i \<and> pending_intent i) (intents d) = i # rest"
  shows "close_spec P st ty ev traceId now d =
    Inr (Closed (close_row st now i),
      append_outbox now (i_id i) ty (ev (close_row st now i))
        [(''traceId'', traceId), (''userId'', i_user_id i)]
        (d\<lparr>intents := upd_where (\<lambda>i. P i \<and> pending_intent i) (close_row st now) (intents d)\<rparr>))"
  using assms by (simp add: close_spec_def Let_def)

lemma close_spec_closes:
  assumes "close_spec P st ty ev traceId now d = Inr (r, d')" and "st \<noteq> PI_PENDING"
    and "\<And>i. P (close_row st now i) = P i" and "i \<in> set (intents d')" and "P i"
  shows "\<not> pending_intent i"
proof (cases "filter (\<lambda>i. P i \<and> pending_intent i) (intents d) = []")
  case True
  then show ?thesis using assms(1,4,5) by (auto simp: close_spec_def Let_def filter_empty_conv)
next
  case False
  then have "intents d' = upd_where (\<lambda>i. P i \<and> pending_intent i) (close_row st now) (intents d)"
    using assms(1) by (auto simp: close_spec_def Let_def)
  moreover have "\<forall>i \<in> set (upd_where (\<lambda>i. P i \<and> pending_intent i) (close_row st now) (intents d)).
      P i \<longrightarrow> \<not> pending_intent i"
    unfolding ball_upd_where using assms(2,3) by simp
  ultimately show ?thesis using assms(4,5) by simp
qed

lemma pay_rel_close_spec:
  assumes "close_spec P st ty ev traceId now d = Inr (r, d')" and "st \<noteq> PI_PENDING"
  shows "pay_rel d d'"
proof (cases "filter (\<lambda>i. P i \<and> pending_intent i) (intents d) = []")
  case True
  then show ?thesis using assms(1) by (simp add: close_spec_def Let_def)
next
  case False
  let ?d1 = "d\<lparr>intents := upd_where (\<lambda>i. P i \<and> pending_intent i) (close_row st now) (intents d)\<rparr>"
  have "pay_rel d ?d1"
    by (rule pay_rel_close [of P st now d _ ?d1]) (simp_all add: close_intents_def Let_def assms(2))
  then show ?thesis
    using assms(1) False pay_rel_trans [OF _ pay_rel_append] by (auto simp: close_spec_def Let_def)
qed

end
