(* ===== verification/Psp.thy ===== *)
theory Psp
  imports Db_Tx Contracts
begin

text \<open>
  The payment service provider's client and the circuit breaker in front of it
  (apps/payment/src/psps/psp.client.ts, apps/payment/src/psps/circuit-breaker.ts): the webhook
  signature, with HMAC-SHA256 and JSON.parse as parameters, and the breaker as a state machine on
  explicit clock readings, with the two parts of a call around its await.
\<close>

subsection \<open>Strings: split, trim, hexadecimal\<close>

text \<open>\<open>s.split(c)\<close> for a one-character separator.\<close>

fun split_on :: "char \<Rightarrow> string \<Rightarrow> string list" where
  "split_on c [] = [[]]"
| "split_on c (x # xs) =
     (if x = c then [] # split_on c xs
      else (case split_on c xs of [] \<Rightarrow> [[x]] | w # ws \<Rightarrow> (x # w) # ws))"

text \<open>\<open>s.trim()\<close> on header text (Latin-1): tab to carriage return, space, no-break space.\<close>

definition is_ws :: "char \<Rightarrow> bool" where
  "is_ws c \<longleftrightarrow> (let n = of_char c :: nat in 9 \<le> n \<and> n \<le> 13 \<or> n = 32 \<or> n = 160)"

definition trim :: "string \<Rightarrow> string" where
  "trim s = rev (dropWhile is_ws (rev (dropWhile is_ws s)))"

text \<open>\<open>Buffer.from(s, 'hex')\<close>: pairs of digits up to the first pair that is not one.\<close>

definition hex_val :: "char \<Rightarrow> nat" where
  "hex_val c =
     (let n = of_char c :: nat in
      if n \<le> 57 then n - 48 else if n \<le> 70 then n - 55 else n - 87)"

fun from_hex :: "string \<Rightarrow> nat list" where
  "from_hex (a # b # s) =
     (if is_hex a \<and> is_hex b then (16 * hex_val a + hex_val b) # from_hex s else [])"
| "from_hex s = []"

lemma split_on_no: "c \<notin> set s \<Longrightarrow> split_on c s = [s]"
  by (induction s) auto

lemma split_on_append: "c \<notin> set s \<Longrightarrow> split_on c (s @ c # r) = s # split_on c r"
  by (induction s) auto

lemma dropWhile_none: "\<forall>c \<in> set s. \<not> P c \<Longrightarrow> dropWhile P s = s"
  by (cases s) auto

lemma trim_id: "\<forall>c \<in> set s. \<not> is_ws c \<Longrightarrow> trim s = s"
  by (simp add: trim_def dropWhile_none)

definition lower_hex :: "char \<Rightarrow> bool" where
  "lower_hex c \<longleftrightarrow> c \<in> set ''0123456789abcdef''"

lemma lower_hex_facts:
  assumes "lower_hex c"
  shows "is_hex c" "\<not> is_ws c" "c \<noteq> CHR '',''" "c \<noteq> CHR ''=''"
  using assms by (auto simp: lower_hex_def is_hex_def is_ws_def Let_def)

lemma hex_val_lt: "is_hex c \<Longrightarrow> hex_val c < 16"
  by (auto simp: is_hex_def hex_val_def Let_def)

definition to_lower_hex :: "char \<Rightarrow> char" where
  "to_lower_hex c = ''0123456789abcdef'' ! hex_val c"

lemma to_lower_hex_id: "lower_hex c \<Longrightarrow> to_lower_hex c = c"
  by (auto simp: lower_hex_def to_lower_hex_def hex_val_def Let_def)

lemma hex_val_eqD: "is_hex a \<Longrightarrow> hex_val a = hex_val b \<Longrightarrow> lower_hex b \<Longrightarrow> to_lower_hex a = b"
  using to_lower_hex_id [of b] by (simp add: to_lower_hex_def)

lemma byte_eqD:
  fixes x y x' y' :: nat
  assumes "16 * x + y = 16 * x' + y'" and "y < 16" and "y' < 16"
  shows "x = x' \<and> y = y'"
proof -
  have "(16 * x + y) div 16 = x" "(16 * x' + y') div 16 = x'" using assms(2,3) by simp_all
  then have "x = x'" using assms(1) by simp
  then show ?thesis using assms(1) by simp
qed

text \<open>What equality of the decoded bytes says of the texts.\<close>

lemma from_hex_eqD:
  assumes "from_hex s = from_hex e" and "\<forall>c \<in> set e. lower_hex c" and "even (length e)"
  shows "length e \<le> length s \<and> map to_lower_hex (take (length e) s) = e \<and>
    (\<forall>c \<in> set (take (length e) s). is_hex c)"
  using assms
proof (induction e arbitrary: s rule: from_hex.induct)
  case (1 a b e)
  have ab: "is_hex a" "is_hex b" "lower_hex a" "lower_hex b" using "1.prems"(2) lower_hex_facts(1) by auto
  then have "from_hex s = (16 * hex_val a + hex_val b) # from_hex e" using "1.prems"(1) by simp
  then obtain c d r where s: "s = c # d # r" and cd: "is_hex c" "is_hex d"
    and v: "16 * hex_val c + hex_val d = 16 * hex_val a + hex_val b" "from_hex r = from_hex e"
    by (cases s rule: from_hex.cases) (simp_all split: if_splits)
  have "hex_val c = hex_val a" "hex_val d = hex_val b"
    using byte_eqD [OF v(1) hex_val_lt [OF cd(2)] hex_val_lt [OF ab(2)]] by simp_all
  then have "to_lower_hex c = a" "to_lower_hex d = b" using hex_val_eqD cd ab by auto
  moreover have "length e \<le> length r \<and> map to_lower_hex (take (length e) r) = e \<and>
      (\<forall>c \<in> set (take (length e) r). is_hex c)"
    using "1.IH" [OF _ v(2)] "1.prems"(2,3) ab by simp
  ultimately show ?case using cd by (simp add: s)
qed auto

subsection \<open>UTF-8\<close>

text \<open>
  A body is bytes. \<open>buffer.toString('utf8')\<close> decodes them and puts U+FFFD for every part that is not
  UTF-8 (the decoder of the Encoding Standard); texts of the model are the UTF-8 bytes of the program's
  strings, so \<open>utf8_text\<close> is the decoded text encoded again. \<open>utf8_lead\<close> reads the first byte of a
  character: how many bytes follow, and the range of the next one.
\<close>

definition utf8_lead :: "char \<Rightarrow> (nat \<times> nat \<times> nat) option" where
  "utf8_lead c =
     (let n = of_char c :: nat in
      if n \<le> 127 then Some (0, 0, 0)
      else if n < 194 then None
      else if n \<le> 223 then Some (1, 128, 191)
      else if n = 224 then Some (2, 160, 191)
      else if n = 237 then Some (2, 128, 159)
      else if n \<le> 239 then Some (2, 128, 191)
      else if n = 240 then Some (3, 144, 191)
      else if n \<le> 243 then Some (3, 128, 191)
      else if n = 244 then Some (3, 128, 143)
      else None)"

definition utf8_replacement :: string where
  "utf8_replacement = [char_of (239 :: nat), char_of (191 :: nat), char_of (189 :: nat)]"

text \<open>\<open>seen\<close> is the part of a character already read, \<open>need\<close> the number of bytes it still needs.\<close>

fun utf8_decode :: "string \<Rightarrow> nat \<Rightarrow> nat \<Rightarrow> nat \<Rightarrow> string \<Rightarrow> string" where
  "utf8_decode seen need lo hi [] = (if need = 0 then [] else utf8_replacement)"
| "utf8_decode seen need lo hi (c # s) =
     (if 0 < need \<and> lo \<le> (of_char c :: nat) \<and> (of_char c :: nat) \<le> hi
      then if need = 1 then seen @ c # utf8_decode [] 0 0 0 s
           else utf8_decode (seen @ [c]) (need - 1) 128 191 s
      else (if need = 0 then [] else utf8_replacement) @
        (case utf8_lead c of
           None \<Rightarrow> utf8_replacement @ utf8_decode [] 0 0 0 s
         | Some (0, _, _) \<Rightarrow> c # utf8_decode [] 0 0 0 s
         | Some (n, lo', hi') \<Rightarrow> utf8_decode [c] n lo' hi' s))"

definition utf8_text :: "string \<Rightarrow> string" where
  "utf8_text s = utf8_decode [] 0 0 0 s"

text \<open>A header is Latin-1: in UTF-8 its characters above 127 take two bytes.\<close>

definition latin1_utf8 :: "char \<Rightarrow> string" where
  "latin1_utf8 c =
     (let n = of_char c :: nat in
      if n \<le> 127 then [c] else [char_of (192 + n div 64), char_of (128 + n mod 64)])"

lemma utf8_text_ascii: "\<forall>c \<in> set s. (of_char c :: nat) \<le> 127 \<Longrightarrow> utf8_text s = s"
  unfolding utf8_text_def by (induction s) (simp_all add: utf8_lead_def del: of_char_of)

lemma utf8_text_examples:
  "utf8_text (map char_of [195, 169 :: nat]) = map char_of [195, 169 :: nat]"
  "utf8_text (map char_of [240, 159, 142 :: nat, 171]) = map char_of [240, 159, 142 :: nat, 171]"
  "utf8_text (map char_of [226, 130, 65 :: nat, 255]) = utf8_replacement @ ''A'' @ utf8_replacement"
  "utf8_text (map char_of [237, 160, 128 :: nat]) = utf8_replacement @ utf8_replacement @ utf8_replacement"
  by code_simp+

subsection \<open>MockPSPClient\<close>

definition psp_createIntent :: "string \<Rightarrow> string \<Rightarrow> string \<times> string" where
  "psp_createIntent idempotencyKey random =
     (let pspIntentId = ''pi_mock_'' @ idempotencyKey in
      (pspIntentId, pspIntentId @ ''_secret_'' @ random))"

text \<open>\<open>const [k, v] = p.split('=')\<close>, the loop over the parts, the last \<open>t\<close> and \<open>v1\<close> winning.\<close>

definition sig_step :: "string \<Rightarrow> string option \<times> string option \<Rightarrow> string option \<times> string option" where
  "sig_step p tv =
     (let ws = split_on (CHR ''='') p; k = hd ws; v = (case tl ws of [] \<Rightarrow> None | w # _ \<Rightarrow> Some w) in
      (if k = ''t'' then v else fst tv, if k = ''v1'' then v else snd tv))"

definition parse_signature :: "string \<Rightarrow> string option \<times> string option" where
  "parse_signature signature = fold sig_step (map trim (split_on (CHR '','') signature)) (None, None)"

text \<open>\<open>`${t}.${rawBody.toString('utf8')}`\<close>, as the bytes that are hashed.\<close>

definition signed_text :: "string \<Rightarrow> string \<Rightarrow> string" where
  "signed_text t rawBody = concat (map latin1_utf8 t) @ ''.'' @ utf8_text rawBody"

lemma is_digit_ascii: "is_digit c \<Longrightarrow> latin1_utf8 c = [c]"
proof -
  assume "is_digit c"
  then have "(of_char c :: nat) \<le> 127" by (auto simp: is_digit_def)
  then show ?thesis by (simp add: latin1_utf8_def)
qed

lemma latin1_digits: "\<forall>c \<in> set t. is_digit c \<Longrightarrow> concat (map latin1_utf8 t) = t"
  by (induction t) (simp_all add: is_digit_ascii)

lemma signed_text_ascii:
  "\<forall>c \<in> set t. is_digit c \<Longrightarrow> signed_text t rawBody = t @ ''.'' @ utf8_text rawBody"
  by (simp add: signed_text_def latin1_digits)

text \<open>
  \<open>hmac secret text\<close> is the hexadecimal HMAC-SHA256; \<open>json_parse\<close> is JSON.parse. Every exception is
  turned into the same answer by the caller, so only the text of the error distinguishes them.
\<close>

definition constructEventFromWebhook ::
    "(string \<Rightarrow> string \<Rightarrow> string) \<Rightarrow> (string \<Rightarrow> json option) \<Rightarrow> string \<Rightarrow> string \<Rightarrow> string \<Rightarrow> exn + json" where
  "constructEventFromWebhook hmac json_parse secret rawBody signature =
     (case parse_signature signature of
        (Some t, Some v1) \<Rightarrow>
          if t = [] \<or> v1 = [] then Inl (Js_Error ''malformed_signature'')
          else if from_hex v1 \<noteq> from_hex (hmac secret (signed_text t rawBody))
            then Inl (Js_Error ''invalid_signature'')
          else (case json_parse (utf8_text rawBody) of
                  None \<Rightarrow> Inl (Js_Error ''SyntaxError'')
                | Some JNull \<Rightarrow> Inl (Js_Error ''TypeError'')
                | Some ev \<Rightarrow>
                    (case jget ''created'' ev of
                       Some (JInt n) \<Rightarrow> Inr ev
                     | _ \<Rightarrow> Inl (Js_Error ''missing_created'')))
      | _ \<Rightarrow> Inl (Js_Error ''malformed_signature''))"

text \<open>HMAC-SHA256's documented output: 64 lower-case hexadecimal digits.\<close>

definition hmac_documented :: "(string \<Rightarrow> string \<Rightarrow> string) \<Rightarrow> bool" where
  "hmac_documented hmac \<longleftrightarrow> (\<forall>k m. length (hmac k m) = 64 \<and> (\<forall>c \<in> set (hmac k m). lower_hex c))"

text \<open>What the provider sends.\<close>

definition sign_webhook :: "(string \<Rightarrow> string \<Rightarrow> string) \<Rightarrow> string \<Rightarrow> string \<Rightarrow> string \<Rightarrow> string" where
  "sign_webhook hmac secret t rawBody = ''t='' @ t @ '',v1='' @ hmac secret (signed_text t rawBody)"

lemma parse_signed:
  assumes "hmac_documented hmac" and "\<forall>c \<in> set t. is_digit c"
  shows "parse_signature (sign_webhook hmac secret t rawBody) =
    (Some t, Some (hmac secret (signed_text t rawBody)))"
proof -
  let ?v = "hmac secret (signed_text t rawBody)"
  have dig: "\<not> is_ws c \<and> c \<noteq> CHR '','' \<and> c \<noteq> CHR ''=''" if "is_digit c" for c
    using that by (auto simp: is_digit_def is_ws_def Let_def)
  have v: "lower_hex c" if "c \<in> set ?v" for c using assms(1) that by (auto simp: hmac_documented_def)
  have t: "\<forall>c \<in> set t. \<not> is_ws c" "CHR '','' \<notin> set t" "CHR ''='' \<notin> set t"
    using assms(2) dig by blast+
  have v': "\<forall>c \<in> set ?v. \<not> is_ws c" "CHR '','' \<notin> set ?v" "CHR ''='' \<notin> set ?v"
    using v lower_hex_facts by blast+
  have "split_on (CHR '','') (sign_webhook hmac secret t rawBody) = [''t='' @ t, ''v1='' @ ?v]"
    using split_on_append [of "CHR '',''" "''t='' @ t" "''v1='' @ ?v"] split_on_no [of "CHR '',''" "''v1='' @ ?v"]
      t(2) v'(2) by (simp add: sign_webhook_def)
  moreover have "trim (''t='' @ t) = ''t='' @ t" "trim (''v1='' @ ?v) = ''v1='' @ ?v"
    using t(1) v'(1) by (auto intro!: trim_id simp: is_ws_def Let_def)
  moreover have "sig_step (''t='' @ t) (None, None) = (Some t, None)"
    using split_on_append [of "CHR ''=''" "''t''" t] split_on_no [OF t(3)] by (simp add: sig_step_def)
  moreover have "sig_step (''v1='' @ ?v) (Some t, None) = (Some t, Some ?v)"
    using split_on_append [of "CHR ''=''" "''v1''" ?v] split_on_no [OF v'(3)] by (simp add: sig_step_def)
  ultimately show ?thesis by (simp add: parse_signature_def)
qed

lemma construct_Inr:
  assumes "constructEventFromWebhook hmac json_parse secret rawBody signature = Inr ev"
  shows "\<exists>t v1. parse_signature signature = (Some t, Some v1) \<and> t \<noteq> [] \<and>
    from_hex v1 = from_hex (hmac secret (signed_text t rawBody)) \<and> json_parse (utf8_text rawBody) = Some ev \<and>
    (\<exists>n. jget ''created'' ev = Some (JInt n))"
proof -
  obtain t v1 where p: "parse_signature signature = (Some t, Some v1)"
    using assms by (auto simp: constructEventFromWebhook_def split: prod.splits option.splits)
  then have tv: "t \<noteq> []" "from_hex v1 = from_hex (hmac secret (signed_text t rawBody))"
    using assms by (auto simp: constructEventFromWebhook_def split: if_splits)
  obtain ev' where j: "json_parse (utf8_text rawBody) = Some ev'"
    using assms p by (cases "json_parse (utf8_text rawBody)") (auto simp: constructEventFromWebhook_def split: if_splits)
  then show ?thesis
    using assms p tv
    by (auto simp: constructEventFromWebhook_def split: if_splits json.splits option.splits)
qed

subsection \<open>The circuit breaker\<close>

datatype cb_phase = CB_closed | CB_open | CB_half_open

record breaker =
  cb_state :: cb_phase
  cb_failures :: nat
  cb_openedAt :: instant

record cb_env =
  PSP_TIMEOUT_MS :: int
  PSP_CB_ERROR_THRESHOLD :: nat
  PSP_CB_RESET_MS :: int

text \<open>A promise: when it settles and how, or never.\<close>

type_synonym 'a promise = "(int \<times> (exn + 'a)) option"

text \<open>Node sets the delay of a timer below 1 or above \<open>2^31 - 1\<close> to 1.\<close>

definition timer_delay :: "int \<Rightarrow> int" where
  "timer_delay ms = (if ms < 1 \<or> 2147483647 < ms then 1 else ms)"

definition withTimeout :: "'a promise \<Rightarrow> int \<Rightarrow> exn + 'a" where
  "withTimeout p ms =
     (case p of
        None \<Rightarrow> Inl (Js_Error ''psp_timeout'')
      | Some (dt, r) \<Rightarrow> if dt < timer_delay ms then r else Inl (Js_Error ''psp_timeout''))"

text \<open>The schema has no upper bound for PSP_TIMEOUT_MS, and beyond that of Node it is a millisecond.\<close>

lemma psp_timeout_wraps: "withTimeout (Some (2, Inr x)) 2147483648 = Inl (Js_Error ''psp_timeout'')"
  by (simp add: withTimeout_def timer_delay_def)

text \<open>
  \<open>exec\<close> up to its await, with the answer whether \<open>fn\<close> is called, and from the await to its end.
  \<open>now1\<close> and \<open>now2\<close> are the two readings of Date.now().
\<close>

definition cb_enter :: "cb_env \<Rightarrow> instant \<Rightarrow> breaker \<Rightarrow> bool \<times> breaker" where
  "cb_enter env now1 b =
     (if cb_state b = CB_open then
        if PSP_CB_RESET_MS env < now1 - cb_openedAt b then (True, b\<lparr>cb_state := CB_half_open\<rparr>)
        else (False, b)
      else (True, b))"

definition cb_leave :: "cb_env \<Rightarrow> exn + 'a \<Rightarrow> instant \<Rightarrow> breaker \<Rightarrow> (exn + 'a) \<times> breaker" where
  "cb_leave env result now2 b =
     (case result of
        Inr x \<Rightarrow> (Inr x, b\<lparr>cb_failures := 0, cb_state := CB_closed\<rparr>)
      | Inl e \<Rightarrow>
          let b2 = b\<lparr>cb_failures := Suc (cb_failures b)\<rparr> in
          (Inl e,
           if PSP_CB_ERROR_THRESHOLD env \<le> cb_failures b2 * 2
           then b2\<lparr>cb_state := CB_open, cb_openedAt := now2\<rparr> else b2))"

text \<open>A call that no other call overlaps; \<open>fn\<close> is not called while the circuit is open.\<close>

definition cb_exec ::
    "cb_env \<Rightarrow> instant \<Rightarrow> (unit \<Rightarrow> 'a promise) \<Rightarrow> instant \<Rightarrow> breaker \<Rightarrow> (exn + 'a) \<times> breaker" where
  "cb_exec env now1 fn now2 b =
     (case cb_enter env now1 b of
        (False, b1) \<Rightarrow> (Inl (Js_Error ''circuit_open''), b1)
      | (True, b1) \<Rightarrow> cb_leave env (withTimeout (fn ()) (PSP_TIMEOUT_MS env)) now2 b1)"

lemmas cb_defs = cb_exec_def cb_enter_def cb_leave_def

definition new_breaker :: breaker where
  "new_breaker = \<lparr>cb_state = CB_closed, cb_failures = 0, cb_openedAt = 0\<rparr>"

text \<open>A sequence of calls, each with its clock readings and its promise.\<close>

fun cb_run :: "cb_env \<Rightarrow> (instant \<times> 'a promise \<times> instant) list \<Rightarrow> breaker \<Rightarrow> (exn + 'a) list \<times> breaker" where
  "cb_run env [] b = ([], b)"
| "cb_run env ((now1, p, now2) # cs) b =
     (case cb_exec env now1 (\<lambda>_. p) now2 b of
        (r, b1) \<Rightarrow> (case cb_run env cs b1 of (rs, b2) \<Rightarrow> (r # rs, b2)))"

definition breaker_ok :: "cb_env \<Rightarrow> breaker \<Rightarrow> bool" where
  "breaker_ok env b \<longleftrightarrow>
     (case cb_state b of
        CB_closed \<Rightarrow> cb_failures b * 2 < PSP_CB_ERROR_THRESHOLD env
      | CB_open \<Rightarrow> PSP_CB_ERROR_THRESHOLD env \<le> cb_failures b * 2
      | CB_half_open \<Rightarrow> PSP_CB_ERROR_THRESHOLD env \<le> cb_failures b * 2)"

lemma cb_exec_ok:
  assumes "breaker_ok env b" and "0 < PSP_CB_ERROR_THRESHOLD env" and "cb_exec env now1 fn now2 b = (r, b')"
  shows "breaker_ok env b'"
  using assms by (auto simp: cb_defs breaker_ok_def Let_def split: if_splits sum.splits cb_phase.splits)

text \<open>
  Calls that overlap: the breaker is one object, and between a call's two parts others may run theirs.
  The invariant is kept by each part, so by every interleaving of them; but while the breaker is half
  open every call passes, not the first alone.
\<close>

datatype 'a cb_turn = Cb_Enter instant | Cb_Leave "exn + 'a" instant

fun cb_turns :: "cb_env \<Rightarrow> 'a cb_turn list \<Rightarrow> breaker \<Rightarrow> breaker" where
  "cb_turns env [] b = b"
| "cb_turns env (Cb_Enter now1 # ts) b = cb_turns env ts (snd (cb_enter env now1 b))"
| "cb_turns env (Cb_Leave result now2 # ts) b = cb_turns env ts (snd (cb_leave env result now2 b))"

lemma cb_turns_ok:
  "breaker_ok env b \<Longrightarrow> 0 < PSP_CB_ERROR_THRESHOLD env \<Longrightarrow> breaker_ok env (cb_turns env ts b)"
proof (induction ts arbitrary: b)
  case (Cons t ts)
  have "breaker_ok env (cb_turns env [t] b)"
    using Cons.prems
    by (cases t) (auto simp: cb_defs breaker_ok_def Let_def split: sum.splits cb_phase.splits)
  then show ?case using Cons.IH [OF _ Cons.prems(2)] by (cases t) simp_all
qed simp

lemma half_open_lets_all_through:
  "cb_state b = CB_open \<Longrightarrow> PSP_CB_RESET_MS env < now1 - cb_openedAt b \<Longrightarrow>
     cb_enter env now1 b = (True, b\<lparr>cb_state := CB_half_open\<rparr>) \<and>
     cb_enter env now2 (b\<lparr>cb_state := CB_half_open\<rparr>) = (True, b\<lparr>cb_state := CB_half_open\<rparr>)"
  by (simp add: cb_enter_def)

lemma cb_run_ok:
  "breaker_ok env b \<Longrightarrow> 0 < PSP_CB_ERROR_THRESHOLD env \<Longrightarrow> cb_run env cs b = (rs, b') \<Longrightarrow> breaker_ok env b'"
proof (induction cs arbitrary: b rs)
  case (Cons c cs)
  obtain now1 p now2 where c: "c = (now1, p, now2)" by (cases c)
  obtain r b1 where e: "cb_exec env now1 (\<lambda>_. p) now2 b = (r, b1)" by (cases "cb_exec env now1 (\<lambda>_. p) now2 b")
  then show ?case
    using Cons.prems Cons.IH cb_exec_ok [OF Cons.prems(1,2) e] by (auto simp: c split: prod.splits)
qed simp

text \<open>Failing calls from a closed breaker count up; the threshold is compared with twice the count.\<close>

lemma cb_run_failing:
  assumes "\<forall>(now1, p, now2) \<in> set cs. \<exists>e. withTimeout p (PSP_TIMEOUT_MS env) = Inl e"
    and "cb_state b = CB_closed" and "(cb_failures b + length cs) * 2 < PSP_CB_ERROR_THRESHOLD env"
  shows "snd (cb_run env cs b) = b\<lparr>cb_failures := cb_failures b + length cs\<rparr>"
  using assms
proof (induction cs arbitrary: b)
  case (Cons c cs)
  obtain now1 p now2 where c: "c = (now1, p, now2)" by (cases c)
  obtain e where "withTimeout p (PSP_TIMEOUT_MS env) = Inl e" using Cons.prems(1) c by auto
  then have "cb_exec env now1 (\<lambda>_. p) now2 b = (Inl e, b\<lparr>cb_failures := Suc (cb_failures b)\<rparr>)"
    using Cons.prems(2,3) by (simp add: cb_defs Let_def)
  then show ?case
    using Cons.IH [of "b\<lparr>cb_failures := Suc (cb_failures b)\<rparr>"] Cons.prems
    by (cases "cb_run env cs (b\<lparr>cb_failures := Suc (cb_failures b)\<rparr>)") (auto simp: c)
qed simp

end
