(* ===== verification/Checkout.thy ===== *)
theory Checkout
  imports Intents Psp
begin

text \<open>
  POST /api/payment/checkout (apps/payment/src/checkout/checkout.controller.ts): the state of the
  payment process, the handler with its provider call behind the circuit breaker, and its contract:
  one intent per idempotency key, at the price of the local price table, whatever other sessions do.
\<close>

subsection \<open>The process\<close>

record payment_env = cb_env +
  WEBHOOK_TOLERANCE_MS :: int
  PSP_WEBHOOK_SECRET :: string

text \<open>
  What the process keeps beside its connection: the circuit breaker, the callbacks handed to
  \<open>setImmediate\<close> (an event and the trace id of its request), the reprocessor's \<open>running\<close> flag and the
  metrics counters.
\<close>

record payment_proc = "payment_db conn" +
  breaker_of :: breaker
  immediates :: "(json \<times> uuid) list"
  reproc_running :: bool
  paymentInitiatedTotal :: nat
  paymentCompletedTotal :: nat
  paymentFailedTotal :: nat
  webhookReceivedTotal :: nat
  webhookDedupedTotal :: nat

definition inc_initiated :: "(payment_db, 'x payment_proc_ext, unit) dbm" where
  "inc_initiated = modifyM (\<lambda>s. s\<lparr>paymentInitiatedTotal := Suc (paymentInitiatedTotal s)\<rparr>)"

text \<open>\<open>breaker.exec(fn)\<close> on the process's breaker.\<close>

definition breaker_exec ::
    "cb_env \<Rightarrow> instant \<Rightarrow> (unit \<Rightarrow> 'a promise) \<Rightarrow> instant \<Rightarrow> (payment_db, 'x payment_proc_ext, 'a) dbm" where
  "breaker_exec env now1 fn now2 s =
     (case cb_exec env now1 fn now2 (breaker_of s) of (r, b) \<Rightarrow> (r, s\<lparr>breaker_of := b\<rparr>))"

subsection \<open>The handler\<close>

record checkout_dto =
  dto_seatId :: uuid
  dto_holdId :: uuid
  dto_idempotencyKey :: uuid

definition CheckoutDto :: "zod_formats \<Rightarrow> json \<Rightarrow> checkout_dto option" where
  "CheckoutDto z body =
     do { seat \<leftarrow> str_field (z_uuid z) ''seatId'' body;
          hold \<leftarrow> str_field (z_uuid z) ''holdId'' body;
          key \<leftarrow> str_field (z_uuid z) ''idempotencyKey'' body;
          Some \<lparr>dto_seatId = seat, dto_holdId = hold, dto_idempotencyKey = key\<rparr> }"

text \<open>The provider's interface (\<open>PSPClient.createIntent\<close>) and the one implementation in use.\<close>

record create_intent_opts =
  ci_amountCents :: int
  ci_currency :: string
  ci_idempotencyKey :: uuid
  ci_seatId :: uuid
  ci_userId :: uuid
  ci_holdId :: uuid
  ci_traceId :: uuid

type_synonym psp_client = "create_intent_opts \<Rightarrow> (string \<times> string) promise"

definition mock_psp :: "string \<Rightarrow> psp_client" where
  "mock_psp random opts = Some (0, Inr (psp_createIntent (ci_idempotencyKey opts) random))"

text \<open>What the handler draws from outside: \<open>randomUUID()\<close> twice and the breaker's clock readings.\<close>

record checkout_fresh =
  cf_trace :: uuid
  cf_intentId :: uuid
  cf_now1 :: instant
  cf_now2 :: instant

record checkout_response =
  co_intentId :: uuid
  co_clientSecret :: "string option"
  co_amountCents :: int
  co_currency :: string
  co_idempotent :: bool

definition checkout_response_of :: "bool \<Rightarrow> intent_row \<Rightarrow> checkout_response" where
  "checkout_response_of idem i =
     \<lparr>co_intentId = i_id i, co_clientSecret = i_client_secret i, co_amountCents = i_amount_cents i,
      co_currency = i_currency i, co_idempotent = idem\<rparr>"

text \<open>
  The insertion with its race: a unique violation looks the key up again, and the intent found is the
  answer (Inl); the intent created is Inr.
\<close>

definition create_or_find ::
    "uuid \<Rightarrow> intent_opts \<Rightarrow> (payment_db, 'x, intent_row + intent_row) dbm" where
  "create_or_find newId opts =
     try_catch
       (bindM (createIntent newId opts) (\<lambda>i. retM (Inr i)))
       (\<lambda>e. if is_unique_violation e
             then bindM (findByIdempotencyKey (op_idempotencyKey opts)) (\<lambda>existing.
                  case existing of Some i \<Rightarrow> retM (Inl i) | None \<Rightarrow> throwM e)
             else throwM e)"

text \<open>From the price on: the provider call behind the breaker, the insertion, the answer.\<close>

definition checkout_priced ::
    "'e cb_env_scheme \<Rightarrow> psp_client \<Rightarrow> checkout_fresh \<Rightarrow> uuid \<Rightarrow> uuid \<Rightarrow> checkout_dto \<Rightarrow> price_row \<Rightarrow>
     (payment_db, 'x payment_proc_ext, checkout_response) dbm" where
  "checkout_priced env psp fr userId traceId dto p =
     bindM (try_catch
       (breaker_exec (cb_env.truncate env) (cf_now1 fr)
         (\<lambda>_. psp \<lparr>ci_amountCents = sp_price_cents p, ci_currency = sp_currency p,
                   ci_idempotencyKey = dto_idempotencyKey dto, ci_seatId = dto_seatId dto,
                   ci_userId = userId, ci_holdId = dto_holdId dto, ci_traceId = traceId\<rparr>)
         (cf_now2 fr))
       (\<lambda>e. throwM (Http_Error 400 ''psp_unavailable''))) (\<lambda>pspResult.
     bindM (create_or_find (cf_intentId fr)
       \<lparr>op_seatId = dto_seatId dto, op_userId = userId, op_holdId = dto_holdId dto,
        op_amountCents = sp_price_cents p, op_currency = sp_currency p,
        op_idempotencyKey = dto_idempotencyKey dto,
        op_pspIntentId = fst pspResult, op_clientSecret = snd pspResult\<rparr>) (\<lambda>res.
     case res of
       Inl i \<Rightarrow> retM (checkout_response_of True i)
     | Inr i \<Rightarrow> bindM inc_initiated (\<lambda>_. retM (checkout_response_of False i))))"

definition checkout ::
    "'e cb_env_scheme \<Rightarrow> zod_formats \<Rightarrow> psp_client \<Rightarrow> checkout_fresh \<Rightarrow> uuid \<Rightarrow> string option \<Rightarrow> json \<Rightarrow>
     (payment_db, 'x payment_proc_ext, checkout_response) dbm" where
  "checkout env z psp fr userId header body =
     (case CheckoutDto z body of
        None \<Rightarrow> throwM Zod_Error
      | Some dto \<Rightarrow>
          let traceId = resolveTraceId header (cf_trace fr) in
          bindM (findByIdempotencyKey (dto_idempotencyKey dto)) (\<lambda>existing.
          case existing of
            Some i \<Rightarrow> retM (checkout_response_of True i)
          | None \<Rightarrow>
              bindM (getSeatPrice (dto_seatId dto)) (\<lambda>price.
              case price of
                None \<Rightarrow> throwM (Http_Error 400 ''seat_price_unknown'')
              | Some p \<Rightarrow> checkout_priced env psp fr userId traceId dto p)))"

end
