(* ===== verification/Webhooks.thy ===== *)
theory Webhooks
  imports Checkout
begin

text \<open>
  POST /api/payment/webhook and the processing of the inbox: apps/payment/src/webhooks/
  webhooks.controller.ts and webhook-reprocessor.ts. The handler verifies, records and queues an
  event; the queued callback and the reprocessor both process it, in either order and any number of
  times, and \<open>process_effect\<close> is what processing amounts to.
\<close>

subsection \<open>The event's fields\<close>

text \<open>
  A value given to \<open>pg\<close> as a text parameter: null and undefined are NULL, numbers and booleans their
  text; \<open>pg_text\<close> is the driver's text of an object or array.
\<close>

definition text_param :: "(json \<Rightarrow> string) \<Rightarrow> json option \<Rightarrow> string option" where
  "text_param pg_text v =
     (case v of
        None \<Rightarrow> None
      | Some JNull \<Rightarrow> None
      | Some (JStr s) \<Rightarrow> Some s
      | Some (JInt n) \<Rightarrow> Some (int_string n)
      | Some (JBool b) \<Rightarrow> Some (if b then ''true'' else ''false'')
      | Some j \<Rightarrow> Some (pg_text j))"

text \<open>\<open>event.data.object.id\<close>; reading a property of null or undefined throws.\<close>

definition js_prop :: "string \<Rightarrow> json option \<Rightarrow> exn + json option" where
  "js_prop k v =
     (case v of
        None \<Rightarrow> Inl (Js_Error ''TypeError'')
      | Some JNull \<Rightarrow> Inl (Js_Error ''TypeError'')
      | Some j \<Rightarrow> Inr (jget k j))"

definition psp_id_of :: "json \<Rightarrow> exn + json option" where
  "psp_id_of ev =
     (case js_prop ''data'' (Some ev) of
        Inl e \<Rightarrow> Inl e
      | Inr d \<Rightarrow> (case js_prop ''object'' d of Inl e \<Rightarrow> Inl e | Inr ob \<Rightarrow> js_prop ''id'' ob))"

definition TYPE_SUCCEEDED :: string where "TYPE_SUCCEEDED = ''payment_intent.succeeded''"

definition TYPE_FAILED :: string where "TYPE_FAILED = ''payment_intent.payment_failed''"

subsection \<open>processEvent\<close>

definition inc_completed :: "(payment_db, 'x payment_proc_ext, unit) dbm" where
  "inc_completed = modifyM (\<lambda>s. s\<lparr>paymentCompletedTotal := Suc (paymentCompletedTotal s)\<rparr>)"

definition inc_failed :: "(payment_db, 'x payment_proc_ext, unit) dbm" where
  "inc_failed = modifyM (\<lambda>s. s\<lparr>paymentFailedTotal := Suc (paymentFailedTotal s)\<rparr>)"

definition count_closed ::
    "(payment_db, 'x payment_proc_ext, unit) dbm \<Rightarrow> close_result \<Rightarrow> (payment_db, 'x payment_proc_ext, unit) dbm" where
  "count_closed inc r = (case r of Closed i \<Rightarrow> inc | Not_Closed reason \<Rightarrow> retM ())"

definition processEvent ::
    "(json \<Rightarrow> string) \<Rightarrow> uuid \<Rightarrow> instant \<Rightarrow> json \<Rightarrow> string \<Rightarrow> (payment_db, 'x payment_proc_ext, unit) dbm" where
  "processEvent pg_text eventId occ ev traceId =
     bindM
       (if jget ''type'' ev = Some (JStr TYPE_SUCCEEDED)
        then bindM (liftM (psp_id_of ev)) (\<lambda>psp.
             bindM (markCompleted (text_param pg_text psp) eventId traceId occ) (count_closed inc_completed))
        else if jget ''type'' ev = Some (JStr TYPE_FAILED)
        then bindM (liftM (psp_id_of ev)) (\<lambda>psp.
             bindM (markFailed (text_param pg_text psp) ''payment_failed'' eventId traceId occ)
               (count_closed inc_failed))
        else retM ())
       (\<lambda>_. markWebhookProcessed (text_param pg_text (jget ''id'' ev)))"

subsection \<open>The handler\<close>

definition inc_received :: "(payment_db, 'x payment_proc_ext, unit) dbm" where
  "inc_received = modifyM (\<lambda>s. s\<lparr>webhookReceivedTotal := Suc (webhookReceivedTotal s)\<rparr>)"

definition inc_deduped :: "(payment_db, 'x payment_proc_ext, unit) dbm" where
  "inc_deduped = modifyM (\<lambda>s. s\<lparr>webhookDedupedTotal := Suc (webhookDedupedTotal s)\<rparr>)"

definition set_immediate :: "json \<Rightarrow> uuid \<Rightarrow> (payment_db, 'x payment_proc_ext, unit) dbm" where
  "set_immediate ev traceId = modifyM (\<lambda>s. s\<lparr>immediates := immediates s @ [(ev, traceId)]\<rparr>)"

definition intentsInsertInbox :: "(json \<Rightarrow> string) \<Rightarrow> json \<Rightarrow> (payment_db, 'x, bool) dbm" where
  "intentsInsertInbox pg_text ev =
     insertWebhookInbox (text_param pg_text (jget ''id'' ev)) (text_param pg_text (jget ''type'' ev)) ev"

record webhook_response =
  wr_received :: bool
  wr_deduplicated :: bool

definition created_of :: "json \<Rightarrow> int" where
  "created_of ev = (case jget ''created'' ev of Some (JInt n) \<Rightarrow> n | _ \<Rightarrow> 0)"

record webhook_ext =
  x_hmac :: "string \<Rightarrow> string \<Rightarrow> string"
  x_json_parse :: "string \<Rightarrow> json option"
  x_pg_text :: "json \<Rightarrow> string"

definition webhook ::
    "webhook_ext \<Rightarrow> payment_env \<Rightarrow> instant \<Rightarrow> uuid \<Rightarrow> string option \<Rightarrow> string option \<Rightarrow> string option \<Rightarrow>
     (payment_db, 'x payment_proc_ext, webhook_response) dbm" where
  "webhook x env now fresh header signature rawBody =
     (let traceId = resolveTraceId header fresh in
      if signature = None \<or> signature = Some [] then throwM (Http_Error 401 ''missing_signature'')
      else case rawBody of
        None \<Rightarrow> throwM (Http_Error 400 ''raw_body_required'')
      | Some raw \<Rightarrow>
          bindM (try_catch
            (liftM (constructEventFromWebhook (x_hmac x) (x_json_parse x) (PSP_WEBHOOK_SECRET env) raw
              (the signature)))
            (\<lambda>e. throwM (Http_Error 401 ''invalid_signature''))) (\<lambda>ev.
          if WEBHOOK_TOLERANCE_MS env < now - created_of ev * 1000
          then throwM (Http_Error 401 ''stale_event'')
          else
            bindM inc_received (\<lambda>_.
            bindM (intentsInsertInbox (x_pg_text x) ev) (\<lambda>inserted.
            if \<not> inserted
            then bindM inc_deduped (\<lambda>_. retM \<lparr>wr_received = True, wr_deduplicated = True\<rparr>)
            else
              bindM (set_immediate ev traceId) (\<lambda>_.
              retM \<lparr>wr_received = True, wr_deduplicated = False\<rparr>)))))"

text \<open>The event loop runs the oldest callback; its rejection is only logged.\<close>

definition run_immediate ::
    "(json \<Rightarrow> string) \<Rightarrow> uuid \<Rightarrow> instant \<Rightarrow> (payment_db, 'x payment_proc_ext, unit) dbm" where
  "run_immediate pg_text eventId occ =
     bindM (getsM immediates) (\<lambda>q.
     case q of
       [] \<Rightarrow> retM ()
     | (ev, traceId) # rest \<Rightarrow>
         bindM (modifyM (\<lambda>s. s\<lparr>immediates := rest\<rparr>)) (\<lambda>_.
         try_catch (processEvent pg_text eventId occ ev traceId) (\<lambda>e. retM ())))"

subsection \<open>The reprocessor\<close>

text \<open>What \<open>reprocess\<close> draws: the UUID of its trace id, the event id and the date of the event.\<close>

type_synonym reprocess_fresh = "uuid \<times> uuid \<times> instant"

definition reprocess ::
    "(json \<Rightarrow> string) \<Rightarrow> reprocess_fresh \<Rightarrow> inbox_row \<Rightarrow> (payment_db, 'x, unit) dbm" where
  "reprocess pg_text fr row =
     (case fr of (u, eventId, occ) \<Rightarrow>
        let traceId = ''reprocess-'' @ u; ev = w_payload row in
        try_catch
          (bindM
            (if w_type row = TYPE_SUCCEEDED
             then bindM (liftM (psp_id_of ev)) (\<lambda>psp.
                  bindM (markCompleted (text_param pg_text psp) eventId traceId occ) (\<lambda>_. retM ()))
             else if w_type row = TYPE_FAILED
             then bindM (liftM (psp_id_of ev)) (\<lambda>psp.
                  bindM (markFailed (text_param pg_text psp) ''payment_failed'' eventId traceId occ) (\<lambda>_. retM ()))
             else retM ())
            (\<lambda>_. markWebhookProcessed (Some (w_stripe_event_id row))))
          (\<lambda>e. retM ()))"

definition set_running :: "bool \<Rightarrow> 'x payment_proc_scheme \<Rightarrow> 'x payment_proc_scheme" where
  "set_running b s = s\<lparr>reproc_running := b\<rparr>"

definition reprocessor_tick ::
    "(json \<Rightarrow> string) \<Rightarrow> (nat \<Rightarrow> reprocess_fresh) \<Rightarrow> (payment_db, 'x payment_proc_ext, unit) dbm" where
  "reprocessor_tick pg_text fresh =
     bindM (getsM reproc_running) (\<lambda>running.
     if running then retM ()
     else
       bindM (modifyM (set_running True)) (\<lambda>_.
       finallyM
         (bindM (query select_unprocessed) (\<lambda>rows.
          forM (enumerate 0 rows) (\<lambda>(k, row). reprocess pg_text (fresh k) row)))
         (set_running False)))"

end
