(* ===== verification/Seat_Events.thy ===== *)
theory Seat_Events
  imports Webhooks
begin

text \<open>
  SeatEventsConsumer of apps/payment/src/events/seat-events.consumer.ts: the handler of queue
  payment.seat-events, which cancels the pending intents of a released seat.
\<close>

definition cancel_intents ::
    "uuid \<Rightarrow> instant \<Rightarrow> event \<Rightarrow> (payment_db, 'x, unit) dbm" where
  "cancel_intents newEventId occ ev =
     (case ev of
        SeatReleased meta seatId hold reason \<Rightarrow>
          bindM (markFailedBySeatId seatId ''seat_released'' newEventId (m_traceId meta) occ) (\<lambda>r. retM ())
      | _ \<Rightarrow> retM ())"

definition handle_seat_event ::
    "zod_formats \<Rightarrow> (string \<Rightarrow> json option) \<Rightarrow> uuid \<Rightarrow> instant \<Rightarrow> string \<Rightarrow> (payment_db, 'x, settle) dbm" where
  "handle_seat_event z json_parse newEventId occ content =
     (case parse_event (SeatReleasedV1 z) json_parse content of
        None \<Rightarrow> retM (Nack False)
      | Some ev \<Rightarrow>
          try_catch
            (bindM (cancel_intents newEventId occ ev) (\<lambda>_. retM Ack))
            (\<lambda>e. retM (Nack True)))"

definition cancel_effect :: "uuid \<Rightarrow> instant \<Rightarrow> event \<Rightarrow> (payment_db, unit) stmt" where
  "cancel_effect newEventId occ ev =
     (case ev of
        SeatReleased meta seatId hold reason \<Rightarrow>
          discarding (mark_failed_by_seat_spec seatId ''seat_released'' newEventId (m_traceId meta) occ)
      | _ \<Rightarrow> \<lambda>now d. Inr ((), d))"

lemma wp_cancel_intents:
  assumes "idle G d n m s"
  shows "wp (cancel_intents newEventId occ ev)
    (\<lambda>_ s'. \<exists>m'. atomic_ok G (cancel_effect newEventId occ ev) d n m' () s')
    (\<lambda>e s'. \<exists>m'. atomic_err G (cancel_effect newEventId occ ev) d n m' e s') s"
proof (cases ev)
  case (SeatReleased meta seatId hold reason)
  show ?thesis
    unfolding cancel_intents_def cancel_effect_def SeatReleased event.case(2)
    by (rule mark_failed_by_seat.wp_then [OF assms]) (auto simp: wp_ret)
qed (use assms idle_refl [OF assms] in \<open>auto simp: cancel_intents_def wp_simps cancel_effect_def atomic_ok_def\<close>)

text \<open>The handler's answer and what it says of the database.\<close>

definition seat_event_handled where
  "seat_event_handled G ev_of st d n r s' \<longleftrightarrow>
     (case r of
        Ack \<Rightarrow> \<exists>ev m'. ev_of = Some ev \<and> atomic_ok G (st ev) d n m' () s'
      | Nack requeue \<Rightarrow>
          if requeue then \<exists>ev m' e. ev_of = Some ev \<and> atomic_err G (st ev) d n m' e s'
          else ev_of = None \<and> (\<exists>m'. idle G d n m' s'))"

lemma wp_handle_seat_event:
  assumes "idle G d n m s"
  shows "wp (handle_seat_event z json_parse newEventId occ content)
    (seat_event_handled G (parse_event (SeatReleasedV1 z) json_parse content) (cancel_effect newEventId occ) d n)
    (\<lambda>_ _. False) s"
proof (cases "parse_event (SeatReleasedV1 z) json_parse content")
  case None
  then show ?thesis using assms by (auto simp: handle_seat_event_def wp_simps seat_event_handled_def)
next
  case (Some ev)
  show ?thesis
    unfolding handle_seat_event_def Some option.case wp_try wp_bind wp_ret
    by (rule wp_mono [OF wp_cancel_intents [OF assms]]) (auto simp: seat_event_handled_def)
qed

end
