(* ===== verification/Payment_Machine.thy ===== *)
theory Payment_Machine
  imports Seat_Events
begin

text \<open>
  The payment service as a state machine: a step is a checkout, a webhook, the next queued callback, a
  tick of the reprocessor or a seat event, run to its end on a connection whose calls may fail at any
  point while other sessions commit. The invariant \<open>pay_inv\<close> ties the outbox to the intents: an
  intent has at most one event, which is the one of its final status and carries its ids and amount.
\<close>

subsection \<open>One event per closed intent\<close>

definition event_of_status :: "intent_status \<Rightarrow> string option" where
  "event_of_status st =
     (case st of
        PI_PENDING \<Rightarrow> None
      | PI_COMPLETED \<Rightarrow> Some ''payment.succeeded.v1''
      | PI_FAILED \<Rightarrow> Some ''payment.failed.v1'')"

definition tells :: "json \<Rightarrow> string \<Rightarrow> intent_row \<Rightarrow> bool" where
  "tells j ty i \<longleftrightarrow>
     jget ''schema'' j = Some (JStr ty) \<and> jget ''paymentIntentId'' j = Some (JStr (i_id i)) \<and>
     jget ''seatId'' j = Some (JStr (i_seat_id i)) \<and> jget ''userId'' j = Some (JStr (i_user_id i)) \<and>
     jget ''holdId'' j = Some (JStr (i_hold_id i)) \<and>
     (ty = ''payment.succeeded.v1'' \<longrightarrow> jget ''amountCents'' j = Some (JInt (i_amount_cents i)))"

lemma tells_payloads [simp]:
  "tells (payment_succeeded_payload eventId i traceId occ) ''payment.succeeded.v1'' i"
  "tells (payment_failed_payload eventId i reason traceId occ) ''payment.failed.v1'' i"
  by (simp_all add: tells_def payment_succeeded_payload_def payment_failed_payload_def)

lemma tells_close_row [simp]: "tells j ty (close_row st now i) = tells j ty i"
  by (simp add: tells_def)

definition outbox_agrees :: "payment_db \<Rightarrow> bool" where
  "outbox_agrees d \<longleftrightarrow>
     distinct (map o_aggregate_id (outbox d)) \<and>
     (\<forall>ob \<in> set (outbox d). \<exists>i \<in> set (intents d).
        i_id i = o_aggregate_id ob \<and> event_of_status (i_status i) = Some (o_event_type ob) \<and>
        tells (o_payload ob) (o_event_type ob) i)"

definition pay_inv :: "payment_db \<Rightarrow> bool" where
  "pay_inv d \<longleftrightarrow> payment_db_ok d \<and> outbox_agrees d"

definition pay_steps :: "payment_db \<Rightarrow> payment_db \<Rightarrow> bool" where
  "pay_steps d d' \<longleftrightarrow> (pay_inv d \<longrightarrow> pay_inv d' \<and> payments_evolve d d')"

lemma pay_steps_refl [simp]: "pay_steps d d"
  by (simp add: pay_steps_def)

lemma pay_steps_trans: "pay_steps a b \<Longrightarrow> pay_steps b c \<Longrightarrow> pay_steps a c"
  unfolding pay_steps_def by (metis payments_evolve_trans)

lemma pay_steps_preorder: "reflp pay_steps" "transp pay_steps"
  by (rule reflpI, simp) (rule transpI, rule pay_steps_trans)

text \<open>Changes that leave the outbox alone keep it in agreement: closed intents do not change.\<close>

lemma outbox_agrees_evolve:
  assumes "outbox_agrees d" and "outbox d' = outbox d" and "payments_evolve d d'"
  shows "outbox_agrees d'"
proof -
  obtain xs new where xs: "intents d' = xs @ new" "list_all2 intent_evolves (intents d) xs"
    using assms(3) by (auto simp: payments_evolve_def)
  have "i \<in> set (intents d')" if "i \<in> set (intents d)" "\<not> pending_intent i" for i
  proof -
    obtain k where k: "k < length (intents d)" "i = intents d ! k"
      using \<open>i \<in> set (intents d)\<close> by (auto simp: in_set_conv_nth)
    then have "intent_evolves i (xs ! k)" "k < length xs" using xs(2) by (auto simp: list_all2_conv_all_nth)
    then show ?thesis using that(2) by (auto simp: intent_evolves_def xs(1))
  qed
  then show ?thesis
    using assms(1,2) unfolding outbox_agrees_def by (fastforce simp: event_of_status_def)
qed

lemma pay_steps_rel:
  assumes "pay_rel d d'" and "outbox d' = outbox d"
  shows "pay_steps d d'"
  using assms outbox_agrees_evolve by (auto simp: pay_rel_def pay_steps_def pay_inv_def)

lemma pay_steps_stmt:
  "insert_intent newId opts now d = Inr (row, d') \<Longrightarrow> pay_steps d d'"
  "insert_inbox eid ty payload now d = Inr (n, d') \<Longrightarrow> pay_steps d d'"
  "mark_processed eid now d = Inr (u, d') \<Longrightarrow> pay_steps d d'"
proof -
  show "pay_steps d d'" if "insert_intent newId opts now d = Inr (row, d')"
    by (rule pay_steps_rel [OF pay_rel_insert_intent [OF that]])
      (use that in \<open>auto simp: insert_intent_def Let_def split: if_splits\<close>)
  show "pay_steps d d'" if "insert_inbox eid ty payload now d = Inr (n, d')"
    by (rule pay_steps_rel [OF pay_rel_inbox(1) [OF that]])
      (use that in \<open>auto simp: insert_inbox_def split: option.splits if_splits\<close>)
  show "pay_steps d d'" if "mark_processed eid now d = Inr (u, d')"
    by (rule pay_steps_rel [OF pay_rel_inbox(2) [OF that]])
      (use that in \<open>auto simp: mark_processed_def\<close>)
qed

lemma pay_steps_select:
  "select_seat_price seatId now d = Inr (p, d') \<Longrightarrow> pay_steps d d'"
  "select_by_key key now d = Inr (i, d') \<Longrightarrow> pay_steps d d'"
  "select_unprocessed now d = Inr (rows, d') \<Longrightarrow> pay_steps d d'"
  by (auto simp: payment_stmt_defs)

lemma pending_unannounced:
  assumes inv: "pay_inv d" and i: "i \<in> set (intents d)" "pending_intent i"
  shows "i_id i \<notin> o_aggregate_id ` set (outbox d)"
proof
  assume "i_id i \<in> o_aggregate_id ` set (outbox d)"
  then obtain j where "j \<in> set (intents d)" "i_id j = i_id i" "event_of_status (i_status j) \<noteq> None"
    using inv by (fastforce simp: pay_inv_def outbox_agrees_def)
  moreover from this have "j = i"
    using inv i(1) by (auto simp: pay_inv_def payment_db_ok_def distinct_map dest: inj_onD)
  ultimately show False using i(2) by (simp add: event_of_status_def)
qed

lemma pay_steps_close:
  assumes "close_spec P st ty ev traceId now d = Inr (r, d')" and "st \<noteq> PI_PENDING"
    and "event_of_status st = Some ty" and "\<And>i. tells (ev i) ty i"
  shows "pay_steps d d'"
proof (cases "filter (\<lambda>i. P i \<and> pending_intent i) (intents d)")
  case Nil
  then show ?thesis using assms(1) by (simp add: close_spec_def Let_def)
next
  case (Cons i rest)
  let ?Q = "\<lambda>i. P i \<and> pending_intent i"
  let ?u = "upd_where ?Q (close_row st now) (intents d)"
  have i: "i \<in> set (intents d)" "?Q i" using Cons by (auto dest!: arg_cong [where f = set])
  have d': "intents d' = ?u"
      "outbox d' = outbox d @ [new_outbox_row (Suc (outbox_seq d)) now (i_id i) ty (ev (close_row st now i))
         [(''traceId'', traceId), (''userId'', i_user_id i)]]"
    using assms(1) by (auto simp: close_spec_one [OF Cons])
  have rel: "pay_rel d d'" using pay_rel_close_spec [OF assms(1,2)] .
  have "outbox_agrees d'" if inv: "pay_inv d"
  proof -
    have old: "\<exists>j \<in> set (intents d). i_id j = o_aggregate_id ob \<and>
        event_of_status (i_status j) = Some (o_event_type ob) \<and> tells (o_payload ob) (o_event_type ob) j"
      if "ob \<in> set (outbox d)" for ob
      using inv that by (simp add: pay_inv_def outbox_agrees_def)
    have kept: "\<exists>j \<in> set ?u. i_id j = o_aggregate_id ob \<and>
        event_of_status (i_status j) = Some (o_event_type ob) \<and> tells (o_payload ob) (o_event_type ob) j"
      if "ob \<in> set (outbox d)" for ob
      unfolding bex_upd_where using old [OF that] by (auto simp: event_of_status_def split: intent_status.splits)
    have "i_id i \<notin> o_aggregate_id ` set (outbox d)" by (rule pending_unannounced [OF inv i(1)]) (use i(2) in simp)
    moreover have "\<exists>j \<in> set ?u. i_id j = i_id i \<and> event_of_status (i_status j) = Some ty \<and>
        tells (ev (close_row st now i)) ty j"
      unfolding bex_upd_where using i assms(3) assms(4) [of "close_row st now i"]
      by (intro bexI [of _ i]) simp_all
    ultimately show ?thesis
      using kept inv unfolding outbox_agrees_def d'
      by (simp only: set_append map_append ball_Un) (simp add: pay_inv_def outbox_agrees_def)
  qed
  then show ?thesis using rel by (simp add: pay_steps_def pay_rel_def pay_inv_def)
qed

lemma pay_steps_marks:
  "mark_completed_spec psp eventId traceId occ now d = Inr (r, d') \<Longrightarrow> pay_steps d d'"
  "mark_failed_spec psp reason eventId traceId occ now d = Inr (r, d') \<Longrightarrow> pay_steps d d'"
  "mark_failed_by_seat_spec seatId reason eventId traceId occ now d = Inr (r, d') \<Longrightarrow> pay_steps d d'"
  by (erule pay_steps_close; simp add: event_of_status_def)+

subsection \<open>Steps\<close>

text \<open>The other sessions: other replicas of the service and its outbox worker.\<close>

definition sessions :: "payment_db environment" where
  "sessions = \<lparr>rel = pay_steps, faulty = True\<rparr>"

lemma sessions_sel [simp]: "rel sessions = pay_steps" "faulty sessions"
  by (simp_all add: sessions_def)

definition abides :: "payment_db tick list \<Rightarrow> bool" where
  "abides sc \<longleftrightarrow> (\<forall>t \<in> set sc. \<forall>d. pay_steps d (others t d))"

inductive payment_step ::
    "payment_env \<Rightarrow> zod_formats \<Rightarrow> psp_client \<Rightarrow> webhook_ext \<Rightarrow> payment_proc \<Rightarrow> payment_proc \<Rightarrow> bool"
  for env z psp x where
  checkout: "abides sc \<Longrightarrow> checkout env z psp fr userId header body (s\<lparr>script := sc\<rparr>) = (r, s') \<Longrightarrow>
    payment_step env z psp x s s'"
| webhook: "abides sc \<Longrightarrow>
    webhook x env now fresh header signature rawBody (s\<lparr>script := sc\<rparr>) = (a, s') \<Longrightarrow>
    payment_step env z psp x s s'"
| immediate: "abides sc \<Longrightarrow> run_immediate (x_pg_text x) eventId occ (s\<lparr>script := sc\<rparr>) = (u, s') \<Longrightarrow>
    payment_step env z psp x s s'"
| reprocessor: "abides sc \<Longrightarrow> reprocessor_tick (x_pg_text x) freshes (s\<lparr>script := sc\<rparr>) = (u, s') \<Longrightarrow>
    payment_step env z psp x s s'"
| seat_event: "abides sc \<Longrightarrow>
    handle_seat_event z (x_json_parse x) eventId occ content (s\<lparr>script := sc\<rparr>) = (v, s') \<Longrightarrow>
    payment_step env z psp x s s'"
| other: "pay_steps (committed s) d \<Longrightarrow> payment_step env z psp x s (s\<lparr>committed := d\<rparr>)"

inductive payment_reach ::
    "payment_env \<Rightarrow> zod_formats \<Rightarrow> psp_client \<Rightarrow> webhook_ext \<Rightarrow> payment_proc \<Rightarrow> payment_proc \<Rightarrow> bool"
  for env z psp x where
  start: "payment_reach env z psp x s s"
| step: "payment_reach env z psp x s s1 \<Longrightarrow> payment_step env z psp x s1 s2 \<Longrightarrow>
    payment_reach env z psp x s s2"

subsection \<open>The guarantees of the handlers\<close>

lemma payment_bookkeeping [simp]:
  fixes f :: "'y payment_proc_scheme \<Rightarrow> 'y payment_proc_scheme"
  shows "bookkeeping (\<lambda>s. s\<lparr>paymentInitiatedTotal := Suc (paymentInitiatedTotal (s :: 'y payment_proc_scheme))\<rparr>)"
    "bookkeeping (\<lambda>s. s\<lparr>paymentCompletedTotal := Suc (paymentCompletedTotal (s :: 'y payment_proc_scheme))\<rparr>)"
    "bookkeeping (\<lambda>s. s\<lparr>paymentFailedTotal := Suc (paymentFailedTotal (s :: 'y payment_proc_scheme))\<rparr>)"
    "bookkeeping (\<lambda>s. s\<lparr>webhookReceivedTotal := Suc (webhookReceivedTotal (s :: 'y payment_proc_scheme))\<rparr>)"
    "bookkeeping (\<lambda>s. s\<lparr>webhookDedupedTotal := Suc (webhookDedupedTotal (s :: 'y payment_proc_scheme))\<rparr>)"
    "bookkeeping (\<lambda>s. s\<lparr>immediates := q (s :: 'y payment_proc_scheme)\<rparr>)"
    "bookkeeping (set_running b :: 'y payment_proc_scheme \<Rightarrow> 'y payment_proc_scheme)"
  by (simp_all add: bookkeeping_def set_running_def)

lemma guarantees_counters [guarantee]:
  "guarantees sessions inc_initiated" "guarantees sessions inc_completed" "guarantees sessions inc_failed"
  "guarantees sessions inc_received" "guarantees sessions inc_deduped"
  "guarantees sessions (set_immediate ev traceId)"
  unfolding inc_initiated_def inc_completed_def inc_failed_def inc_received_def inc_deduped_def
    set_immediate_def
  by (rule guarantee, simp)+

lemma guarantees_methods [guarantee]:
  "guarantees sessions (markCompleted psp eventId traceId occ)"
  "guarantees sessions (markFailed psp reason eventId traceId occ)"
  "guarantees sessions (markFailedBySeatId seatId reason eventId traceId occ)"
  by (rule mark_completed.guaranteed mark_failed.guaranteed mark_failed_by_seat.guaranteed,
      simp add: pay_steps_marks)+

lemma guarantees_queries [guarantee]:
  "guarantees sessions (findByIdempotencyKey key)" "guarantees sessions (getSeatPrice seatId)"
  "guarantees sessions (createIntent newId opts)" "guarantees sessions (markWebhookProcessed eid)"
  "guarantees sessions (insertWebhookInbox eid ty payload)"
  "guarantees sessions (query select_unprocessed)"
  unfolding findByIdempotencyKey_def getSeatPrice_def createIntent_def markWebhookProcessed_def
    insertWebhookInbox_def
  by (auto intro!: guarantees_query guarantee intro: pay_steps_stmt pay_steps_select)

lemma guarantees_breaker [guarantee]: "guarantees sessions (breaker_exec env now1 fn now2)"
proof -
  have "settled sessions d n (s\<lparr>breaker_of := b\<rparr>)" if "idle sessions d n m s"
    for d n m b and s :: "'y payment_proc_scheme"
    using settledI [of sessions d n "conn.more (s\<lparr>breaker_of := b\<rparr>)" "s\<lparr>breaker_of := b\<rparr>"] that
    by (simp add: conn_state_defs)
  then show ?thesis
    by (auto simp: guarantees_def wp_def breaker_exec_def split: prod.split sum.split)
qed

lemma guarantees_checkout: "guarantees sessions (checkout env z psp fr userId header body)"
  unfolding checkout_def checkout_priced_def create_or_find_def Let_def by (rule guarantee)+

lemma guarantees_processEvent [guarantee]: "guarantees sessions (processEvent pg_text eventId occ ev traceId)"
proof -
  have "guarantees sessions (count_closed inc r)" if "guarantees sessions inc" for inc r
    using that by (cases r) (simp_all add: count_closed_def guarantee)
  then show ?thesis unfolding processEvent_def by (intro guarantee) (auto intro: guarantee)
qed

lemma guarantees_webhook:
  "guarantees sessions (webhook x env now fresh header signature rawBody)"
  unfolding webhook_def intentsInsertInbox_def Let_def by (rule guarantee)+

lemma guarantees_run_immediate: "guarantees sessions (run_immediate pg_text eventId occ)"
  unfolding run_immediate_def by (intro guarantee) simp

lemma guarantees_reprocessor: "guarantees sessions (reprocessor_tick pg_text freshes)"
  unfolding reprocessor_tick_def reprocess_def Let_def by (intro guarantee) simp_all

lemma guarantees_seat_event: "guarantees sessions (handle_seat_event z json_parse eventId occ content)"
proof -
  have "guarantees sessions (cancel_intents eventId occ ev)" for ev
    by (cases ev) (auto simp: cancel_intents_def intro!: guarantee)
  then show ?thesis unfolding handle_seat_event_def by (intro guarantee)
qed

subsection \<open>What a run keeps\<close>

definition pay_settled :: "payment_db \<Rightarrow> nat \<Rightarrow> payment_proc \<Rightarrow> bool" where
  "pay_settled d n s \<longleftrightarrow> pay_steps d (committed s) \<and> checked_out s = n \<and> tx s = None"

lemma abides_idle:
  "abides sc \<Longrightarrow> tx s = None \<Longrightarrow>
     idle sessions (committed s) (checked_out s) (conn.more s) (s\<lparr>script := sc\<rparr>)"
  using pay_steps_preorder by (auto simp: conn_state_defs abides_def)

lemma guarantees_run:
  assumes "guarantees sessions op" and "abides sc" and "tx s = None"
    and "op (s\<lparr>script := sc\<rparr>) = (r, s')"
  shows "pay_settled (committed s) (checked_out s) s'"
  using wpD [OF guaranteesD [OF assms(1) abides_idle [OF assms(2,3)]] assms(4)]
  by (auto simp: settled_def pay_settled_def dest!: idleD split: sum.splits)

lemma payment_step_settled:
  "payment_step env z psp x s s' \<Longrightarrow> tx s = None \<Longrightarrow> pay_settled (committed s) (checked_out s) s'"
proof (induction rule: payment_step.induct)
  case (other s d)
  then show ?case by (simp add: pay_settled_def)
qed (metis guarantees_run guarantees_checkout guarantees_webhook guarantees_run_immediate
  guarantees_reprocessor guarantees_seat_event)+

lemma payment_reach_settled:
  "payment_reach env z psp x s s' \<Longrightarrow> tx s = None \<Longrightarrow> pay_settled (committed s) (checked_out s) s'"
proof (induction rule: payment_reach.induct)
  case (start s)
  then show ?case by (simp add: pay_settled_def)
next
  case (step s s1 s2)
  then have "pay_settled (committed s) (checked_out s) s1" by simp
  moreover from this have "pay_settled (committed s1) (checked_out s1) s2"
    using payment_step_settled [OF step.hyps(2)] by (simp add: pay_settled_def)
  ultimately show ?case unfolding pay_settled_def using pay_steps_trans by metis
qed

text \<open>A closed intent is one forever.\<close>

lemma payments_evolve_keep:
  assumes "payments_evolve d d'" and "i \<in> set (intents d)"
  shows "\<exists>i' \<in> set (intents d'). intent_evolves i i'"
proof -
  obtain xs new where xs: "intents d' = xs @ new" "list_all2 intent_evolves (intents d) xs"
    using assms(1) by (auto simp: payments_evolve_def)
  obtain k where k: "k < length (intents d)" "i = intents d ! k"
    using assms(2) by (auto simp: in_set_conv_nth)
  then have "intent_evolves i (xs ! k)" "k < length xs" using xs(2) by (auto simp: list_all2_conv_all_nth)
  then show ?thesis unfolding xs(1) by force
qed

end
