(* ===== verification/Checkout_Contract.thy ===== *)
theory Checkout_Contract
  imports Payment_Machine
begin

text \<open>
  The contract of the checkout handler in the presence of other sessions (\<open>sessions\<close>): the answer
  describes the only intent of its idempotency key, and a new intent carries the price of the local
  price table; and the undisturbed run, where it always answers.
\<close>

text \<open>\<open>i\<close> is the one intent of the key.\<close>

definition key_intent :: "uuid \<Rightarrow> payment_db \<Rightarrow> intent_row \<Rightarrow> bool" where
  "key_intent key d i \<longleftrightarrow>
     i \<in> set (intents d) \<and> (\<forall>j \<in> set (intents d). i_idempotency_key j = key \<longleftrightarrow> j = i)"

definition opened_from :: "intent_opts \<Rightarrow> intent_row \<Rightarrow> bool" where
  "opened_from opts i \<longleftrightarrow>
     pending_intent i \<and> i_seat_id i = op_seatId opts \<and> i_user_id i = op_userId opts \<and>
     i_hold_id i = op_holdId opts \<and> i_amount_cents i = op_amountCents opts \<and>
     i_currency i = op_currency opts \<and> i_psp_intent_id i = Some (op_pspIntentId opts) \<and>
     i_client_secret i = Some (op_clientSecret opts)"

lemma key_intent_found:
  assumes "payment_db_ok d" and "select_by_key key now d = Inr (Some i, d')"
  shows "d' = d \<and> key_intent key d i"
proof -
  have d: "d' = d" "find (\<lambda>j. i_idempotency_key j = key) (intents d) = Some i"
    using assms(2) by (auto simp: select_by_key_def)
  then have "i \<in> set (intents d)" "i_idempotency_key i = key" using find_SomeD [OF d(2)] by simp_all
  moreover have "distinct (map i_idempotency_key (intents d))" using assms(1) by (simp add: payment_db_ok_def)
  ultimately show ?thesis using d(1) by (auto simp: key_intent_def distinct_map dest: inj_onD)
qed

lemma insert_intent_key:
  assumes "insert_intent newId opts now d = Inr (i, d')"
  shows "key_intent (op_idempotencyKey opts) d' i \<and> opened_from opts i"
  using assms by (auto simp: insert_intent_def Let_def key_intent_def opened_from_def split: if_splits)

definition answered :: "intent_opts \<Rightarrow> payment_db \<Rightarrow> intent_row + intent_row \<Rightarrow> bool" where
  "answered opts d r \<longleftrightarrow>
     (case r of
        Inl i \<Rightarrow> key_intent (op_idempotencyKey opts) d i
      | Inr i \<Rightarrow> key_intent (op_idempotencyKey opts) d i \<and> opened_from opts i)"

lemma pay_steps_ok: "pay_steps d d' \<Longrightarrow> pay_inv d \<Longrightarrow> pay_inv d' \<and> payment_db_ok d' \<and> seat_prices d' = seat_prices d"
  by (simp add: pay_steps_def pay_inv_def payments_evolve_def)

lemma wp_create_or_find:
  assumes i: "idle sessions d n m s" and inv: "pay_inv d"
  shows "wp (create_or_find newId opts)
    (\<lambda>r s'. \<exists>d'. pay_steps d d' \<and> idle sessions d' n m s' \<and> answered opts d' r) (\<lambda>_ _. True) s"
proof -
  have find: "wp (findByIdempotencyKey (op_idempotencyKey opts))
      (\<lambda>x. wp (case x of Some i \<Rightarrow> retM (Inl i) | None \<Rightarrow> throwM e)
        (\<lambda>r s'. \<exists>d'. pay_steps d d' \<and> idle sessions d' n m s' \<and> answered opts d' r) (\<lambda>_ _. True))
      (\<lambda>_ _. True) s1" if "pay_steps d d1" "idle sessions d1 n m s1" for d1 s1 e
    unfolding findByIdempotencyKey_def
  proof (rule wp_query_auto [OF that(2)])
    fix d0 now a d' s2
    assume a: "rel sessions d1 d0" "select_by_key (op_idempotencyKey opts) now d0 = Inr (a, d')" "idle sessions d' n m s2"
    then have d0: "pay_steps d d0" using that(1) pay_steps_trans by simp
    show "wp (case a of Some i \<Rightarrow> retM (Inl i) | None \<Rightarrow> throwM e)
        (\<lambda>r s'. \<exists>d'. pay_steps d d' \<and> idle sessions d' n m s' \<and> answered opts d' r) (\<lambda>_ _. True) s2"
    proof (cases a)
      case (Some j)
      then have "d' = d0" "key_intent (op_idempotencyKey opts) d0 j"
        using key_intent_found pay_steps_ok [OF d0 inv] a(2) by blast+
      then show ?thesis using Some d0 a(3) by (auto simp: wp_ret answered_def)
    qed (simp add: wp_throw)
  qed simp_all
  show ?thesis
    unfolding create_or_find_def createIntent_def wp_try wp_bind
  proof (rule wp_query_auto [OF i])
    fix d0 now a d' s1
    assume a: "rel sessions d d0" "insert_intent newId opts now d0 = Inr (a, d')" "idle sessions d' n m s1"
    then have "pay_steps d d'" using pay_steps_trans pay_steps_stmt(1) by fastforce
    then show "wp (retM (Inr a)) (\<lambda>r s'. \<exists>d'. pay_steps d d' \<and> idle sessions d' n m s' \<and> answered opts d' r)
        (\<lambda>e. wp (if is_unique_violation e
             then bindM (findByIdempotencyKey (op_idempotencyKey opts)) (\<lambda>existing.
                  case existing of None \<Rightarrow> throwM e | Some i \<Rightarrow> retM (Inl i))
             else throwM e) (\<lambda>r s'. \<exists>d'. pay_steps d d' \<and> idle sessions d' n m s' \<and> answered opts d' r) (\<lambda>_ _. True)) s1"
      using a insert_intent_key by (auto simp: wp_ret answered_def)
  next
    fix d0 now e s1 assume "rel sessions d d0" "idle sessions d0 n m s1"
    then show "wp (if is_unique_violation e
             then bindM (findByIdempotencyKey (op_idempotencyKey opts)) (\<lambda>existing.
                  case existing of None \<Rightarrow> throwM e | Some i \<Rightarrow> retM (Inl i))
             else throwM e) (\<lambda>r s'. \<exists>d'. pay_steps d d' \<and> idle sessions d' n m s' \<and> answered opts d' r) (\<lambda>_ _. True) s1"
      using find by (simp add: wp_bind wp_throw)
  qed (simp_all add: wp_throw)
qed

lemma wp_breaker_exec:
  assumes "idle G d n m s"
    and "\<And>a m' s'. idle G d n m' s' \<Longrightarrow> Q a s'" and "\<And>e m' s'. idle G d n m' s' \<Longrightarrow> E e s'"
  shows "wp (breaker_exec env now1 fn now2) Q E s"
proof -
  have "idle G d n (conn.more (s\<lparr>breaker_of := b\<rparr>)) (s\<lparr>breaker_of := b\<rparr>)" for b
    using assms(1) by (simp add: conn_state_defs)
  from assms(2,3) [OF this] show ?thesis
    by (auto simp: wp_def breaker_exec_def split: prod.split sum.split)
qed

subsection \<open>In the presence of other sessions\<close>

definition checkout_ok :: "checkout_dto \<Rightarrow> uuid \<Rightarrow> payment_db \<Rightarrow> payment_db \<Rightarrow> checkout_response \<Rightarrow> bool" where
  "checkout_ok dto userId d d' resp \<longleftrightarrow>
     (\<exists>i. key_intent (dto_idempotencyKey dto) d' i \<and> resp = checkout_response_of (co_idempotent resp) i \<and>
       (\<not> co_idempotent resp \<longrightarrow>
          pending_intent i \<and> i_seat_id i = dto_seatId dto \<and> i_hold_id i = dto_holdId dto \<and>
          i_user_id i = userId \<and>
          (\<exists>p \<in> set (seat_prices d). sp_seat_id p = dto_seatId dto \<and>
             i_amount_cents i = sp_price_cents p \<and> i_currency i = sp_currency p)))"

lemma wp_checkout_priced:
  fixes s :: "'x payment_proc_scheme"
  assumes i: "idle sessions d1 n m s" and d1: "pay_steps d d1" and inv: "pay_inv d"
    and p: "p \<in> set (seat_prices d)" "sp_seat_id p = dto_seatId dto"
  shows "wp (checkout_priced env psp fr userId traceId dto p)
    (\<lambda>resp s'. \<exists>d' m'. idle sessions d' n m' s' \<and> checkout_ok dto userId d d' resp) (\<lambda>_ _. True) s"
  unfolding checkout_priced_def wp_bind wp_try wp_throw
proof (rule wp_breaker_exec [OF i])
  fix a m1 and s1 :: "'x payment_proc_scheme"
  let ?opts = "\<lparr>op_seatId = dto_seatId dto, op_userId = userId, op_holdId = dto_holdId dto,
    op_amountCents = sp_price_cents p, op_currency = sp_currency p,
    op_idempotencyKey = dto_idempotencyKey dto, op_pspIntentId = fst a, op_clientSecret = snd a\<rparr>"
  let ?Q = "\<lambda>resp s'. \<exists>d' m'. idle sessions d' n m' s' \<and> checkout_ok dto userId d d' resp"
  let ?k = "\<lambda>res. case res of
      Inl i \<Rightarrow> retM (checkout_response_of True i)
    | Inr i \<Rightarrow> bindM inc_initiated (\<lambda>_. retM (checkout_response_of False i))"
  assume s1: "idle sessions d1 n m1 s1"
  have "wp (?k r) ?Q (\<lambda>_ _. True) s2" if "idle sessions d' n m1 s2" "answered ?opts d' r"
    for r d' and s2 :: "'x payment_proc_scheme"
  proof (cases r)
    case (Inl j)
    then have "checkout_ok dto userId d d' (checkout_response_of True j)"
      using that(2) by (auto simp: checkout_ok_def answered_def checkout_response_of_def)
    then show ?thesis using Inl that(1) by (auto simp: wp_ret)
  next
    case (Inr j)
    have "idle sessions d' n (conn.more (s2\<lparr>paymentInitiatedTotal := k\<rparr>)) (s2\<lparr>paymentInitiatedTotal := k\<rparr>)" for k
      using that(1) by (simp add: conn_state_defs)
    moreover have "checkout_ok dto userId d d' (checkout_response_of False j)"
      using that(2) p Inr by (auto simp: checkout_ok_def answered_def checkout_response_of_def opened_from_def)
    ultimately show ?thesis using Inr by (auto simp: wp_bind wp_ret inc_initiated_def wp_modify)
  qed
  then show "wp (create_or_find (cf_intentId fr) ?opts) (\<lambda>r. wp (?k r) ?Q (\<lambda>_ _. True)) (\<lambda>_ _. True) s1"
    by (intro wp_mono [OF wp_create_or_find [OF s1]]) (use pay_steps_ok [OF d1 inv] in auto)
qed simp

lemma wp_price:
  assumes i: "idle sessions d1 n m s" and d1: "pay_steps d d1" and inv: "pay_inv d"
    and none: "\<And>s'. wp (f None) Q (\<lambda>_ _. True) s'"
    and some: "\<And>d2 p s'. pay_steps d d2 \<Longrightarrow> idle sessions d2 n m s' \<Longrightarrow> p \<in> set (seat_prices d) \<Longrightarrow>
      sp_seat_id p = seatId \<Longrightarrow> wp (f (Some p)) Q (\<lambda>_ _. True) s'"
  shows "wp (getSeatPrice seatId) (\<lambda>x. wp (f x) Q (\<lambda>_ _. True)) (\<lambda>_ _. True) s"
  unfolding getSeatPrice_def
proof (rule wp_query_auto [OF i])
  fix d2 now p d' s'
  assume a: "rel sessions d1 d2" "select_seat_price seatId now d2 = Inr (p, d')" "idle sessions d' n m s'"
  then have d2: "pay_steps d d2" "d' = d2" using d1 pay_steps_trans by (auto simp: select_seat_price_def)
  show "wp (f p) Q (\<lambda>_ _. True) s'"
  proof (cases p)
    case (Some q)
    then have "q \<in> set (seat_prices d2)" "sp_seat_id q = seatId"
      using a(2) find_SomeD by (fastforce simp: select_seat_price_def)+
    then show ?thesis using some [OF d2(1)] a(3) pay_steps_ok [OF d2(1) inv] Some d2(2) by simp
  qed (simp add: none)
qed simp_all

lemma wp_checkout:
  assumes i: "idle sessions d n m s" and inv: "pay_inv d"
  shows "wp (checkout env z psp fr userId header body)
    (\<lambda>resp s'. \<exists>dto d' m'. CheckoutDto z body = Some dto \<and> idle sessions d' n m' s' \<and>
       checkout_ok dto userId d d' resp) (\<lambda>_ _. True) s"
proof (cases "CheckoutDto z body")
  case None
  then show ?thesis by (simp add: checkout_def wp_throw)
next
  case (Some dto)
  let ?Q = "\<lambda>resp s'. \<exists>d' m'. idle sessions d' n m' s' \<and> checkout_ok dto userId d d' resp"
  let ?rest = "\<lambda>price. case price of
      None \<Rightarrow> throwM (Http_Error 400 ''seat_price_unknown'')
    | Some p \<Rightarrow> checkout_priced env psp fr userId (resolveTraceId header (cf_trace fr)) dto p"
  have "wp (checkout env z psp fr userId header body) ?Q (\<lambda>_ _. True) s"
    unfolding checkout_def Some option.case Let_def wp_bind findByIdempotencyKey_def
  proof (rule wp_query_auto [OF i])
    fix d0 now a d' s1
    assume a: "rel sessions d d0" "select_by_key (dto_idempotencyKey dto) now d0 = Inr (a, d')" "idle sessions d' n m s1"
    have d0: "pay_steps d d0" "d' = d0" using a(1,2) by (auto simp: select_by_key_def)
    show "wp (case a of None \<Rightarrow> bindM (getSeatPrice (dto_seatId dto)) ?rest
        | Some i \<Rightarrow> retM (checkout_response_of True i)) ?Q (\<lambda>_ _. True) s1"
    proof (cases a)
      case None
      have "wp (getSeatPrice (dto_seatId dto)) (\<lambda>x. wp (?rest x) ?Q (\<lambda>_ _. True)) (\<lambda>_ _. True) s1"
        by (rule wp_price [OF a(3) _ inv]) (use d0 wp_checkout_priced [OF _ _ inv] in \<open>auto simp: wp_throw\<close>)
      then show ?thesis using None by (simp add: wp_bind)
    next
      case (Some j)
      have "key_intent (dto_idempotencyKey dto) d0 j"
        using key_intent_found pay_steps_ok [OF d0(1) inv] a(2) Some by blast
      then have "checkout_ok dto userId d d' (checkout_response_of True j)"
        by (auto simp: checkout_ok_def checkout_response_of_def d0(2))
      then show ?thesis using a(3) Some by (auto simp: wp_ret)
    qed
  qed simp_all
  then show ?thesis by (rule wp_mono) (use Some in auto)
qed

end
