(* ===== verification/Webhook_Contract.thy ===== *)
theory Webhook_Contract
  imports Payment_Machine
begin

text \<open>
  The contract of webhook processing: an accepted event is processed by its callback, by the
  reprocessor, or by both, each attempt failing anywhere; \<open>attempted\<close> is what one attempt does to the
  database, and all attempts together have the effect of one.
\<close>

subsection \<open>One attempt\<close>

text \<open>What processing an event of type \<open>ty\<close> for the provider's intent \<open>psp\<close> does, as a statement.\<close>

definition process_spec ::
    "string \<Rightarrow> string option \<Rightarrow> uuid \<Rightarrow> string \<Rightarrow> instant \<Rightarrow> (payment_db, unit) stmt" where
  "process_spec ty psp eventId traceId occ =
     (if ty = TYPE_SUCCEEDED then discarding (mark_completed_spec psp eventId traceId occ)
      else if ty = TYPE_FAILED then discarding (mark_failed_spec psp ''payment_failed'' eventId traceId occ)
      else (\<lambda>now d. Inr ((), d)))"

definition attempted :: "string \<Rightarrow> string option \<Rightarrow> string \<Rightarrow> payment_db \<Rightarrow> payment_db \<Rightarrow> bool" where
  "attempted ty psp eid d d' \<longleftrightarrow>
     d' = d \<or>
     (\<exists>eventId traceId occ now d1. process_spec ty psp eventId traceId occ now d = Inr ((), d1) \<and>
        (d' = d1 \<or> (\<exists>now'. mark_processed (Some eid) now' d1 = Inr ((), d'))))"

text \<open>An event whose closing method has been called and that has then been marked.\<close>

lemma attempted_refl [simp]: "attempted ty psp eid d d"
  by (simp add: attempted_def)

lemma types_differ [simp]: "TYPE_FAILED \<noteq> TYPE_SUCCEEDED" "TYPE_SUCCEEDED \<noteq> TYPE_FAILED"
  by (simp_all add: TYPE_SUCCEEDED_def TYPE_FAILED_def)

lemma process_spec_cases:
  "process_spec TYPE_SUCCEEDED psp eventId traceId occ = discarding (mark_completed_spec psp eventId traceId occ)"
  "process_spec TYPE_FAILED psp eventId traceId occ =
     discarding (mark_failed_spec psp ''payment_failed'' eventId traceId occ)"
  "ty \<noteq> TYPE_SUCCEEDED \<Longrightarrow> ty \<noteq> TYPE_FAILED \<Longrightarrow> process_spec ty psp eventId traceId occ now d = Inr ((), d)"
  by (simp_all add: process_spec_def)

text \<open>The body both callers share: close, then mark the inbox row, on a connection of which no other
  session disturbs the database.\<close>

definition close_of ::
    "(json \<Rightarrow> string) \<Rightarrow> string \<Rightarrow> json \<Rightarrow> uuid \<Rightarrow> string \<Rightarrow> instant \<Rightarrow>
     (close_result \<Rightarrow> (payment_db, 'x, unit) dbm) \<Rightarrow> (close_result \<Rightarrow> (payment_db, 'x, unit) dbm) \<Rightarrow>
     (payment_db, 'x, unit) dbm" where
  "close_of pg_text ty ev eventId traceId occ k k' =
     (if ty = TYPE_SUCCEEDED
      then bindM (liftM (psp_id_of ev)) (\<lambda>psp.
           bindM (markCompleted (text_param pg_text psp) eventId traceId occ) k)
      else if ty = TYPE_FAILED
      then bindM (liftM (psp_id_of ev)) (\<lambda>psp.
           bindM (markFailed (text_param pg_text psp) ''payment_failed'' eventId traceId occ) k')
      else retM ())"

definition noting :: "('a \<Rightarrow> (payment_db, 'x, unit) dbm) \<Rightarrow> bool" where
  "noting k \<longleftrightarrow> (\<forall>a G d n m s. idle G d n m s \<longrightarrow>
     wp (k a) (\<lambda>_ s'. \<exists>m'. idle G d n m' s') (\<lambda>_ _. False) s)"

lemma noting_ret: "noting (\<lambda>_. retM ())"
  by (auto simp: noting_def wp_ret)

lemma noting_count: "noting (count_closed inc_completed)" "noting (count_closed inc_failed)"
  by (auto simp: noting_def count_closed_def wp_ret inc_completed_def inc_failed_def wp_modify
      conn_state_defs split: close_result.split)

lemma wp_close_of:
  assumes i: "idle G d n m s" and k: "noting k" "noting k'"
    and psp: "psp_id_of ev = Inr psp"
  shows "wp (close_of pg_text ty ev eventId traceId occ k k')
    (\<lambda>_ s'. \<exists>m'. atomic_ok G (process_spec ty (text_param pg_text psp) eventId traceId occ) d n m' () s')
    (\<lambda>e s'. \<exists>m'. atomic_err G (process_spec ty (text_param pg_text psp) eventId traceId occ) d n m' e s') s"
proof -
  let ?p = "text_param pg_text psp"
  have 1: "wp (bindM (markCompleted ?p eventId traceId occ) k)
      (\<lambda>_ s'. \<exists>m'. atomic_ok G (discarding (mark_completed_spec ?p eventId traceId occ)) d n m' () s')
      (\<lambda>e s'. \<exists>m'. atomic_err G (discarding (mark_completed_spec ?p eventId traceId occ)) d n m' e s') s"
    by (rule mark_completed.wp_then [OF i]) (use k(1) in \<open>simp add: noting_def\<close>)
  have 2: "wp (bindM (markFailed ?p ''payment_failed'' eventId traceId occ) k')
      (\<lambda>_ s'. \<exists>m'. atomic_ok G (discarding (mark_failed_spec ?p ''payment_failed'' eventId traceId occ)) d n m' () s')
      (\<lambda>e s'. \<exists>m'. atomic_err G (discarding (mark_failed_spec ?p ''payment_failed'' eventId traceId occ)) d n m' e s') s"
    by (rule mark_failed.wp_then [OF i]) (use k(2) in \<open>simp add: noting_def\<close>)
  consider "ty = TYPE_SUCCEEDED" | "ty = TYPE_FAILED" | "ty \<noteq> TYPE_SUCCEEDED" "ty \<noteq> TYPE_FAILED" by blast
  then show ?thesis
  proof cases
    case 1
    then show ?thesis
      using \<open>wp (bindM (markCompleted ?p eventId traceId occ) k) _ _ s\<close>
      by (simp add: close_of_def process_spec_cases psp liftM_def wp_bind wp_ret)
  next
    case 2
    then show ?thesis
      using \<open>wp (bindM (markFailed ?p ''payment_failed'' eventId traceId occ) k') _ _ s\<close>
      by (simp add: close_of_def process_spec_cases psp liftM_def wp_bind wp_ret)
  next
    case 3
    then show ?thesis
      using i idle_refl [OF i] by (auto simp: close_of_def process_spec_cases wp_ret atomic_ok_def)
  qed
qed

text \<open>One attempt, with its error caught.\<close>

lemma wp_attempt:
  assumes i: "idle (alone True) d n m s" and k: "noting k" "noting k'"
    and psp: "psp_id_of ev = Inr psp"
  shows "wp (try_catch (bindM (close_of pg_text ty ev eventId traceId occ k k')
      (\<lambda>_. markWebhookProcessed (Some eid))) (\<lambda>e. retM ()))
    (\<lambda>_ s'. \<exists>d' m'. idle (alone True) d' n m' s' \<and> attempted ty (text_param pg_text psp) eid d d')
    (\<lambda>_ _. False) s"
proof -
  let ?st = "process_spec ty (text_param pg_text psp) eventId traceId occ"
  let ?Q = "\<lambda>_ s'. \<exists>d' m'. idle (alone True) d' n m' s' \<and> attempted ty (text_param pg_text psp) eid d d'"
  have done1: "attempted ty (text_param pg_text psp) eid d d1" if "?st now d = Inr (u, d1)" for now u d1
    using that unfolding attempted_def by fastforce
  have done2: "attempted ty (text_param pg_text psp) eid d d2"
    if "?st now d = Inr (u, d1)" "mark_processed (Some eid) now' d1 = Inr (v, d2)" for now now' u v d1 d2
    using that unfolding attempted_def by fastforce
  have mark: "wp (query (mark_processed (Some eid))) ?Q (\<lambda>_. ?Q ()) s1"
    if "atomic_ok (alone True) ?st d n m1 () s1" for m1 s1
  proof -
    obtain now d1 where d1: "?st now d = Inr ((), d1)" "idle (alone True) d1 n m1 s1"
      using \<open>atomic_ok _ _ _ _ _ _ _\<close> by (auto simp: atomic_ok_def)
    show ?thesis
      by (rule wp_query_auto [OF d1(2)]) (use done1 [OF d1(1)] done2 [OF d1(1)] in auto)
  qed
  have err: "?Q () s1" if "atomic_err (alone True) ?st d n m1 e s1" for m1 e s1
    using that done1 attempted_refl unfolding atomic_err_def environment_sel by blast
  show ?thesis
    unfolding wp_try wp_bind markWebhookProcessed_def wp_ret
    by (rule wp_mono [OF wp_close_of [OF i k psp]]) (use mark err in auto)
qed

subsection \<open>Any number of attempts\<close>

text \<open>
  An attempt of the callback draws an event id, a date and has the trace id of its request; one of
  the reprocessor draws \<open>reprocess_fresh\<close>. Each has its own script.
\<close>

datatype attempt = By_Callback uuid instant uuid | By_Reprocessor reprocess_fresh

fun attempt_op ::
    "(json \<Rightarrow> string) \<Rightarrow> inbox_row \<Rightarrow> attempt \<Rightarrow> (payment_db, 'x payment_proc_ext, unit) dbm" where
  "attempt_op pg_text row (By_Callback eventId occ traceId) =
     try_catch (processEvent pg_text eventId occ (w_payload row) traceId) (\<lambda>e. retM ())"
| "attempt_op pg_text row (By_Reprocessor fr) = reprocess pg_text fr row"

fun attempts ::
    "(json \<Rightarrow> string) \<Rightarrow> inbox_row \<Rightarrow> (payment_db tick list \<times> attempt) list \<Rightarrow> payment_proc \<Rightarrow> payment_proc" where
  "attempts pg_text row [] s = s"
| "attempts pg_text row ((sc, a) # as) s =
     attempts pg_text row as (snd (attempt_op pg_text row a (s\<lparr>script := sc\<rparr>)))"

text \<open>The inbox row the handler made of an event with string id and type.\<close>

definition row_of_event :: "inbox_row \<Rightarrow> bool" where
  "row_of_event row \<longleftrightarrow>
     jget ''id'' (w_payload row) = Some (JStr (w_stripe_event_id row)) \<and>
     jget ''type'' (w_payload row) = Some (JStr (w_type row))"

lemma processEvent_shape:
  "row_of_event row \<Longrightarrow> processEvent pg_text eventId occ (w_payload row) traceId =
     bindM (close_of pg_text (w_type row) (w_payload row) eventId traceId occ
       (count_closed inc_completed) (count_closed inc_failed))
       (\<lambda>_. markWebhookProcessed (Some (w_stripe_event_id row)))"
  by (simp add: processEvent_def close_of_def row_of_event_def text_param_def)

lemma reprocess_shape:
  "reprocess pg_text (u, eventId, occ) row =
     try_catch (bindM (close_of pg_text (w_type row) (w_payload row) eventId (''reprocess-'' @ u) occ
       (\<lambda>_. retM ()) (\<lambda>_. retM ())) (\<lambda>_. markWebhookProcessed (Some (w_stripe_event_id row)))) (\<lambda>e. retM ())"
  by (simp add: reprocess_def close_of_def Let_def)

lemma wp_attempt_op:
  assumes "idle (alone True) d n m s" and "row_of_event row" and "psp_id_of (w_payload row) = Inr psp"
  shows "wp (attempt_op pg_text row a)
    (\<lambda>_ s'. \<exists>d' m'. idle (alone True) d' n m' s' \<and>
       attempted (w_type row) (text_param pg_text psp) (w_stripe_event_id row) d d') (\<lambda>_ _. False) s"
proof (cases a)
  case (By_Callback eventId occ traceId)
  show ?thesis
    unfolding By_Callback attempt_op.simps processEvent_shape [OF assms(2)]
    by (rule wp_attempt [OF assms(1) noting_count assms(3)])
next
  case (By_Reprocessor fr)
  obtain u eventId occ where fr: "fr = (u, eventId, occ)" by (cases fr)
  show ?thesis
    unfolding By_Reprocessor fr attempt_op.simps reprocess_shape
    by (rule wp_attempt [OF assms(1) noting_ret noting_ret assms(3)])
qed

subsection \<open>Together they have the effect of one\<close>

text \<open>\<open>d'\<close> is \<open>d\<close> after the event's statement, up to the inbox.\<close>

definition processed_once :: "string \<Rightarrow> string option \<Rightarrow> payment_db \<Rightarrow> payment_db \<Rightarrow> bool" where
  "processed_once ty psp d d' \<longleftrightarrow>
     (\<exists>eventId traceId occ now d1. process_spec ty psp eventId traceId occ now d = Inr ((), d1) \<and>
        intents d' = intents d1 \<and> outbox d' = outbox d1)"

lemma process_spec_again:
  assumes "process_spec ty psp eventId traceId occ now d = Inr ((), d1)" and "intents d2 = intents d1"
  shows "process_spec ty psp eventId' traceId' occ' now' d2 = Inr ((), d2)"
proof -
  have noop: "close_spec (by_psp psp) st' ty' ev' tr' now' d2 = Inr (Not_Closed ''no_pending_intent'', d2)"
    if "close_spec (by_psp psp) st ty1 ev tr now d = Inr (r, d1)" "st \<noteq> PI_PENDING"
    for st ty1 ev tr r st' ty' ev' tr'
    by (rule close_spec_noop) (use close_spec_closes [OF that] assms(2) in auto)
  consider "ty = TYPE_SUCCEEDED" | "ty = TYPE_FAILED" | "ty \<noteq> TYPE_SUCCEEDED" "ty \<noteq> TYPE_FAILED" by blast
  then show ?thesis
    by cases (use assms(1) noop in \<open>force simp: process_spec_cases\<close>)+
qed

lemma attempted_once:
  assumes "d = d0 \<or> processed_once ty psp d0 d" and "attempted ty psp eid d d'"
  shows "d' = d0 \<or> processed_once ty psp d0 d'"
proof -
  have frame: "intents d2 = intents d1 \<and> outbox d2 = outbox d1"
    if "mark_processed (Some eid) now' d1 = Inr ((), d2)" for now' d1 d2
    using that by (auto simp: mark_processed_def)
  consider "d' = d" | eventId traceId occ now d1 where
      "process_spec ty psp eventId traceId occ now d = Inr ((), d1)" "intents d' = intents d1" "outbox d' = outbox d1"
    using assms(2) frame unfolding attempted_def by blast
  then show ?thesis
  proof cases
    case 1
    then show ?thesis using assms(1) by simp
  next
    case 2
    show ?thesis
    proof (cases "d = d0")
      case True
      then show ?thesis using 2 unfolding processed_once_def by blast
    next
      case False
      then obtain eventId' traceId' occ' now0 d2 where
        d2: "process_spec ty psp eventId' traceId' occ' now0 d0 = Inr ((), d2)" "intents d = intents d2" "outbox d = outbox d2"
        using assms(1) unfolding processed_once_def by blast
      have "d1 = d" using process_spec_again [OF d2(1,2)] 2(1) by auto
      then show ?thesis using 2 d2 unfolding processed_once_def by metis
    qed
  qed
qed

lemma attempts_once:
  assumes row: "row_of_event row" "psp_id_of (w_payload row) = Inr psp"
    and sc: "\<forall>(sc, a) \<in> set as. \<forall>t \<in> set sc. others t = id" and tx: "tx s = None"
    and d: "committed s = d0 \<or> processed_once (w_type row) (text_param pg_text psp) d0 (committed s)"
  shows "tx (attempts pg_text row as s) = None \<and>
    checked_out (attempts pg_text row as s) = checked_out s \<and>
    (committed (attempts pg_text row as s) = d0 \<or>
     processed_once (w_type row) (text_param pg_text psp) d0 (committed (attempts pg_text row as s)))"
  using sc tx d
proof (induction "as" arbitrary: s)
  case (Cons x "as")
  obtain sc a where x: "x = (sc, a)" by (cases x)
  let ?s = "s\<lparr>script := sc\<rparr>"
  obtain r s1 where r: "attempt_op pg_text row a ?s = (r, s1)" by (cases "attempt_op pg_text row a ?s")
  have q: "quiet ?s" using Cons.prems(1) by (auto simp: quiet_def x)
  have i: "idle (alone True) (committed s) (checked_out s) (conn.more s) ?s"
    using quiet_idle [OF q] Cons.prems(2) by simp
  have "tx s1 = None \<and> checked_out s1 = checked_out s \<and>
      attempted (w_type row) (text_param pg_text psp) (w_stripe_event_id row) (committed s) (committed s1)"
    using wpD [OF wp_attempt_op [OF i row] r] by (auto dest!: idleD split: sum.splits)
  then show ?case
    using Cons.IH [of s1] attempted_once [OF Cons.prems(3)] Cons.prems(1) by (auto simp: x r)
qed simp

text \<open>An attempt none of whose calls fails has the effect and marks the row.\<close>

lemma wp_mark_after:
  assumes "atomic_ok (alone False) st d n m1 () s1"
    and "\<And>now d1 now' d'. st now d = Inr ((), d1) \<Longrightarrow> mark_processed eid now' d1 = Inr ((), d') \<Longrightarrow> P d'"
  shows "wp (query (mark_processed eid)) (\<lambda>_ s'. P (committed s')) (\<lambda>_ s'. P (committed s')) s1"
proof -
  obtain now d1 where d1: "st now d = Inr ((), d1)" "idle (alone False) d1 n m1 s1"
    using assms(1) by (auto simp: atomic_ok_def)
  show ?thesis
  proof (rule wp_query_auto [OF d1(2)])
    fix d2 now' u d' s2
    assume "rel (alone False) d1 d2" "mark_processed eid now' d2 = Inr (u, d')" "idle (alone False) d' n m1 s2"
    then have "mark_processed eid now' d1 = Inr ((), committed s2)" by (auto dest!: idleD)
    with d1(1) show "P (committed s2)" by (rule assms(2))
  qed (simp_all add: mark_processed_def)
qed

lemma reliable_attempt:
  assumes row: "row_of_event row" "psp_id_of (w_payload row) = Inr psp"
    and s: "quiet s" "reliable s" "tx s = None" and r: "attempt_op pg_text row a s = (r, s')"
  shows "\<exists>eventId traceId occ now d1 now'.
    process_spec (w_type row) (text_param pg_text psp) eventId traceId occ now (committed s) = Inr ((), d1) \<and>
    mark_processed (Some (w_stripe_event_id row)) now' d1 = Inr ((), committed s')"
proof -
  let ?P = "\<lambda>d'. \<exists>eventId traceId occ now d1 now'.
    process_spec (w_type row) (text_param pg_text psp) eventId traceId occ now (committed s) = Inr ((), d1) \<and>
    mark_processed (Some (w_stripe_event_id row)) now' d1 = Inr ((), d')"
  have i: "idle (alone False) (committed s) (checked_out s) (conn.more s) s"
    using s by (rule reliable_idle)
  have tot: "process_spec ty psp eventId traceId occ now d \<noteq> Inl e" for ty psp eventId traceId occ now d e
    by (simp add: process_spec_def close_spec_def Let_def)
  have go: "wp (try_catch (bindM (close_of pg_text (w_type row) (w_payload row) eventId traceId occ k k')
      (\<lambda>_. markWebhookProcessed (Some (w_stripe_event_id row)))) (\<lambda>e. retM ()))
      (\<lambda>_ s'. ?P (committed s')) (\<lambda>_ _. False) s" if k: "noting k" "noting k'" for eventId traceId occ k k'
  proof -
    let ?st = "process_spec (w_type row) (text_param pg_text psp) eventId traceId occ"
    have mark: "wp (query (mark_processed (Some (w_stripe_event_id row)))) (\<lambda>_ s'. ?P (committed s'))
        (\<lambda>_ s'. ?P (committed s')) s1"
      if "atomic_ok (alone False) ?st (committed s) (checked_out s) m1 () s1" for m1 s1
      by (rule wp_mark_after [OF that]) blast
    show ?thesis
      unfolding wp_try wp_bind markWebhookProcessed_def wp_ret
      by (rule wp_mono [OF wp_close_of [OF i k row(2)]]) (use mark tot in \<open>auto simp: atomic_err_def\<close>)
  qed
  have "wp (attempt_op pg_text row a) (\<lambda>_ s'. ?P (committed s')) (\<lambda>_ _. False) s"
  proof (cases a)
    case (By_Callback eventId occ traceId)
    show ?thesis
      unfolding By_Callback attempt_op.simps processEvent_shape [OF row(1)] by (rule go [OF noting_count])
  next
    case (By_Reprocessor fr)
    obtain u eventId occ where fr: "fr = (u, eventId, occ)" by (cases fr)
    show ?thesis unfolding By_Reprocessor fr attempt_op.simps reprocess_shape by (rule go [OF noting_ret noting_ret])
  qed
  from wpD [OF this r] show ?thesis by (simp split: sum.splits)
qed

end
