(* ===== verification/Payment_Properties.thy ===== *)
theory Payment_Properties
  imports Checkout_Contract Webhook_Contract
begin

text \<open>
  What the payment service promises, theorem by theorem, each with a run on a small database
  (\<open>pay_db\<close>: a pending and a completed intent, two prices), and the ways in which it does not keep
  the promises its comments make.
\<close>

subsection \<open>A small database\<close>

definition uid :: "char \<Rightarrow> uuid" where
  "uid c = ''00000000-0000-4000-8000-00000000000'' @ [c]"

definition pay_intent :: "char \<Rightarrow> uuid \<Rightarrow> intent_status \<Rightarrow> intent_row" where
  "pay_intent c seat st =
     \<lparr>i_id = uid c, i_seat_id = seat, i_user_id = uid (CHR ''a''), i_hold_id = uid (CHR ''b''),
      i_amount_cents = 5000, i_currency = ''USD'', i_psp_intent_id = Some (''pi_mock_'' @ uid c),
      i_status = st, i_idempotency_key = uid c, i_client_secret = Some ''sec'', i_created_at = 0,
      i_completed_at = (if st = PI_PENDING then None else Some 5)\<rparr>"

abbreviation seat1 :: uuid where "seat1 \<equiv> uid (CHR ''1'')"

definition pay_db :: payment_db where
  "pay_db =
     \<lparr>outbox = [], outbox_seq = 0,
      intents = [pay_intent (CHR ''7'') seat1 PI_PENDING, pay_intent (CHR ''8'') seat1 PI_COMPLETED],
      inbox = [],
      seat_prices = [\<lparr>sp_seat_id = seat1, sp_price_cents = 5000, sp_currency = ''USD'', sp_label = ''A1''\<rparr>]\<rparr>"

definition pay :: "payment_db tick list \<Rightarrow> payment_proc" where
  "pay sc =
     \<lparr>committed = pay_db, tx = None, tx_failed = False, tx_now = 1000, script = sc, checked_out = 0,
      breaker_of = new_breaker, immediates = [], reproc_running = False, paymentInitiatedTotal = 0,
      paymentCompletedTotal = 0, paymentFailedTotal = 0, webhookReceivedTotal = 0, webhookDedupedTotal = 0\<rparr>"

definition pay_fine :: "payment_db tick" where
  "pay_fine = \<lparr>others = id, clock = 1000, fate = Runs\<rparr>"

definition pay_failing :: "payment_db tick" where
  "pay_failing = \<lparr>others = id, clock = 1000, fate = Fails_after Conn_Lost\<rparr>"

definition pay_env :: payment_env where
  "pay_env = \<lparr>PSP_TIMEOUT_MS = 5000, PSP_CB_ERROR_THRESHOLD = 50, PSP_CB_RESET_MS = 30000,
     WEBHOOK_TOLERANCE_MS = 300000, PSP_WEBHOOK_SECRET = ''whsec_0123456789''\<rparr>"

definition pay_fresh :: checkout_fresh where
  "pay_fresh = \<lparr>cf_trace = uid (CHR ''c''), cf_intentId = uid (CHR ''9''), cf_now1 = 1000, cf_now2 = 1000\<rparr>"

definition pay_body :: "char \<Rightarrow> json" where
  "pay_body k = JObj [(''seatId'', JStr seat1), (''holdId'', JStr (uid (CHR ''b''))),
     (''idempotencyKey'', JStr (uid k))]"

lemma pay_sel [simp]:
  "committed (pay sc) = pay_db" "tx (pay sc) = None" "script (pay sc) = sc" "checked_out (pay sc) = 0"
  "breaker_of (pay sc) = new_breaker" "immediates (pay sc) = []" "quiet (pay [])" "reliable (pay [])"
  "quiet (pay (replicate k pay_fine @ [pay_failing]))" "abides []"
  by (auto simp: pay_def quiet_def reliable_def pay_fine_def pay_failing_def abides_def)

lemma pay_db_inv: "pay_inv pay_db"
  by code_simp

subsection \<open>Checkout\<close>

text \<open>C20: What a checkout answers, whatever the other sessions commit and whatever calls of the
  database fail. If POST /api/payment/checkout answers, then the answer describes the one intent that
  has the request's idempotency key, even when a concurrent request with that key won the race; and
  if it says the intent is new, then the intent is pending, belongs to the caller and the requested
  seat and hold, and its amount and currency are those of the local price table, never the client's.\<close>

theorem checkout_answer:
  fixes s :: payment_proc
  assumes "abides (script s)" and "tx s = None" and "pay_inv (committed s)"
    and "checkout env z psp fr userId header body s = (Inr resp, s')"
  shows "\<exists>dto i. CheckoutDto z body = Some dto \<and> i \<in> set (intents (committed s')) \<and>
    (\<forall>j \<in> set (intents (committed s')). i_idempotency_key j = dto_idempotencyKey dto \<longleftrightarrow> j = i) \<and>
    resp = checkout_response_of (co_idempotent resp) i \<and>
    (\<not> co_idempotent resp \<longrightarrow>
       pending_intent i \<and> i_seat_id i = dto_seatId dto \<and> i_hold_id i = dto_holdId dto \<and>
       i_user_id i = userId \<and>
       (\<exists>p \<in> set (seat_prices (committed s)). sp_seat_id p = dto_seatId dto \<and>
          i_amount_cents i = sp_price_cents p \<and> i_currency i = sp_currency p))"
proof -
  have "idle sessions (committed s) (checked_out s) (conn.more s) s"
    using abides_idle [OF assms(1,2)] by simp
  from wpD [OF wp_checkout [OF this assms(3)] assms(4)] show ?thesis
    by (auto simp: checkout_ok_def key_intent_def dest!: idleD)
qed

text \<open>Here another request inserts the key between the look-up and the insertion.\<close>

definition rival :: "payment_db \<Rightarrow> payment_db" where
  "rival d =
     (case insert_intent (uid (CHR ''f'')) \<lparr>op_seatId = seat1, op_userId = uid (CHR ''a''),
        op_holdId = uid (CHR ''b''), op_amountCents = 5000, op_currency = ''USD'',
        op_idempotencyKey = uid (CHR ''5''), op_pspIntentId = ''p'', op_clientSecret = ''x''\<rparr> 0 d of
        Inl e \<Rightarrow> d | Inr (i, d') \<Rightarrow> d')"

definition rival_first :: "payment_db tick list" where
  "rival_first = [pay_fine, pay_fine, \<lparr>others = rival, clock = 1000, fate = Runs\<rparr>]"

lemma rival_abides: "abides rival_first"
  using pay_steps_stmt(1) by (auto simp: abides_def rival_first_def rival_def pay_fine_def split: sum.split)

theorem checkout_answer_witness:
  "\<exists>dto (i :: intent_row). CheckoutDto zod_shapes (pay_body (CHR ''5'')) = Some dto \<and> i_id i = uid (CHR ''f'') \<and>
     dto_idempotencyKey dto = i_idempotency_key i"
proof -
  let ?op = "checkout pay_env zod_shapes (mock_psp ''r'') pay_fresh (uid (CHR ''a'')) None (pay_body (CHR ''5''))
    (pay rival_first)"
  let ?resp = "\<lparr>co_intentId = uid (CHR ''f''), co_clientSecret = Some ''x'', co_amountCents = 5000,
    co_currency = ''USD'', co_idempotent = True\<rparr>"
  have "fst ?op = Inr ?resp" by code_simp
  from checkout_answer [OF _ _ _ run_pair [OF this]] rival_abides pay_db_inv
  obtain dto i where dto: "CheckoutDto zod_shapes (pay_body (CHR ''5'')) = Some dto"
    and i: "i \<in> set (intents (committed (snd ?op)))"
    and key: "\<forall>j \<in> set (intents (committed (snd ?op))). i_idempotency_key j = dto_idempotencyKey dto \<longleftrightarrow> j = i"
    and "?resp = checkout_response_of True i" by auto
  then have "i_id i = uid (CHR ''f'')" by (simp add: checkout_response_of_def)
  moreover have "dto_idempotencyKey dto = i_idempotency_key i" using key i by metis
  ultimately show ?thesis using dto by blast
qed

lemma pay_frame:
  assumes "conn.more s' = conn.more (s :: 'y payment_proc_scheme)"
  shows "breaker_of s' = breaker_of s" "immediates s' = immediates s" "reproc_running s' = reproc_running s"
    "webhookReceivedTotal s' = webhookReceivedTotal s" "webhookDedupedTotal s' = webhookDedupedTotal s"
  using assms by (cases s; cases s'; simp)+

lemma wp_breaker_mock:
  assumes "cb_state (breaker_of s) \<noteq> CB_open" and "0 < PSP_TIMEOUT_MS env"
    and "Q (psp_createIntent (ci_idempotencyKey opts) random)
      (s\<lparr>breaker_of := (breaker_of s)\<lparr>cb_failures := 0, cb_state := CB_closed\<rparr>\<rparr>)"
  shows "wp (breaker_exec (cb_env.truncate env) now1 (\<lambda>_. mock_psp random opts) now2) Q E s"
  using assms
  by (simp add: wp_def breaker_exec_def cb_defs mock_psp_def withTimeout_def timer_delay_def cb_env.defs)

lemma checkout_decision_create:
  assumes i: "idle (alone False) d n m s" and "cb_state (breaker_of s) = CB_closed"
    and "\<forall>i \<in> set (intents d). i_id i \<noteq> newId"
    and "\<forall>i \<in> set (intents d). i_idempotency_key i \<noteq> op_idempotencyKey opts" and "0 \<le> op_amountCents opts"
  shows "wp (create_or_find newId opts) (\<lambda>res. wp (case res of
        Inl i \<Rightarrow> retM (checkout_response_of True i)
      | Inr i \<Rightarrow> bindM inc_initiated (\<lambda>_. retM (checkout_response_of False i)))
      (\<lambda>resp s'. \<exists>i. resp = checkout_response_of False i \<and> opened_from opts i \<and> i_id i = newId \<and>
         committed s' = d\<lparr>intents := intents d @ [i]\<rparr> \<and> cb_state (breaker_of s') = CB_closed)
      (\<lambda>_ _. False)) (\<lambda>_ _. False) s"
  unfolding create_or_find_def createIntent_def wp_try wp_bind
proof (rule wp_query_auto [OF i])
  fix d0 now a d' s1
  assume a: "rel (alone False) d d0" "insert_intent newId opts now d0 = Inr (a, d')" "idle (alone False) d' n m s1"
  have "conn.more s1 = conn.more s" using idleD [OF i] idleD [OF a(3)] by simp
  then have b: "cb_state (breaker_of s1) = CB_closed" using pay_frame(1) assms(2) by metis
  have c: "opened_from opts a" using insert_intent_key a(2) by blast
  have "committed s1 = d\<lparr>intents := intents d @ [a]\<rparr> \<and> i_id a = newId"
    using a idleD [OF a(3)] by (auto simp: insert_intent_def Let_def split: if_splits)
  with b c show "wp (retM (Inr a)) (\<lambda>res. wp (case res of
        Inl i \<Rightarrow> retM (checkout_response_of True i)
      | Inr i \<Rightarrow> bindM inc_initiated (\<lambda>_. retM (checkout_response_of False i)))
      (\<lambda>resp s'. \<exists>i. resp = checkout_response_of False i \<and> opened_from opts i \<and> i_id i = newId \<and>
         committed s' = d\<lparr>intents := intents d @ [i]\<rparr> \<and> cb_state (breaker_of s') = CB_closed)
      (\<lambda>_ _. False)) (\<lambda>e. wp (if is_unique_violation e
             then bindM (findByIdempotencyKey (op_idempotencyKey opts)) (\<lambda>existing.
                  case existing of None \<Rightarrow> throwM e | Some i \<Rightarrow> retM (Inl i))
             else throwM e) (\<lambda>res. wp (case res of
        Inl i \<Rightarrow> retM (checkout_response_of True i)
      | Inr i \<Rightarrow> bindM inc_initiated (\<lambda>_. retM (checkout_response_of False i)))
      (\<lambda>resp s'. \<exists>i. resp = checkout_response_of False i \<and> opened_from opts i \<and> i_id i = newId \<and>
         committed s' = d\<lparr>intents := intents d @ [i]\<rparr> \<and> cb_state (breaker_of s') = CB_closed)
      (\<lambda>_ _. False)) (\<lambda>_ _. False)) s1"
    by (auto simp: wp_ret wp_bind inc_initiated_def wp_modify)
qed (use assms(3-5) in \<open>auto simp: insert_intent_def Let_def split: if_splits\<close>)

text \<open>A new intent, at the price of the table, and its answer; the breaker closed.\<close>

definition checkout_opened ::
    "checkout_fresh \<Rightarrow> uuid \<Rightarrow> checkout_dto \<Rightarrow> price_row \<Rightarrow> payment_db \<Rightarrow> checkout_response \<Rightarrow>
     'x payment_proc_scheme \<Rightarrow> bool" where
  "checkout_opened fr userId dto p d resp s' \<longleftrightarrow>
     (\<exists>i. resp = checkout_response_of False i \<and> pending_intent i \<and> i_id i = cf_intentId fr \<and>
        i_amount_cents i = sp_price_cents p \<and> i_currency i = sp_currency p \<and>
        i_user_id i = userId \<and> i_seat_id i = dto_seatId dto \<and> i_hold_id i = dto_holdId dto \<and>
        i_psp_intent_id i = Some (''pi_mock_'' @ dto_idempotencyKey dto) \<and>
        committed s' = d\<lparr>intents := intents d @ [i]\<rparr> \<and> cb_state (breaker_of s') = CB_closed)"

lemma checkout_decision_priced:
  assumes i: "idle (alone False) d n m s" and b: "cb_state (breaker_of s) \<noteq> CB_open" and "0 < PSP_TIMEOUT_MS env"
    and new: "\<forall>i \<in> set (intents d). i_id i \<noteq> cf_intentId fr"
    and key: "\<forall>i \<in> set (intents d). i_idempotency_key i \<noteq> dto_idempotencyKey dto" and "0 \<le> sp_price_cents p"
  shows "wp (checkout_priced env (mock_psp random) fr userId traceId dto p)
    (checkout_opened fr userId dto p d)
    (\<lambda>_ _. False) s"
proof -
  let ?s = "s\<lparr>breaker_of := (breaker_of s)\<lparr>cb_failures := 0, cb_state := CB_closed\<rparr>\<rparr>"
  have s: "idle (alone False) d n (conn.more ?s) ?s" using i by (simp add: conn_state_defs)
  show ?thesis
    unfolding checkout_priced_def wp_bind wp_try wp_throw
    by (rule wp_breaker_mock [OF b assms(3)], rule wp_mono [OF checkout_decision_create [OF s]])
      (use assms(6) key new in \<open>auto elim!: wp_mono simp: checkout_opened_def opened_from_def psp_createIntent_def Let_def\<close>)
qed

lemma wp_find_key_alone:
  assumes "idle (alone False) d n m s"
    and "\<And>s'. idle (alone False) d n m s' \<Longrightarrow> Q (find (\<lambda>i. i_idempotency_key i = key) (intents d)) s'"
  shows "wp (findByIdempotencyKey key) Q E s"
  unfolding findByIdempotencyKey_def
  by (rule wp_query_auto [OF assms(1)]) (use assms(2) in \<open>auto simp: select_by_key_def\<close>)

lemma wp_price_alone:
  assumes "idle (alone False) d n m s"
    and "\<And>s'. idle (alone False) d n m s' \<Longrightarrow> Q (find (\<lambda>p. sp_seat_id p = seatId) (seat_prices d)) s'"
  shows "wp (getSeatPrice seatId) Q E s"
  unfolding getSeatPrice_def
  by (rule wp_query_auto [OF assms(1)]) (use assms(2) in \<open>auto simp: select_seat_price_def\<close>)

text \<open>C26: Every outcome of an undisturbed checkout with the mock provider and a breaker that is not
  open: a body that does not parse is refused; a key already used gets its intent and nothing
  changes; a seat without a price is refused with 400; otherwise one pending intent is inserted with
  the price of the table and the answer says it is new. The breaker is not opened.\<close>

theorem checkout_decision:
  fixes s :: payment_proc and random :: string
  assumes "quiet s" and "reliable s" and "tx s = None" and "payment_db_ok (committed s)"
    and "\<forall>p \<in> set (seat_prices (committed s)). 0 \<le> sp_price_cents p"
    and "\<forall>i \<in> set (intents (committed s)). i_id i \<noteq> cf_intentId fr"
    and "cb_state (breaker_of s) \<noteq> CB_open" and "0 < PSP_TIMEOUT_MS env"
    and "checkout env z (mock_psp random) fr userId header body s = (r, s')"
  shows "case CheckoutDto z body of
      None \<Rightarrow> r = Inl Zod_Error \<and> s' = s
    | Some dto \<Rightarrow>
        (case find (\<lambda>i. i_idempotency_key i = dto_idempotencyKey dto) (intents (committed s)) of
           Some i \<Rightarrow> r = Inr (checkout_response_of True i) \<and> committed s' = committed s
         | None \<Rightarrow>
             (case find (\<lambda>p. sp_seat_id p = dto_seatId dto) (seat_prices (committed s)) of
                None \<Rightarrow> r = Inl (Http_Error 400 ''seat_price_unknown'') \<and> committed s' = committed s
              | Some p \<Rightarrow>
                  (\<exists>resp. r = Inr resp \<and> checkout_opened fr userId dto p (committed s) resp s')))"
proof (cases "CheckoutDto z body")
  case None
  then show ?thesis using assms(9) by (auto simp: checkout_def throwM_def)
next
  case (Some dto)
  let ?d = "committed s" and ?op = "checkout env z (mock_psp random) fr userId header body"
  let ?i = "find (\<lambda>i. i_idempotency_key i = dto_idempotencyKey dto) (intents ?d)"
  let ?p = "find (\<lambda>p. sp_seat_id p = dto_seatId dto) (seat_prices ?d)"
  note i = reliable_idle [OF assms(1-3)]
  note start = checkout_def Some option.case Let_def wp_bind
  consider i where "?i = Some i" | "?i = None" "?p = None" | p where "?i = None" "?p = Some p"
    by (cases ?i; cases ?p) auto
  then show ?thesis
  proof cases
    case 1
    have "wp ?op (\<lambda>a s'. a = checkout_response_of True i \<and> committed s' = ?d) (\<lambda>_ _. False) s"
      unfolding start by (rule wp_find_key_alone [OF i]) (use 1 in \<open>auto simp: wp_ret dest: idleD\<close>)
    from wpD [OF this assms(9)] show ?thesis using Some 1 by (auto split: sum.splits)
  next
    case 2
    have "wp ?op (\<lambda>_ _. False)
        (\<lambda>e s'. e = Http_Error 400 ''seat_price_unknown'' \<and> committed s' = ?d) s"
      unfolding start
      by (rule wp_find_key_alone [OF i], simp add: 2(1) wp_bind, erule wp_price_alone)
        (use 2(2) in \<open>auto simp: wp_throw dest: idleD\<close>)
    from wpD [OF this assms(9)] show ?thesis using Some 2 by (auto split: sum.splits)
  next
    case 3
    have b: "cb_state (breaker_of s') \<noteq> CB_open" if "idle (alone False) ?d (checked_out s) (conn.more s) s'" for s'
      using pay_frame(1) [of s' s] idleD [OF that] assms(7) by simp
    have ok: "0 \<le> sp_price_cents p" "\<forall>i \<in> set (intents ?d). i_idempotency_key i \<noteq> dto_idempotencyKey dto"
      using 3 assms(5) find_SomeD [OF 3(2)] by (auto simp: find_None_iff)
    have "wp ?op (checkout_opened fr userId dto p ?d) (\<lambda>_ _. False) s"
      unfolding start
      by (rule wp_find_key_alone [OF i], simp add: 3(1) wp_bind, erule wp_price_alone)
        (simp add: 3(2) checkout_decision_priced [OF _ b assms(8,6) ok(2,1)])
    from wpD [OF this assms(9)] show ?thesis using Some 3 by (auto split: sum.splits)
  qed
qed

theorem checkout_decision_witness:
  "\<exists>i. fst (checkout pay_env zod_shapes (mock_psp ''r'') pay_fresh (uid (CHR ''a'')) None
      (pay_body (CHR ''5'')) (pay [])) = Inr (checkout_response_of False i) \<and>
    i_amount_cents (i :: intent_row) = 5000"
proof -
  let ?op = "checkout pay_env zod_shapes (mock_psp ''r'') pay_fresh (uid (CHR ''a'')) None
      (pay_body (CHR ''5'')) (pay [])"
  have 1: "payment_db_ok (committed (pay []))" "\<forall>p \<in> set (seat_prices (committed (pay []))). 0 \<le> sp_price_cents p"
    "\<forall>i \<in> set (intents (committed (pay []))). i_id i \<noteq> cf_intentId pay_fresh"
    "cb_state (breaker_of (pay [])) \<noteq> CB_open" "0 < PSP_TIMEOUT_MS pay_env" by code_simp+
  have 2: "CheckoutDto zod_shapes (pay_body (CHR ''5'')) =
      Some \<lparr>dto_seatId = seat1, dto_holdId = uid (CHR ''b''), dto_idempotencyKey = uid (CHR ''5'')\<rparr>"
    "find (\<lambda>i. i_idempotency_key i = uid (CHR ''5'')) (intents pay_db) = None"
    "find (\<lambda>p. sp_seat_id p = seat1) (seat_prices pay_db) =
      Some \<lparr>sp_seat_id = seat1, sp_price_cents = 5000, sp_currency = ''USD'', sp_label = ''A1''\<rparr>"
    by code_simp+
  from checkout_decision [OF _ _ _ 1 surjective_pairing [of ?op]] 2 show ?thesis
    by (auto simp: checkout_opened_def)
qed

subsection \<open>The service's invariant\<close>

text \<open>C18: In every state the payment service reaches, whatever calls fail and whatever its replicas and
  outbox workers commit meanwhile: amounts are not negative, keys and ids are unique, an intent is
  PENDING exactly while it has no completion date; every outbox row is the event of one closed
  intent, payment.succeeded.v1 of a COMPLETED one or payment.failed.v1 of a FAILED one, and no intent
  has two; no transaction is open and no connection has leaked.\<close>

theorem payment_service_invariant:
  assumes "payment_reach env z psp x s s'" and "tx s = None" and "pay_inv (committed s)"
  shows "pay_inv (committed s') \<and> outbox_agrees (committed s') \<and> tx s' = None \<and>
    checked_out s' = checked_out s"
  using payment_reach_settled [OF assms(1,2)] assms(3)
  by (auto simp: pay_settled_def pay_steps_def pay_inv_def)

text \<open>A checkout, then a step of another session that completes the pending intent.\<close>

definition closed_db :: payment_db where
  "closed_db =
     (case mark_completed_spec (Some (''pi_mock_'' @ uid (CHR ''7''))) (uid (CHR ''e'')) (uid (CHR ''c'')) 2000 2000 pay_db of
        Inl e \<Rightarrow> pay_db | Inr (r, d) \<Rightarrow> d)"

lemma closed_db_step: "pay_steps pay_db closed_db"
proof -
  define st where "st = mark_completed_spec (Some (''pi_mock_'' @ uid (CHR ''7''))) (uid (CHR ''e''))
    (uid (CHR ''c'')) 2000 2000 pay_db"
  have "pay_steps pay_db d" if "st = Inr (r, d)" for r d
    using that unfolding st_def by (rule pay_steps_marks)
  moreover have "closed_db = (case st of Inl e \<Rightarrow> pay_db | Inr p \<Rightarrow> snd p)"
    unfolding closed_db_def st_def by (simp split: sum.split prod.split)
  ultimately show ?thesis by (cases st) (simp_all add: prod_eq_iff)
qed

lemma pay_reach_example:
  "payment_reach pay_env zod_shapes (mock_psp ''r'') x (pay [])
    (snd (checkout pay_env zod_shapes (mock_psp ''r'') pay_fresh (uid (CHR ''a'')) None
      (pay_body (CHR ''5'')) ((pay [])\<lparr>committed := closed_db, script := []\<rparr>)))"
proof -
  have "payment_step pay_env zod_shapes (mock_psp ''r'') x (pay []) ((pay [])\<lparr>committed := closed_db\<rparr>)"
    by (rule payment_step.other) (simp add: closed_db_step)
  from payment_reach.step [OF payment_reach.start this] show ?thesis
    by (rule payment_reach.step) (rule payment_step.checkout [OF _ surjective_pairing], simp)
qed

theorem payment_service_invariant_witness:
  "pay_inv (committed (snd (checkout pay_env zod_shapes (mock_psp ''r'') pay_fresh (uid (CHR ''a'')) None
      (pay_body (CHR ''5'')) ((pay [])\<lparr>committed := closed_db, script := []\<rparr>))))"
  by (rule payment_service_invariant [OF pay_reach_example, THEN conjunct1]) (simp_all add: pay_db_inv)

text \<open>The life of an intent. Between any two states of the service every intent is kept, with its
  seat, user, hold, amount, currency and provider id; once COMPLETED or FAILED it never changes again,
  so an intent is completed or failed at most once, whichever of webhook, reprocessor and seat event
  comes first. The price table never changes.\<close>

theorem intent_life:
  assumes "payment_reach env z psp x s s'" and "tx s = None" and "pay_inv (committed s)"
    and "i \<in> set (intents (committed s))"
  shows "\<exists>i' \<in> set (intents (committed s')).
    i_id i' = i_id i \<and> i_seat_id i' = i_seat_id i \<and> i_user_id i' = i_user_id i \<and>
    i_hold_id i' = i_hold_id i \<and> i_amount_cents i' = i_amount_cents i \<and>
    i_currency i' = i_currency i \<and> i_psp_intent_id i' = i_psp_intent_id i \<and>
    (i_status i \<noteq> PI_PENDING \<longrightarrow> i' = i) \<and>
    seat_prices (committed s') = seat_prices (committed s)"
proof -
  have ev: "payments_evolve (committed s) (committed s')"
    using payment_reach_settled [OF assms(1,2)] assms(3) by (simp add: pay_settled_def pay_steps_def)
  from payments_evolve_keep [OF ev assms(4)] show ?thesis
    using ev unfolding payments_evolve_def intent_evolves_def by blast
qed

theorem intent_life_witness:
  "\<exists>i' \<in> set (intents (committed (snd (checkout pay_env zod_shapes (mock_psp ''r'') pay_fresh (uid (CHR ''a''))
      None (pay_body (CHR ''5'')) ((pay [])\<lparr>committed := closed_db, script := []\<rparr>))))).
    i' = pay_intent (CHR ''8'') seat1 PI_COMPLETED"
proof -
  have "pay_intent (CHR ''8'') seat1 PI_COMPLETED \<in> set (intents (committed (pay [])))"
    by (simp add: pay_db_def)
  from intent_life [OF pay_reach_example _ _ this] show ?thesis
    by (simp add: pay_db_inv pay_intent_def)
qed

subsection \<open>Closing intents\<close>

definition closed_from ::
    "(intent_row \<Rightarrow> bool) \<Rightarrow> intent_status \<Rightarrow> string \<Rightarrow> (intent_row \<Rightarrow> json) \<Rightarrow> string \<Rightarrow>
     payment_db \<Rightarrow> intent_row \<Rightarrow> payment_db \<Rightarrow> bool" where
  "closed_from P st ty ev traceId d i d' \<longleftrightarrow>
     (\<exists>now j. j \<in> set (intents d) \<and> P j \<and> pending_intent j \<and> i = close_row st now j \<and>
        intents d' = upd_where (\<lambda>i. P i \<and> pending_intent i) (close_row st now) (intents d) \<and>
        outbox d' = outbox d @ [new_outbox_row (Suc (outbox_seq d)) now (i_id i) ty (ev i)
          [(''traceId'', traceId), (''userId'', i_user_id i)]] \<and>
        inbox d' = inbox d \<and> seat_prices d' = seat_prices d)"

definition close_outcome where
  "close_outcome P st ty ev traceId s r s' \<longleftrightarrow>
     (case r of
        Inr (Closed i) \<Rightarrow> closed_from P st ty ev traceId (committed s) i (committed s')
      | Inr (Not_Closed reason) \<Rightarrow> committed s' = committed s \<and> reason = ''no_pending_intent'' \<and>
          (\<forall>i \<in> set (intents (committed s)). P i \<longrightarrow> \<not> pending_intent i)
      | Inl e \<Rightarrow> (\<exists>f. e = fault_exn f) \<and>
          (committed s' = committed s \<or> (\<exists>i. closed_from P st ty ev traceId (committed s) i (committed s')))) \<and>
     tx s' = None \<and> checked_out s' = checked_out s"

lemma close_spec_cases:
  assumes "close_spec P st ty ev traceId now d = Inr (r, d')"
  shows "(\<exists>i. r = Closed i \<and> closed_from P st ty ev traceId d i d') \<or>
    r = Not_Closed ''no_pending_intent'' \<and> d' = d \<and> (\<forall>i \<in> set (intents d). P i \<longrightarrow> \<not> pending_intent i)"
proof (cases "filter (\<lambda>i. P i \<and> pending_intent i) (intents d)")
  case Nil
  then show ?thesis using assms by (auto simp: close_spec_def Let_def filter_empty_conv)
next
  case (Cons j rest)
  then have "j \<in> set (intents d) \<and> P j \<and> pending_intent j" by (auto dest!: arg_cong [where f = set])
  then have "closed_from P st ty ev traceId d (close_row st now j) d'"
    using assms unfolding closed_from_def by (auto simp: close_spec_one [OF Cons] intro!: exI [of _ now] exI [of _ j])
  then show ?thesis using assms by (auto simp: close_spec_one [OF Cons])
qed

lemma close_outcomeI:
  assumes "all_or_nothing (close_spec P st ty ev traceId) (committed s) r s'"
    and "tx s' = None" "checked_out s' = checked_out s"
    and "\<And>e. r = Inl e \<Longrightarrow> \<exists>f. e = fault_exn f"
  shows "close_outcome P st ty ev traceId s r s'"
proof (cases r)
  case (Inl e)
  then show ?thesis
    using assms close_spec_cases unfolding close_outcome_def all_or_nothing_def by fastforce
next
  case (Inr a)
  then obtain now where "close_spec P st ty ev traceId now (committed s) = Inr (a, committed s')"
    using assms(1) by (auto simp: all_or_nothing_def)
  from close_spec_cases [OF this] show ?thesis using assms(2,3) Inr by (auto simp: close_outcome_def)
qed

text \<open>What the three closing methods do, whatever calls of the database fail while no other session
  interferes. If the method returns an intent, all pending intents selected (by provider id or by
  seat) have got the new status and a completion date, and one event of the first one with its
  contents has been appended to the outbox, in the same transaction; if it returns no_pending_intent
  nothing has changed and none was pending; if it throws, it is a database fault, and either nothing
  happened or all of it (the answer to COMMIT was lost). No transaction stays open.\<close>

theorem close_methods_effect:
  fixes s :: payment_proc
  assumes "quiet s" and "tx s = None"
  shows "(markCompleted psp eventId traceId occ s = (r, s') \<longrightarrow>
      close_outcome (by_psp psp) PI_COMPLETED ''payment.succeeded.v1''
        (\<lambda>i. payment_succeeded_payload eventId i traceId occ) traceId s r s') \<and>
    (markFailed psp reason eventId traceId occ s = (r, s') \<longrightarrow>
      close_outcome (by_psp psp) PI_FAILED ''payment.failed.v1''
        (\<lambda>i. payment_failed_payload eventId i reason traceId occ) traceId s r s') \<and>
    (markFailedBySeatId seatId reason eventId traceId occ s = (r, s') \<longrightarrow>
      close_outcome (\<lambda>i. i_seat_id i = seatId) PI_FAILED ''payment.failed.v1''
        (\<lambda>i. payment_failed_payload eventId i reason traceId occ) traceId s r s')"
proof (intro conjI impI)
  have no: "close_spec P st ty ev tr now d \<noteq> Inl e" for P st ty ev tr now d e
    by (simp add: close_spec_def Let_def)
  assume r: "markCompleted psp eventId traceId occ s = (r, s')"
  show "close_outcome (by_psp psp) PI_COMPLETED ''payment.succeeded.v1''
      (\<lambda>i. payment_succeeded_payload eventId i traceId occ) traceId s r s'"
    by (rule close_outcomeI [OF mark_completed.run_atomic [OF assms r]])
      (use mark_completed.run_error [OF assms] r no in blast)
next
  have no: "close_spec P st ty ev tr now d \<noteq> Inl e" for P st ty ev tr now d e
    by (simp add: close_spec_def Let_def)
  assume r: "markFailed psp reason eventId traceId occ s = (r, s')"
  show "close_outcome (by_psp psp) PI_FAILED ''payment.failed.v1''
      (\<lambda>i. payment_failed_payload eventId i reason traceId occ) traceId s r s'"
    by (rule close_outcomeI [OF mark_failed.run_atomic [OF assms r]])
      (use mark_failed.run_error [OF assms] r no in blast)
next
  have no: "close_spec P st ty ev tr now d \<noteq> Inl e" for P st ty ev tr now d e
    by (simp add: close_spec_def Let_def)
  assume r: "markFailedBySeatId seatId reason eventId traceId occ s = (r, s')"
  show "close_outcome (\<lambda>i. i_seat_id i = seatId) PI_FAILED ''payment.failed.v1''
      (\<lambda>i. payment_failed_payload eventId i reason traceId occ) traceId s r s'"
    by (rule close_outcomeI [OF mark_failed_by_seat.run_atomic [OF assms r]])
      (use mark_failed_by_seat.run_error [OF assms] r no in blast)
qed

theorem close_methods_effect_witness:
  "fst (markCompleted (Some (''pi_mock_'' @ uid (CHR ''7''))) ''e1'' ''t1'' 1000 (pay (replicate 4 pay_fine @ [pay_failing])))
     = Inl (fault_exn Conn_Lost) \<and>
   tx (snd (markCompleted (Some (''pi_mock_'' @ uid (CHR ''7''))) ''e1'' ''t1'' 1000
     (pay (replicate 4 pay_fine @ [pay_failing])))) = None"
proof -
  let ?op = "markCompleted (Some (''pi_mock_'' @ uid (CHR ''7''))) ''e1'' ''t1'' 1000
    (pay (replicate 4 pay_fine @ [pay_failing]))"
  have r: "fst ?op = Inl (fault_exn Conn_Lost)" by code_simp
  from close_methods_effect [THEN conjunct1, THEN mp, OF _ _ run_pair [OF this]] r show ?thesis
    by (simp add: close_outcome_def)
qed

end
