(* ===== verification/Webhook_Properties.thy ===== *)
theory Webhook_Properties
  imports Payment_Properties
begin

text \<open>
  What the payment service promises of webhooks, of seat events and of the provider's circuit breaker,
  and where it falls short of them.
\<close>

subsection \<open>Fixtures\<close>

text \<open>A message authentication code of the documented shape, and a JSON parser that knows one text.\<close>

definition toy_hmac :: "string \<Rightarrow> string \<Rightarrow> string" where
  "toy_hmac k m = replicate 63 (CHR ''0'') @ (if length m < 20 then ''a'' else ''b'')"

lemma toy_hmac_documented: "hmac_documented toy_hmac"
  by (auto simp: hmac_documented_def toy_hmac_def lower_hex_def)

definition psp_event :: "string \<Rightarrow> json" where
  "psp_event psp =
     JObj [(''id'', JStr ''evt_1''), (''type'', JStr TYPE_SUCCEEDED), (''created'', JInt 1),
       (''data'', JObj [(''object'', JObj [(''id'', JStr psp), (''amount'', JInt 5000)])])]"

definition known_psp :: string where "known_psp = ''pi_mock_'' @ uid (CHR ''7'')"

definition toy_ext :: webhook_ext where
  "toy_ext = \<lparr>x_hmac = toy_hmac,
     x_json_parse = (\<lambda>s. if s = ''{}'' then Some (psp_event known_psp) else None), x_pg_text = (\<lambda>_. [])\<rparr>"

definition toy_sig :: string where
  "toy_sig = sign_webhook toy_hmac ''whsec_0123456789'' ''1'' ''{}''"

definition toy_row :: "string \<Rightarrow> inbox_row" where
  "toy_row psp = \<lparr>w_stripe_event_id = ''evt_1'', w_type = TYPE_SUCCEEDED, w_payload = psp_event psp,
     w_received_at = 1000, w_processed_at = None\<rparr>"

lemma toy_row_ok: "row_of_event (toy_row psp)" "psp_id_of (w_payload (toy_row psp)) = Inr (Some (JStr psp))"
  by (simp_all add: row_of_event_def toy_row_def psp_event_def psp_id_of_def js_prop_def)

subsection \<open>The webhook's answers\<close>

lemma webhook_verified:
  assumes i: "idle (alone False) d n m s" and sig: "signature = Some sig" "sig \<noteq> []"
    and ev: "constructEventFromWebhook (x_hmac x) (x_json_parse x) (PSP_WEBHOOK_SECRET env) raw sig = Inr ev"
    and fresh: "\<not> WEBHOOK_TOLERANCE_MS env < now - created_of ev * 1000"
  shows "wp (webhook x env now fr header signature (Some raw))
    (\<lambda>a s'. (\<exists>eid ty. text_param (x_pg_text x) (jget ''id'' ev) = Some eid \<and>
        text_param (x_pg_text x) (jget ''type'' ev) = Some ty \<and>
        (if eid \<in> w_stripe_event_id ` set (inbox d)
         then a = \<lparr>wr_received = True, wr_deduplicated = True\<rparr> \<and> committed s' = d \<and>
           immediates s' = immediates s \<and> webhookDedupedTotal s' = Suc (webhookDedupedTotal s)
         else a = \<lparr>wr_received = True, wr_deduplicated = False\<rparr> \<and>
           (\<exists>t. committed s' = d\<lparr>inbox := inbox d @ [\<lparr>w_stripe_event_id = eid, w_type = ty, w_payload = ev,
              w_received_at = t, w_processed_at = None\<rparr>]\<rparr>) \<and>
           immediates s' = immediates s @ [(ev, resolveTraceId header fr)])))
    (\<lambda>e s'. (text_param (x_pg_text x) (jget ''id'' ev) = None \<or> text_param (x_pg_text x) (jget ''type'' ev) = None) \<and>
        e = Db_Error ''23502'' [] \<and> committed s' = d \<and> immediates s' = immediates s) s"
proof -
  let ?s = "s\<lparr>webhookReceivedTotal := Suc (webhookReceivedTotal s)\<rparr>"
  let ?id = "text_param (x_pg_text x) (jget ''id'' ev)" and ?ty = "text_param (x_pg_text x) (jget ''type'' ev)"
  have i1: "idle (alone False) d n (conn.more ?s) ?s" using i by (simp add: conn_state_defs)
  have f: "immediates s1 = immediates s" "webhookDedupedTotal s1 = webhookDedupedTotal s"
    if "idle (alone False) d' n (conn.more ?s) s1" for d' s1
    using pay_frame [of s1 ?s] idleD [OF that] by simp_all
  note [simp del] = text_param_def
  show ?thesis
    unfolding webhook_def Let_def
    by (simp add: sig ev fresh wp_simps wp_liftM inc_received_def intentsInsertInbox_def insertWebhookInbox_def)
      (rule wp_query_auto [OF i1],
        auto simp: insert_inbox_def wp_simps inc_deduped_def set_immediate_def f idleD
          split: option.splits if_splits)
qed

text \<open>C27: Every answer of POST /api/payment/webhook on an undisturbed connection. No signature header: 401;
  no raw body: 400; a signature that does not verify or a body that is not an event: 401; an event
  older than the tolerance: 401; in all four nothing has changed. Otherwise an event without id or
  type fails on the NOT NULL columns; an event whose id is in the inbox is acknowledged as a
  duplicate and changes nothing; any other event is stored in the inbox as unprocessed, queued for
  processing and acknowledged.\<close>

theorem webhook_answer:
  fixes s :: payment_proc
  assumes "quiet s" and "reliable s" and "tx s = None"
    and "webhook x env now fr header signature rawBody s = (r, s')"
  shows "case (signature, rawBody) of
      (None, _) \<Rightarrow> r = Inl (Http_Error 401 ''missing_signature'') \<and> s' = s
    | (Some sig, None) \<Rightarrow>
        r = Inl (if sig = [] then Http_Error 401 ''missing_signature'' else Http_Error 400 ''raw_body_required'') \<and> s' = s
    | (Some sig, Some raw) \<Rightarrow>
        if sig = [] then r = Inl (Http_Error 401 ''missing_signature'') \<and> s' = s
        else (case constructEventFromWebhook (x_hmac x) (x_json_parse x) (PSP_WEBHOOK_SECRET env) raw sig of
          Inl e \<Rightarrow> r = Inl (Http_Error 401 ''invalid_signature'') \<and> s' = s
        | Inr ev \<Rightarrow>
            if WEBHOOK_TOLERANCE_MS env < now - created_of ev * 1000
            then r = Inl (Http_Error 401 ''stale_event'') \<and> s' = s
            else (case (text_param (x_pg_text x) (jget ''id'' ev), text_param (x_pg_text x) (jget ''type'' ev)) of
              (Some eid, Some ty) \<Rightarrow>
                if eid \<in> w_stripe_event_id ` set (inbox (committed s))
                then r = Inr \<lparr>wr_received = True, wr_deduplicated = True\<rparr> \<and> committed s' = committed s \<and>
                  immediates s' = immediates s \<and> webhookDedupedTotal s' = Suc (webhookDedupedTotal s)
                else r = Inr \<lparr>wr_received = True, wr_deduplicated = False\<rparr> \<and>
                  (\<exists>t. committed s' = (committed s)\<lparr>inbox := inbox (committed s) @
                    [\<lparr>w_stripe_event_id = eid, w_type = ty, w_payload = ev, w_received_at = t,
                      w_processed_at = None\<rparr>]\<rparr>) \<and>
                  immediates s' = immediates s @ [(ev, resolveTraceId header fr)]
            | _ \<Rightarrow> r = Inl (Db_Error ''23502'' []) \<and> committed s' = committed s \<and> immediates s' = immediates s))"
proof (cases "\<exists>sig raw ev. signature = Some sig \<and> sig \<noteq> [] \<and> rawBody = Some raw \<and>
    constructEventFromWebhook (x_hmac x) (x_json_parse x) (PSP_WEBHOOK_SECRET env) raw sig = Inr ev \<and>
    \<not> WEBHOOK_TOLERANCE_MS env < now - created_of ev * 1000")
  case False
  note [simp del] = text_param_def
  show ?thesis
  proof (cases "signature = None \<or> signature = Some [] \<or> rawBody = None")
    case True
    then show ?thesis using assms(4)
      by (auto simp: webhook_def throwM_def split: option.splits)
  next
    case here: False
    then obtain sig raw where sr: "signature = Some sig" "sig \<noteq> []" "rawBody = Some raw" by auto
    show ?thesis
    proof (cases "constructEventFromWebhook (x_hmac x) (x_json_parse x) (PSP_WEBHOOK_SECRET env) raw sig")
      case (Inl e)
      then show ?thesis using assms(4) sr
        by (auto simp: webhook_def bindM_def try_catch_def liftM_def throwM_def)
    next
      case (Inr ev)
      then have "WEBHOOK_TOLERANCE_MS env < now - created_of ev * 1000" using False sr by blast
      then show ?thesis using assms(4) sr Inr
        by (auto simp: webhook_def bindM_def try_catch_def liftM_def throwM_def retM_def)
    qed
  qed
next
  case True
  then obtain sig raw ev where
    sr: "signature = Some sig" "sig \<noteq> []" "rawBody = Some raw" and
    ev: "constructEventFromWebhook (x_hmac x) (x_json_parse x) (PSP_WEBHOOK_SECRET env) raw sig = Inr ev" and
    fr: "\<not> WEBHOOK_TOLERANCE_MS env < now - created_of ev * 1000" by blast
  have r: "webhook x env now fr header signature (Some raw) s = (r, s')" using assms(4) sr(3) by simp
  note [simp del] = text_param_def
  from wpD [OF webhook_verified [OF reliable_idle [OF assms(1-3)] sr(1,2) ev fr] r]
  show ?thesis using sr ev fr by (auto split: sum.splits if_splits option.splits)
qed

theorem webhook_answer_witness:
  "fst (webhook toy_ext pay_env 200000 ''f'' None (Some toy_sig) (Some ''{}'') (pay [])) =
     Inr \<lparr>wr_received = True, wr_deduplicated = False\<rparr>"
proof -
  have 1: "constructEventFromWebhook (x_hmac toy_ext) (x_json_parse toy_ext) (PSP_WEBHOOK_SECRET pay_env) ''{}'' toy_sig
      = Inr (psp_event known_psp)" "toy_sig \<noteq> []"
    "\<not> WEBHOOK_TOLERANCE_MS pay_env < 200000 - created_of (psp_event known_psp) * 1000"
    "text_param (x_pg_text toy_ext) (jget ''id'' (psp_event known_psp)) = Some ''evt_1''"
    "text_param (x_pg_text toy_ext) (jget ''type'' (psp_event known_psp)) = Some TYPE_SUCCEEDED"
    "inbox pay_db = []" by code_simp+
  from webhook_answer [OF _ _ _ surjective_pairing [of "webhook toy_ext pay_env 200000 ''f'' None (Some toy_sig) (Some ''{}'') (pay [])"]]
  show ?thesis using 1 by simp
qed

subsection \<open>Signatures\<close>

text \<open>C28: Only authentic and recent events are accepted, in any environment. If the webhook handler
  answers at all, the request carried a raw body and a signature t=..,v1=.. whose first 64 digits are
  (in either case) the HMAC-SHA256 of "t.body" under the webhook secret, with the body as the text its
  bytes decode to, that text is the JSON of the event, and the event is not older than the tolerance.\<close>

theorem webhook_authentic:
  fixes s :: payment_proc
  assumes "hmac_documented (x_hmac x)"
    and "webhook x env now fr header signature rawBody s = (Inr resp, s')"
  shows "\<exists>sig raw t v1 ev. signature = Some sig \<and> rawBody = Some raw \<and>
    parse_signature sig = (Some t, Some v1) \<and>
    map to_lower_hex (take 64 v1) = x_hmac x (PSP_WEBHOOK_SECRET env) (signed_text t raw) \<and>
    x_json_parse x (utf8_text raw) = Some ev \<and> now - created_of ev * 1000 \<le> WEBHOOK_TOLERANCE_MS env"
proof -
  obtain sig raw where sr: "signature = Some sig" "sig \<noteq> []" "rawBody = Some raw"
    using assms(2) by (auto simp: webhook_def throwM_def split: if_splits option.splits)
  obtain ev where ev: "constructEventFromWebhook (x_hmac x) (x_json_parse x) (PSP_WEBHOOK_SECRET env) raw sig = Inr ev"
    "\<not> WEBHOOK_TOLERANCE_MS env < now - created_of ev * 1000"
    using assms(2) sr
    by (auto simp: webhook_def bindM_def try_catch_def liftM_def throwM_def retM_def split: sum.splits if_splits)
  from construct_Inr [OF ev(1)] obtain t v1 where
    tv: "parse_signature sig = (Some t, Some v1)" "x_json_parse x (utf8_text raw) = Some ev"
      "from_hex v1 = from_hex (x_hmac x (PSP_WEBHOOK_SECRET env) (signed_text t raw))" by blast
  have l: "length (x_hmac x (PSP_WEBHOOK_SECRET env) (signed_text t raw)) = 64"
    "\<forall>c \<in> set (x_hmac x (PSP_WEBHOOK_SECRET env) (signed_text t raw)). lower_hex c"
    using assms(1) by (simp_all add: hmac_documented_def)
  show ?thesis using from_hex_eqD [OF tv(3) l(2)] l(1) tv(1,2) sr ev(2) by auto
qed

theorem webhook_authentic_witness:
  "\<exists>t v1. parse_signature toy_sig = (Some t, Some v1) \<and>
     map to_lower_hex (take 64 v1) = toy_hmac ''whsec_0123456789'' (signed_text t ''{}'')"
proof -
  have "fst (webhook toy_ext pay_env 200000 ''f'' None (Some toy_sig) (Some ''{}'') (pay [])) =
     Inr \<lparr>wr_received = True, wr_deduplicated = False\<rparr>" by code_simp
  from webhook_authentic [OF _ run_pair [OF this]] toy_hmac_documented show ?thesis
    by (auto simp: toy_ext_def pay_env_def)
qed

text \<open>Signing and verifying agree: a body signed as the provider signs it, with HMAC-SHA256 under the
  same secret and a decimal timestamp, is accepted and gives its event, whatever the body.\<close>

theorem signature_roundtrip:
  assumes "hmac_documented hmac" and "t \<noteq> []" and "\<forall>c \<in> set t. is_digit c"
    and "json_parse (utf8_text raw) = Some ev" and "jget ''created'' ev = Some (JInt n)"
  shows "constructEventFromWebhook hmac json_parse secret raw (sign_webhook hmac secret t raw) = Inr ev"
proof -
  have "length (hmac secret (signed_text t raw)) = 64" using assms(1) by (simp add: hmac_documented_def)
  then have "hmac secret (signed_text t raw) \<noteq> []" by auto
  moreover have "ev \<noteq> JNull" using assms(5) by auto
  ultimately show ?thesis
    using assms(2,4,5)
    by (cases ev) (simp_all add: constructEventFromWebhook_def parse_signed [OF assms(1,3)])
qed

theorem signature_roundtrip_witness:
  "constructEventFromWebhook toy_hmac (\<lambda>_. Some (psp_event ''p'')) ''k'' ''{}'' (sign_webhook toy_hmac ''k'' ''17'' ''{}'')
     = Inr (psp_event ''p'')"
  by (rule signature_roundtrip [where n = 1])
    (simp_all add: toy_hmac_documented is_digit_def psp_event_def)

subsection \<open>Processing\<close>

lemma mark_processedD:
  "mark_processed eid now d = Inr (u, d') \<Longrightarrow> intents d' = intents d \<and> outbox d' = outbox d \<and>
     inbox d' = upd_where (\<lambda>w. eid = Some (w_stripe_event_id w)) (\<lambda>w. w\<lparr>w_processed_at := Some now\<rparr>) (inbox d)"
  by (auto simp: mark_processed_def)

lemma marked_processed:
  assumes "mark_processed (Some e) now d = Inr (u, d')"
  shows "\<forall>w \<in> set (inbox d'). w_stripe_event_id w = e \<longrightarrow> w_processed_at w \<noteq> None"
  unfolding mark_processedD [OF assms, THEN conjunct2, THEN conjunct2] ball_upd_where by auto

lemma attempts_snoc:
  assumes "attempt_op pg_text row a ((attempts pg_text row bs s)\<lparr>script := sc\<rparr>) = (r, s2)"
  shows "attempts pg_text row (bs @ [(sc, a)]) s = s2"
  using assms by (induction bs arbitrary: s) (auto split: prod.splits)

text \<open>The last attempt, without a fault, completes the effect whatever the earlier ones did.\<close>

lemma attempts_last:
  fixes s :: payment_proc
  assumes "row_of_event row" and "psp_id_of (w_payload row) = Inr psp"
    and "\<forall>(sc, a) \<in> set bs. \<forall>t \<in> set sc. others t = id" and "tx s = None"
    and sc: "\<forall>t \<in> set sc. others t = id \<and> fate t = Runs"
    and r: "attempt_op pg_text row a ((attempts pg_text row bs s)\<lparr>script := sc\<rparr>) = (r, s2)"
  shows "processed_once (w_type row) (text_param pg_text psp) (committed s) (committed s2) \<and>
    (\<forall>w \<in> set (inbox (committed s2)). w_stripe_event_id w = w_stripe_event_id row \<longrightarrow> w_processed_at w \<noteq> None)"
proof -
  let ?ty = "w_type row" and ?p = "text_param pg_text psp" and ?s1 = "attempts pg_text row bs s"
  note b = attempts_once [OF assms(1-4), of "committed s", simplified]
  have "quiet (?s1\<lparr>script := sc\<rparr>)" "reliable (?s1\<lparr>script := sc\<rparr>)"
    using sc by (auto simp: quiet_def reliable_def)
  from reliable_attempt [OF assms(1,2) this _ r] b obtain eventId traceId occ now d1 now' where
    d1: "process_spec ?ty ?p eventId traceId occ now (committed ?s1) = Inr ((), d1)"
      "mark_processed (Some (w_stripe_event_id row)) now' d1 = Inr ((), committed s2)" by auto
  have io: "intents (committed s2) = intents d1" "outbox (committed s2) = outbox d1"
    using mark_processedD [OF d1(2)] by simp_all
  have "processed_once ?ty ?p (committed s) (committed s2)"
  proof (cases "committed ?s1 = committed s")
    case True
    then show ?thesis using d1(1) io unfolding processed_once_def by metis
  next
    case False
    then obtain e' t' o' n' d2 where d2: "process_spec ?ty ?p e' t' o' n' (committed s) = Inr ((), d2)"
      "intents (committed ?s1) = intents d2" "outbox (committed ?s1) = outbox d2"
      using b unfolding processed_once_def by blast
    have "d1 = committed ?s1" using process_spec_again [OF d2(1,2)] d1(1) by auto
    then show ?thesis using d2 io unfolding processed_once_def by metis
  qed
  then show ?thesis using marked_processed [OF d1(2)] by blast
qed

text \<open>C19: A webhook event has its effect exactly once. Whatever sequence of attempts is made at an inbox
  row, by the queued callback, by the reprocessor or both, each failing at any call, the intents and
  the outbox end up either untouched or as one single execution of the closing statement leaves them;
  and once an attempt has run without a fault they are in the second case, with the row marked as
  processed. No attempt leaves a transaction open.\<close>

theorem webhook_processed_once:
  fixes s :: payment_proc
  assumes "row_of_event row" and "psp_id_of (w_payload row) = Inr psp"
    and "\<forall>(sc, a) \<in> set as. \<forall>t \<in> set sc. others t = id" and "tx s = None"
  shows "(let s' = attempts pg_text row as s in
      tx s' = None \<and> checked_out s' = checked_out s \<and>
      (committed s' = committed s \<or>
       processed_once (w_type row) (text_param pg_text psp) (committed s) (committed s')) \<and>
      (as \<noteq> [] \<and> (\<forall>t \<in> set (fst (last as)). fate t = Runs) \<longrightarrow>
         processed_once (w_type row) (text_param pg_text psp) (committed s) (committed s') \<and>
         (\<forall>w \<in> set (inbox (committed s')). w_stripe_event_id w = w_stripe_event_id row \<longrightarrow>
            w_processed_at w \<noteq> None)))"
proof -
  let ?ty = "w_type row" and ?p = "text_param pg_text psp"
  have once: "tx (attempts pg_text row as s) = None \<and> checked_out (attempts pg_text row as s) = checked_out s \<and>
      (committed (attempts pg_text row as s) = committed s \<or>
       processed_once ?ty ?p (committed s) (committed (attempts pg_text row as s)))"
    using attempts_once [OF assms(1-4), of "committed s"] by simp
  have "processed_once ?ty ?p (committed s) (committed (attempts pg_text row as s)) \<and>
      (\<forall>w \<in> set (inbox (committed (attempts pg_text row as s))).
         w_stripe_event_id w = w_stripe_event_id row \<longrightarrow> w_processed_at w \<noteq> None)"
    if ne: "as \<noteq> []" and ok: "\<forall>t \<in> set (fst (last as)). fate t = Runs"
  proof -
    obtain bs sc a where as: "as = bs @ [(sc, a)]" using ne by (metis append_butlast_last_id surj_pair)
    obtain r s2 where r: "attempt_op pg_text row a ((attempts pg_text row bs s)\<lparr>script := sc\<rparr>) = (r, s2)"
      by fastforce
    have "\<forall>(sc, a) \<in> set bs. \<forall>t \<in> set sc. others t = id" "\<forall>t \<in> set sc. others t = id \<and> fate t = Runs"
      using assms(3) ok by (auto simp: as)
    then show ?thesis
      unfolding as attempts_snoc [OF r] using attempts_last [OF assms(1,2) _ assms(4) _ r] by blast
  qed
  with once show ?thesis unfolding Let_def by blast
qed

text \<open>Two attempts of the callback's and the reprocessor's making, the first losing its COMMIT's answer.\<close>

theorem webhook_processed_once_witness:
  "processed_once TYPE_SUCCEEDED (Some known_psp) pay_db
     (committed (attempts (\<lambda>_. []) (toy_row known_psp)
       [(replicate 4 pay_fine @ [pay_failing], By_Callback ''e1'' 1000 ''t1''), ([], By_Reprocessor (''u'', ''e2'', 2000))]
       (pay [])))"
proof -
  let ?as = "[(replicate 4 pay_fine @ [pay_failing], By_Callback ''e1'' 1000 ''t1''),
    ([], By_Reprocessor (''u'', ''e2'', 2000))]"
  have "\<forall>(sc, a) \<in> set ?as. \<forall>t \<in> set sc. others t = id" by (simp add: pay_fine_def pay_failing_def)
  from webhook_processed_once [OF toy_row_ok this, of "pay []" "\<lambda>_. []" known_psp] show ?thesis
    by (simp add: Let_def text_param_def toy_row_def)
qed

text \<open>A payment the service does not know yet is lost. If a succeeded event names a provider intent no
  row has (the webhook overtook the insertion of the intent, or the insertion failed), a fault-free
  attempt changes no intent and appends no event, but marks the inbox row as processed, so the
  reprocessor does not select it again.\<close>

theorem unknown_intent_swallowed:
  fixes s :: payment_proc
  assumes "row_of_event row" and "psp_id_of (w_payload row) = Inr psp"
    and "quiet s" and "reliable s" and "tx s = None"
    and "\<forall>i \<in> set (intents (committed s)). i_psp_intent_id i \<noteq> text_param pg_text psp"
    and "attempt_op pg_text row a s = (r, s')"
  shows "intents (committed s') = intents (committed s) \<and> outbox (committed s') = outbox (committed s) \<and>
    (\<forall>now rows d'. select_unprocessed now (committed s') = Inr (rows, d') \<longrightarrow>
       (\<forall>w \<in> set rows. w_stripe_event_id w \<noteq> w_stripe_event_id row))"
proof -
  obtain eventId traceId occ now d1 now' where
    d1: "process_spec (w_type row) (text_param pg_text psp) eventId traceId occ now (committed s) = Inr ((), d1)"
      "mark_processed (Some (w_stripe_event_id row)) now' d1 = Inr ((), committed s')"
    using reliable_attempt [OF assms(1-5,7)] by blast
  have noop: "close_spec (by_psp (text_param pg_text psp)) st ty ev tr now (committed s) =
      Inr (Not_Closed ''no_pending_intent'', committed s)" for st ty ev tr
    by (rule close_spec_noop) (use assms(6) in blast)
  have "d1 = committed s"
    using d1(1) noop by (auto simp: process_spec_def discarding_def split: if_splits)
  moreover have "\<forall>w \<in> set rows. w_stripe_event_id w \<noteq> w_stripe_event_id row"
    if "select_unprocessed now2 (committed s') = Inr (rows, d')" for now2 rows d'
    using that marked_processed [OF d1(2)] by (fastforce simp: select_unprocessed_def dest!: in_set_takeD)
  ultimately show ?thesis using mark_processedD [OF d1(2)] by blast
qed

theorem unknown_intent_swallowed_witness:
  "outbox (committed (snd (attempt_op (\<lambda>_. []) (toy_row ''other'') (By_Callback ''e'' 1 ''t'') (pay [])))) = []"
proof -
  have "\<forall>i \<in> set (intents (committed (pay []))). i_psp_intent_id i \<noteq> text_param (\<lambda>_. []) (Some (JStr ''other''))"
    by code_simp
  from unknown_intent_swallowed [OF toy_row_ok _ _ _ this surjective_pairing [of
      "attempt_op (\<lambda>_. []) (toy_row ''other'') (By_Callback ''e'' 1 ''t'') (pay [])"]] show ?thesis
    by (simp add: pay_db_def del: attempt_op.simps)
qed

subsection \<open>Seat events\<close>

text \<open>The handler of seat.released messages never throws and settles each message by what it did. A
  message that is not JSON or not a seat.released.v1 event goes to the dead letter queue and changes
  nothing; a message is acknowledged only after its transaction has cancelled every pending intent of
  the seat; and if the database failed the message is requeued, having changed nothing or everything.
  Handling the same seat's release again then changes nothing.\<close>

theorem seat_event_settled:
  fixes s :: payment_proc
  assumes "quiet s" and "tx s = None"
    and "handle_seat_event z json_parse eventId occ content s = (r, s')"
  shows "tx s' = None \<and> checked_out s' = checked_out s \<and>
    (case parse_event (SeatReleasedV1 z) json_parse content of
       None \<Rightarrow> r = Inr (Nack False) \<and> committed s' = committed s
     | Some ev \<Rightarrow>
         \<exists>meta seatId hold reason. ev = SeatReleased meta seatId hold reason \<and>
           (r = Inr Ack \<and> (\<forall>i \<in> set (intents (committed s')). i_seat_id i = seatId \<longrightarrow> \<not> pending_intent i) \<or>
            r = Inr (Nack True) \<and>
              (committed s' = committed s \<or>
               (\<forall>i \<in> set (intents (committed s')). i_seat_id i = seatId \<longrightarrow> \<not> pending_intent i))))"
proof -
  have h: "case r of Inl e \<Rightarrow> False
    | Inr a \<Rightarrow> seat_event_handled (alone True) (parse_event (SeatReleasedV1 z) json_parse content)
        (cancel_effect eventId occ) (committed s) (checked_out s) a s'"
    using wpD [OF wp_handle_seat_event [OF quiet_idle [OF assms(1,2)]] assms(3)] by (simp split: sum.splits)
  then obtain a where r: "r = Inr a" and a: "seat_event_handled (alone True)
      (parse_event (SeatReleasedV1 z) json_parse content) (cancel_effect eventId occ) (committed s) (checked_out s) a s'"
    by (cases r) auto
  have ty: "\<exists>meta seatId hold reason. ev = SeatReleased meta seatId hold reason"
    if "parse_event (SeatReleasedV1 z) json_parse content = Some ev" for ev
    using that by (auto simp: parse_event_def SeatReleasedV1_def split: option.splits bind_splits)
  have cancelled: "\<forall>i \<in> set (intents d'). i_seat_id i = seatId \<longrightarrow> \<not> pending_intent i"
    if "cancel_effect eventId occ (SeatReleased meta seatId hold reason) now d = Inr (u, d')"
    for meta seatId hold reason now d u d'
    using that close_spec_closes by (fastforce simp: cancel_effect_def)
  show ?thesis
  proof (cases "parse_event (SeatReleasedV1 z) json_parse content")
    case None
    then show ?thesis
      using a r by (auto simp: seat_event_handled_def split: settle.splits if_splits dest!: idleD)
  next
    case (Some ev)
    then obtain meta seatId hold reason where ev: "ev = SeatReleased meta seatId hold reason" using ty by blast
    show ?thesis
      using a r Some cancelled [of meta seatId hold reason]
      by (cases a) (auto simp: ev seat_event_handled_def atomic_ok_def atomic_err_def split: if_splits dest!: idleD)
  qed
qed

definition released_json :: json where
  "released_json = JObj [(''schema'', JStr ''seat.released.v1''), (''eventId'', JStr (uid (CHR ''e''))),
     (''traceId'', JStr (uid (CHR ''c''))), (''occurredAt'', JStr (toISOString 0)), (''seatId'', JStr seat1),
     (''reason'', JStr ''sweeper'')]"

theorem seat_event_settled_witness:
  "filter (\<lambda>i. i_seat_id i = seat1 \<and> pending_intent i)
     (intents (committed (snd (handle_seat_event zod_shapes (\<lambda>_. Some released_json) ''e1'' 1000 ''m'' (pay []))))) = []"
proof -
  let ?p = "handle_seat_event zod_shapes (\<lambda>_. Some released_json) ''e1'' 1000 ''m'' (pay [])"
  have r: "fst ?p = Inr Ack" by code_simp
  have "parse_event (SeatReleasedV1 zod_shapes) (\<lambda>_. Some released_json) ''m'' =
    Some (SeatReleased \<lparr>m_eventId = uid (CHR ''e''), m_traceId = uid (CHR ''c''), m_occurredAt = toISOString 0\<rparr>
      seat1 None ''sweeper'')" by code_simp
  with seat_event_settled [OF _ _ run_pair [OF r]] show ?thesis by (auto simp: filter_empty_conv)
qed

text \<open>A release cancels without telling. If a released seat has two pending intents, both are failed
  but one payment.failed.v1 event is written: for one of the two no event exists, so the seat service
  never hears of it.\<close>

theorem cancelled_intent_without_event:
  fixes s :: payment_proc
  assumes "quiet s" and "reliable s" and "tx s = None" and "pay_inv (committed s)"
    and "i \<in> set (intents (committed s))" "i_seat_id i = seatId" "pending_intent i"
    and "j \<in> set (intents (committed s))" "i_seat_id j = seatId" "pending_intent j" and "i \<noteq> j"
    and "markFailedBySeatId seatId reason eventId traceId occ s = (r, s')"
  shows "\<exists>k \<in> {i, j}. (\<exists>k' \<in> set (intents (committed s')). i_id k' = i_id k \<and> i_status k' = PI_FAILED) \<and>
    (\<forall>ob \<in> set (outbox (committed s')). o_aggregate_id ob \<noteq> i_id k)"
proof -
  let ?d = "committed s" and ?d' = "committed s'"
  define d' where "d' = ?d'"
  have no: "close_spec P st ty ev tr now d \<noteq> Inl e" for P st ty ev tr now d e
    by (simp add: close_spec_def Let_def)
  obtain now a where a: "r = Inr a" "mark_failed_by_seat_spec seatId reason eventId traceId occ now ?d = Inr (a, ?d')"
    using mark_failed_by_seat.run_reliable [OF assms(1-3,12)] no by (cases r) auto
  obtain x rest where f: "filter (\<lambda>i. i_seat_id i = seatId \<and> pending_intent i) (intents ?d) = x # rest"
    using assms(5-7) by (cases "filter (\<lambda>i. i_seat_id i = seatId \<and> pending_intent i) (intents ?d)")
      (auto simp: filter_empty_conv)
  have new: "intents ?d' = upd_where (\<lambda>i. i_seat_id i = seatId \<and> pending_intent i) (close_row PI_FAILED now) (intents ?d)"
    "o_aggregate_id ` set (outbox ?d') = insert (i_id x) (o_aggregate_id ` set (outbox ?d))"
    using a(2) unfolding d'_def [symmetric] by (auto simp: close_spec_one [OF f])
  have ids: "i_id a = i_id b \<Longrightarrow> a = b" if "a \<in> set (intents ?d)" "b \<in> set (intents ?d)" for a b
    using that assms(4) by (auto simp: pay_inv_def payment_db_ok_def distinct_map dest: inj_onD)
  have old: "i_id k \<notin> o_aggregate_id ` set (outbox ?d)" if "k \<in> set (intents ?d)" "pending_intent k" for k
    using assms(4) ids that by (fastforce simp: pay_inv_def outbox_agrees_def event_of_status_def)
  define k where "k = (if x = i then j else i)"
  have k: "k \<in> {i, j}" "k \<in> set (intents ?d)" "i_seat_id k = seatId" "pending_intent k" "x \<noteq> k"
    using assms(5-11) by (auto simp: k_def)
  have "x \<in> set (intents ?d)" using f by (auto dest!: arg_cong [where f = set])
  then have "i_id x \<noteq> i_id k" using ids k(2,5) by blast
  then have "i_id k \<notin> o_aggregate_id ` set (outbox ?d')" using old [OF k(2,4)] new(2) by auto
  then have none: "\<forall>ob \<in> set (outbox ?d'). o_aggregate_id ob \<noteq> i_id k" by (metis image_eqI)
  have failed: "\<exists>k' \<in> set (intents ?d'). i_id k' = i_id k \<and> i_status k' = PI_FAILED"
    unfolding new(1) bex_upd_where using k(2-4) by (intro bexI [of _ k]) simp_all
  show ?thesis
  proof (rule bexI [where x = k])
    show "(\<exists>k' \<in> set (intents ?d'). i_id k' = i_id k \<and> i_status k' = PI_FAILED) \<and>
      (\<forall>ob \<in> set (outbox ?d'). o_aggregate_id ob \<noteq> i_id k)" using failed none by (rule conjI)
    show "k \<in> {i, j}" by (rule k(1))
  qed
qed

definition two_pending :: payment_proc where
  "two_pending = (pay [])\<lparr>committed := pay_db\<lparr>intents :=
     [pay_intent (CHR ''7'') seat1 PI_PENDING, pay_intent (CHR ''9'') seat1 PI_PENDING]\<rparr>\<rparr>"

theorem cancelled_intent_without_event_witness:
  "\<exists>k \<in> {pay_intent (CHR ''7'') seat1 PI_PENDING, pay_intent (CHR ''9'') seat1 PI_PENDING}.
     i_id k \<notin> o_aggregate_id ` set (outbox (committed
       (snd (markFailedBySeatId seat1 ''seat_released'' ''e'' ''t'' 1000 two_pending))))"
proof -
  have 1: "quiet two_pending" "reliable two_pending" "tx two_pending = None"
    by (simp_all add: two_pending_def quiet_def reliable_def pay_def)
  have 2: "pay_inv (committed two_pending)"
    "pay_intent (CHR ''7'') seat1 PI_PENDING \<noteq> pay_intent (CHR ''9'') seat1 PI_PENDING" by code_simp+
  have 3: "set (intents (committed two_pending)) =
      {pay_intent (CHR ''7'') seat1 PI_PENDING, pay_intent (CHR ''9'') seat1 PI_PENDING}"
    by (simp add: two_pending_def)
  have 4: "i_seat_id (pay_intent c seat1 PI_PENDING) = seat1" "pending_intent (pay_intent c seat1 PI_PENDING)"
    "pay_intent (CHR ''7'') seat1 PI_PENDING \<in> set (intents (committed two_pending))"
    "pay_intent (CHR ''9'') seat1 PI_PENDING \<in> set (intents (committed two_pending))" for c
    unfolding 3 by (simp_all add: pay_intent_def)
  from cancelled_intent_without_event [OF 1 2(1) 4(3,1,2,4,1,2) 2(2) surjective_pairing
      [of "markFailedBySeatId seat1 ''seat_released'' ''e'' ''t'' 1000 two_pending"]] show ?thesis
    by fastforce
qed

subsection \<open>The circuit breaker\<close>

text \<open>C35: The breaker in front of the provider, for calls that do not overlap. From a closed breaker, failing calls are passed on and
  counted; the first whose count doubled reaches the threshold opens it. While it is open and not
  more than the reset time has passed, a call fails with circuit_open and the provider is not called
  (the outcome does not depend on it); after that one call is let through, and a success closes the
  breaker and clears the count while a failure opens it again at the time of that failure.\<close>

theorem breaker_protects:
  assumes "cb_state b = CB_closed" and "(cb_failures b + length cs) * 2 < PSP_CB_ERROR_THRESHOLD env"
    and "PSP_CB_ERROR_THRESHOLD env \<le> (cb_failures b + length cs + 1) * 2"
    and "\<forall>(now1, p, now2) \<in> set (cs @ [(n1, p1, n2)]). \<exists>e. withTimeout p (PSP_TIMEOUT_MS env) = Inl e"
    and "snd (cb_run env (cs @ [(n1, p1, n2)]) b) = b'"
  shows "cb_state (snd (cb_run env cs b)) = CB_closed \<and> cb_state b' = CB_open \<and> cb_openedAt b' = n2 \<and>
    (\<forall>m fn m'. m - n2 \<le> PSP_CB_RESET_MS env \<longrightarrow> cb_exec env m fn m' b' = (Inl (Js_Error ''circuit_open''), b')) \<and>
    (\<forall>m fn m'. PSP_CB_RESET_MS env < m - n2 \<longrightarrow>
       (case withTimeout (fn ()) (PSP_TIMEOUT_MS env) of
          Inr a \<Rightarrow> cb_exec env m fn m' b' = (Inr a, b'\<lparr>cb_failures := 0, cb_state := CB_closed\<rparr>)
        | Inl e \<Rightarrow> cb_exec env m fn m' b' =
            (Inl e, b'\<lparr>cb_failures := Suc (cb_failures b'), cb_state := CB_open, cb_openedAt := m'\<rparr>)))"
proof -
  let ?b1 = "b\<lparr>cb_failures := cb_failures b + length cs\<rparr>"
  have 1: "snd (cb_run env cs b) = ?b1" by (rule cb_run_failing [OF _ assms(1,2)]) (use assms(4) in auto)
  obtain e where e: "withTimeout p1 (PSP_TIMEOUT_MS env) = Inl e" using assms(4) by auto
  have app: "snd (cb_run env (xs @ [c]) b0) = snd (cb_exec env (fst c) (\<lambda>_. fst (snd c)) (snd (snd c)) (snd (cb_run env xs b0)))"
    for xs c b0
  proof (induction xs arbitrary: b0)
    case Nil
    show ?case by (cases c) (simp split: prod.split)
  next
    case (Cons x xs)
    obtain m p m' where x: "x = (m, p, m')" by (cases x)
    have "snd (cb_run env (x # ys) b0) = snd (cb_run env ys (snd (cb_exec env m (\<lambda>_. p) m' b0)))" for ys
      by (simp add: x split: prod.split)
    then show ?case using Cons.IH by simp
  qed
  have b': "b' = ?b1\<lparr>cb_failures := Suc (cb_failures ?b1), cb_state := CB_open, cb_openedAt := n2\<rparr>"
    using assms(1,3,5) app [of cs "(n1, p1, n2)" b] e by (simp add: 1 cb_defs Let_def)
  then show ?thesis using assms(1,3) by (auto simp: 1 cb_defs Let_def split: sum.splits)
qed

text \<open>With the default threshold, which the documentation calls a percentage of 50, 25 calls in a row must fail.\<close>

theorem breaker_protects_witness:
  "cb_state (snd (cb_run (cb_env.truncate pay_env) (replicate 25 (0, None :: unit promise, 7)) new_breaker)) = CB_open"
proof -
  have eq: "replicate 25 (0, None :: unit promise, 7) = replicate 24 (0, None, 7) @ [(0, None, 7)]"
    by (simp add: numeral_eq_Suc)
  show ?thesis unfolding eq
    by (rule breaker_protects [OF _ _ _ _ refl, THEN conjunct2, THEN conjunct1])
      (simp_all add: new_breaker_def pay_env_def cb_env.defs withTimeout_def)
qed

end
