(* ===== verification/Saga.thy ===== *)
theory Saga
  imports Outbox_Properties Webhook_Properties
begin

text \<open>
  The seat service, the payment service, its outbox worker and the broker as one system. The wire is
  the set of payloads that may have reached the broker; the broker delivers any of them, any number of
  times, in any order. The main fact is that no hold becomes RESERVED without a COMPLETED payment
  intent of that hold.
\<close>

subsection \<open>The worker beside the payment service\<close>

lemma outbox_rel_close:
  assumes "close_spec P st ty ev traceId now d = Inr (r, d')"
  shows "outbox_rel d d'"
proof (cases "filter (\<lambda>i. P i \<and> pending_intent i) (intents d)")
  case Nil
  then show ?thesis using assms by (simp add: close_spec_def Let_def)
next
  case (Cons j rest)
  then show ?thesis using assms by (auto simp: close_spec_one [OF Cons] intro: outbox_rel_append_to)
qed

lemma pay_steps_outbox:
  assumes "outbox_ok d \<Longrightarrow> outbox_ok (d\<lparr>outbox := rows\<rparr>)"
    and "distinct (map o_aggregate_id (outbox d)) \<Longrightarrow> distinct (map o_aggregate_id rows)"
    and "\<forall>r \<in> set rows. \<exists>r0 \<in> set (outbox d). ev_of r0 = ev_of r"
  shows "pay_steps d (d\<lparr>outbox := rows\<rparr>)"
proof -
  have "payments_evolve d (d\<lparr>outbox := rows\<rparr>)" by (rule payments_evolve_same [where new = "[]"]) simp_all
  moreover have "pay_inv (d\<lparr>outbox := rows\<rparr>)" if inv: "pay_inv d"
  proof -
    have "outbox_agrees (d\<lparr>outbox := rows\<rparr>)"
      using inv assms(2,3) unfolding pay_inv_def outbox_agrees_def ev_of_def by simp metis
    moreover have "payment_db_ok (d\<lparr>outbox := rows\<rparr>)"
      using inv assms(1) by (simp add: pay_inv_def payment_db_ok_def)
    ultimately show ?thesis by (simp add: pay_inv_def)
  qed
  ultimately show ?thesis by (simp add: pay_steps_def)
qed

lemma pay_steps_update:
  fixes d :: payment_db
  assumes "\<And>r. ev_of (f r) = ev_of r"
  shows "pay_steps d (update_outbox P f d)"
  unfolding update_outbox_def
proof (rule pay_steps_outbox)
  have k: "map o_id (upd_where P f (outbox d)) = map o_id (outbox d)"
    "map o_aggregate_id (upd_where P f (outbox d)) = map o_aggregate_id (outbox d)"
    using assms by (auto simp: ev_of_def intro!: map_upd_where_key)
  show "distinct (map o_aggregate_id (outbox d)) \<Longrightarrow> distinct (map o_aggregate_id (upd_where P f (outbox d)))"
    by (simp only: k)
  have "\<forall>r \<in> set (upd_where P f (outbox d)). o_id r \<le> outbox_seq d" if "\<forall>r \<in> set (outbox d). o_id r \<le> outbox_seq d"
    unfolding ball_upd_where using that assms by (simp add: ev_of_def)
  then show "outbox_ok d \<Longrightarrow> outbox_ok (d\<lparr>outbox := upd_where P f (outbox d)\<rparr>)"
    unfolding outbox_ok_def by (simp add: k)
  show "\<forall>r \<in> set (upd_where P f (outbox d)). \<exists>r0 \<in> set (outbox d). ev_of r0 = ev_of r"
    unfolding ball_upd_where using assms by auto
qed

lemma pay_steps_worker:
  fixes d :: payment_db
  shows "recover_stuck now d = Inr (u, d') \<Longrightarrow> pay_steps d d'"
    and "mark_processing ids now d = Inr (u, d') \<Longrightarrow> pay_steps d d'"
    and "delete_outbox i now d = Inr (u, d') \<Longrightarrow> pay_steps d d'"
    and "mark_dead n i now d = Inr (u, d') \<Longrightarrow> pay_steps d d'"
    and "reschedule n b i now d = Inr (u, d') \<Longrightarrow> pay_steps d d'"
proof -
  have "pay_steps d (d\<lparr>outbox := filter (\<lambda>r. o_id r \<noteq> i) (outbox d)\<rparr>)"
    by (rule pay_steps_outbox) (auto simp: outbox_ok_def distinct_map_filter)
  then show "delete_outbox i now d = Inr (u, d') \<Longrightarrow> pay_steps d d'" by (simp add: delete_outbox_def)
qed (auto simp: outbox_stmt_defs ev_of_def intro!: pay_steps_update)

lemma outbox_rel_payment:
  fixes d :: payment_db
  shows "close_spec P st ty ev traceId now d = Inr (r, d') \<Longrightarrow> outbox_rel d d'"
    and "insert_intent newId opts now d = Inr (i, d') \<Longrightarrow> outbox_rel d d'"
    and "insert_inbox eid ty' payload now d = Inr (k, d') \<Longrightarrow> outbox_rel d d'"
    and "mark_processed eid now d = Inr (u, d') \<Longrightarrow> outbox_rel d d'"
proof -
  show "outbox_rel d d'" if "close_spec P st ty ev traceId now d = Inr (r, d')"
    using that by (rule outbox_rel_close)
  show "outbox_rel d d'" if "insert_intent newId opts now d = Inr (i, d')"
    using that by (intro outbox_rel_cong) (auto simp: insert_intent_def Let_def split: if_splits)
  show "outbox_rel d d'" if "insert_inbox eid ty' payload now d = Inr (k, d')"
    using that by (intro outbox_rel_cong) (auto simp: insert_inbox_def split: option.splits if_splits)
  show "outbox_rel d d'" if "mark_processed eid now d = Inr (u, d')"
    using that by (intro outbox_rel_cong) (auto simp: mark_processed_def)
qed

text \<open>What the worker's claims rest on: every message it has sent and every row it holds tells of a closed
  intent.\<close>

definition backed :: "payment_db \<Rightarrow> json \<Rightarrow> bool" where
  "backed d j \<longleftrightarrow>
     (\<exists>i \<in> set (intents d). \<exists>ty. event_of_status (i_status i) = Some ty \<and> tells j ty i)"

lemma closed_stays:
  assumes "pay_steps d d'" and "pay_inv d" and "i \<in> set (intents d)" and "\<not> pending_intent i"
  shows "i \<in> set (intents d')"
  using payments_evolve_keep [of d d' i] assms by (auto simp: pay_steps_def intent_evolves_def)

lemma backed_stays: "pay_steps d d' \<Longrightarrow> pay_inv d \<Longrightarrow> backed d j \<Longrightarrow> backed d' j"
  unfolding backed_def by (fastforce simp: event_of_status_def dest: closed_stays)

lemma backed_row: "pay_inv d \<Longrightarrow> ob \<in> set (outbox d) \<Longrightarrow> backed d (o_payload ob)"
  unfolding backed_def pay_inv_def outbox_agrees_def by blast

definition publishing ::
    "payment_db \<Rightarrow> outbox_row set \<Rightarrow> payment_db \<Rightarrow> pub_msg list \<Rightarrow> bool" where
  "publishing d0 R d msgs \<longleftrightarrow>
     pay_inv d \<and> pay_steps d0 d \<and> (\<forall>m \<in> set msgs. backed d (p_payload m)) \<and> (\<forall>row \<in> R. backed d (o_payload row))"

lemma publishing_steps: "publishing d0 R d msgs \<Longrightarrow> pay_steps d d' \<Longrightarrow> publishing d0 R d' msgs"
  unfolding publishing_def using backed_stays pay_steps_trans pay_steps_def by metis

interpretation publisher: tick_invariant sessions payment_exchange "publishing d0" for d0
proof unfold_locales
  fix R d1 d msgs row now u d'
  assume "publishing d0 R d (msgs @ [message_of payment_exchange row])" and "delete_outbox (o_id row) now d = Inr (u :: unit, d')"
  then show "publishing d0 R d' (msgs @ [message_of payment_exchange row])" using publishing_steps pay_steps_worker(3) by blast
next
  fix R d msgs d'
  assume "publishing d0 R d msgs" and "rel sessions d d'"
  then show "publishing d0 R d' msgs" using publishing_steps by simp
qed (auto simp: publishing_def message_of_def backed_row intro: pay_steps_worker)

subsection \<open>The seat service's side: only paid holds are reserved\<close>

definition only_reserves :: "uuid set \<Rightarrow> seat_db \<Rightarrow> seat_db \<Rightarrow> bool" where
  "only_reserves H d d' \<longleftrightarrow>
     (\<forall>h \<in> set (holds d'). h_status h = RESERVED \<longrightarrow>
        h_id h \<in> H \<or> (\<exists>h0 \<in> set (holds d). h_id h0 = h_id h \<and> h_status h0 = RESERVED))"

lemma only_reserves_refl [simp]: "only_reserves H d d"
  unfolding only_reserves_def by blast

lemma only_reserves_trans: "only_reserves H a b \<Longrightarrow> only_reserves H b c \<Longrightarrow> only_reserves H a c"
  unfolding only_reserves_def by metis

lemma only_reserves_mono: "only_reserves H d d' \<Longrightarrow> H \<subseteq> H' \<Longrightarrow> only_reserves H' d d'"
  unfolding only_reserves_def by blast

lemma only_reserves_update:
  assumes "holds d' = upd_where P f (holds d) @ new" and "\<forall>h \<in> set new. held h"
    and "\<And>h. h_id (f h) = h_id h" and "\<And>h. P h \<Longrightarrow> h_status (f h) = RESERVED \<Longrightarrow> h_id h \<in> H"
  shows "only_reserves H d d'"
  unfolding only_reserves_def assms(1) set_append ball_Un ball_upd_where using assms(2-) by auto

lemma only_reserves_insert:
  assumes "insert_hold_spec env nowJs holdId eventId occ seatId userId traceId now d = Inr (r, d')"
  shows "only_reserves H d d'"
proof (cases r)
  case (Hold_Conflict c)
  then show ?thesis using assms by (auto dest: insert_hold_spec_conflict)
next
  case (Hold_Ok h)
  then have p: "hold_placed env nowJs holdId eventId occ seatId userId traceId d h d'"
    using assms insert_hold_spec_placed by blast
  then have "held h" by (auto simp: hold_placed_def)
  moreover obtain now where
    "holds d' = upd_where (\<lambda>x. h_seat_id x = seatId \<and> expired now x) (release_row now) (holds d) @ [h]"
    using p unfolding hold_placed_def by blast
  ultimately show ?thesis
    by (intro only_reserves_update [where f = "release_row now"]) (auto simp: release_row_def)
qed

lemma only_reserves_release:
  "release_hold_spec holdId reason traceId eventId occ now d = Inr (r, d') \<Longrightarrow> only_reserves H d d'"
  by (auto simp: release_hold_spec_def Let_def split: if_splits
      intro!: only_reserves_update [where new = "[]" and f = "release_row now"])

lemma only_reserves_sweep:
  assumes "sweep_spec env scan traceId fresh occs now d = Inr (u, d')"
  shows "only_reserves H d d'"
  by (rule only_reserves_update [where new = "[]" and f = "release_row now"])
    (simp_all add: sweep_spec_holds [OF assms] release_row_def)

lemma only_reserves_reserve:
  assumes "reserve_hold_spec holdId eventId cg traceId newEventId occ now d = Inr (r, d')" and "holdId \<in> H"
  shows "only_reserves H d d'"
  using assms by (auto simp: reserve_hold_spec_def Let_def split: if_splits
      intro!: only_reserves_update [where new = "[]" and f = "reserve_row now"])

text \<open>The seat service among replicas that keep to it, for the holds \<open>H\<close> that are paid.\<close>

definition paid_only :: "uuid set \<Rightarrow> seat_db environment" where
  "paid_only H = \<lparr>rel = \<lambda>d d'. seat_rel d d' \<and> only_reserves H d d', faulty = True\<rparr>"

lemma paid_only_sel [simp]:
  "rel (paid_only H) = (\<lambda>d d'. seat_rel d d' \<and> only_reserves H d d')" "faulty (paid_only H)"
  by (simp_all add: paid_only_def)

interpretation paid: seat_sessions "paid_only H" for H
proof unfold_locales
  show "reflp (rel (paid_only H))"
    using seat_rel_preorder(1) by (auto intro!: reflpI dest: reflpD)
  show "transp (rel (paid_only H))"
    by (auto intro!: transpI intro: transpD [OF seat_rel_preorder(2)] only_reserves_trans)
qed (auto intro: seat_rel_specs only_reserves_insert only_reserves_release only_reserves_sweep)

lemma payment_effect_paid:
  assumes "payment_effect newEventId occ ev now d = Inr ((), d')"
    and "\<And>meta pid seat user hold amount currency psp.
      ev = PaymentSucceeded meta pid seat user hold amount currency psp \<Longrightarrow> hold \<in> H"
  shows "rel (paid_only H) d d'"
proof -
  have "only_reserves H d d'"
    using assms by (cases ev) (auto simp: payment_effect_def
        dest!: only_reserves_release only_reserves_reserve [where H = H])
  then show ?thesis using seat_rel_payment_effect [OF assms(1)] by simp
qed

subsection \<open>The services and the broker\<close>

text \<open>
  \<open>wire\<close>: the payloads the broker may have got from the payment service. A worker's tick adds what the
  broker has confirmed (\<open>worker\<close>); a publish that was not confirmed may have arrived all the same, and so
  may the one of a worker that died (\<open>unconfirmed\<close>): its payload is that of a row of the outbox.
\<close>

record payment_side =
  payments :: payment_proc
  wire :: "json list"

inductive payment_side_step ::
    "payment_env \<Rightarrow> zod_formats \<Rightarrow> psp_client \<Rightarrow> webhook_ext \<Rightarrow> payment_side \<Rightarrow> payment_side \<Rightarrow> bool"
  for env z psp x where
  handler: "payment_step env z psp x (payments p) s \<Longrightarrow>
    payment_side_step env z psp x p (p\<lparr>payments := s\<rparr>)"
| worker: "abides (script (w :: payment_db outbox_proc)) \<Longrightarrow> tx w = None \<Longrightarrow> \<not> w_running w \<Longrightarrow> sent w = [] \<Longrightarrow>
    committed w = committed (payments p) \<Longrightarrow> payment_outbox_tick locked w = (r, w') \<Longrightarrow>
    payment_side_step env z psp x p
      (p\<lparr>payments := (payments p)\<lparr>committed := committed w'\<rparr>, wire := wire p @ map p_payload (sent w')\<rparr>)"
| unconfirmed: "row \<in> set (outbox (committed (payments p))) \<Longrightarrow>
    payment_side_step env z psp x p (p\<lparr>wire := wire p @ [o_payload row]\<rparr>)"

inductive payment_side_reach ::
    "payment_env \<Rightarrow> zod_formats \<Rightarrow> psp_client \<Rightarrow> webhook_ext \<Rightarrow> payment_side \<Rightarrow> payment_side \<Rightarrow> bool"
  for env z psp x where
  start: "payment_side_reach env z psp x p p"
| step: "payment_side_reach env z psp x p p1 \<Longrightarrow> payment_side_step env z psp x p1 p2 \<Longrightarrow>
    payment_side_reach env z psp x p p2"

definition paid_holds :: "payment_db \<Rightarrow> uuid set" where
  "paid_holds d = i_hold_id ` {i \<in> set (intents d). i_status i = PI_COMPLETED}"

text \<open>What the broker can deliver: texts whose JSON is on the wire.\<close>

definition deliverable :: "(string \<Rightarrow> json option) \<Rightarrow> json list \<Rightarrow> string set" where
  "deliverable json_parse js = {content. \<exists>j \<in> set js. json_parse content = Some j}"

text \<open>
  A step of the platform: the payment side goes on for a while, then the seat service runs one handler,
  sweeps or gets a message. Its replicas may have received any message of the wire meanwhile.
\<close>

record platform = payment_side +
  seat_side :: seat_proc

inductive platform_step ::
    "payment_env \<Rightarrow> zod_formats \<Rightarrow> psp_client \<Rightarrow> webhook_ext \<Rightarrow> seat_env \<Rightarrow> platform \<Rightarrow> platform \<Rightarrow> bool"
  for env z psp x senv where
  "payment_side_reach env z psp x (payment_side.truncate p) q \<Longrightarrow>
    seat_step_in (paid_only (paid_holds (committed (payments q)))) (deliverable (x_json_parse x) (wire q))
      senv z (x_json_parse x) (seat_side p) s \<Longrightarrow>
    platform_step env z psp x senv p \<lparr>payments = payments q, wire = wire q, seat_side = s\<rparr>"

inductive platform_reach ::
    "payment_env \<Rightarrow> zod_formats \<Rightarrow> psp_client \<Rightarrow> webhook_ext \<Rightarrow> seat_env \<Rightarrow> platform \<Rightarrow> platform \<Rightarrow> bool"
  for env z psp x senv where
  start: "platform_reach env z psp x senv p p"
| step: "platform_reach env z psp x senv p p1 \<Longrightarrow> platform_step env z psp x senv p1 p2 \<Longrightarrow>
    platform_reach env z psp x senv p p2"

subsection \<open>The invariant of the payment side\<close>

definition side_ok :: "payment_side \<Rightarrow> bool" where
  "side_ok p \<longleftrightarrow>
     pay_inv (committed (payments p)) \<and> tx (payments p) = None \<and>
     (\<forall>j \<in> set (wire p). backed (committed (payments p)) j)"

lemma paid_holds_stay: "pay_steps d d' \<Longrightarrow> pay_inv d \<Longrightarrow> paid_holds d \<subseteq> paid_holds d'"
  unfolding paid_holds_def using closed_stays by fastforce

lemma side_ok_steps:
  assumes "side_ok p" and "pay_steps (committed (payments p)) (committed s)" and "tx s = None"
    and "\<forall>j \<in> set js. backed (committed s) j"
  shows "side_ok (p\<lparr>payments := s, wire := wire p @ js\<rparr>)"
  using assms backed_stays by (auto simp: side_ok_def pay_steps_def)

lemma payment_side_step_ok:
  assumes "payment_side_step env z psp x p q" and "side_ok p"
  shows "side_ok q \<and> pay_steps (committed (payments p)) (committed (payments q))"
  using assms(1)
proof cases
  case (handler s)
  have "pay_settled (committed (payments p)) (checked_out (payments p)) s"
    using payment_step_settled [OF handler(2)] assms(2) by (simp add: side_ok_def)
  then show ?thesis
    using side_ok_steps [OF assms(2), of s "[]"] by (simp add: handler(1) pay_settled_def)
next
  case (worker w locked r w')
  let ?d = "committed (payments p)"
  have i: "idle sessions ?d (checked_out w) (conn.more w) w"
    using worker pay_steps_preorder by (auto simp: conn_state_defs abides_def)
  have "publishing ?d {} ?d (sent w)" using assms(2) worker by (simp add: publishing_def side_ok_def)
  from publisher.tick_run [OF i this worker(4) worker(7) [unfolded payment_outbox_tick_def]]
  have k: "publishing ?d {} (committed w') (sent w')" by simp
  then show ?thesis
    using side_ok_steps [OF assms(2), of "(payments p)\<lparr>committed := committed w'\<rparr>"
        "map p_payload (sent w')"] k assms(2)
    by (simp add: worker(1) side_ok_def publishing_def)
next
  case (unconfirmed row)
  then show ?thesis
    using assms(2) backed_row by (auto simp: side_ok_def)
qed

lemma payment_side_reach_ok:
  "payment_side_reach env z psp x p q \<Longrightarrow> side_ok p \<Longrightarrow>
     side_ok q \<and> pay_steps (committed (payments p)) (committed (payments q))"
  by (induction rule: payment_side_reach.induct)
    (simp, meson payment_side_step_ok pay_steps_trans)

text \<open>A succeeded event of the wire is one of a completed intent.\<close>

lemma succeeded_fields:
  assumes "AnyEvent z j = Some (PaymentSucceeded meta pid seat user hold amount currency psp)"
  shows "jget ''schema'' j = Some (JStr ''payment.succeeded.v1'') \<and> jget ''paymentIntentId'' j = Some (JStr pid) \<and>
    jget ''holdId'' j = Some (JStr hold) \<and> jget ''amountCents'' j = Some (JInt amount)"
  using assms
  by (auto simp: AnyEvent_def schema_defs Option.bind_eq_Some_conv split: option.splits json.splits if_splits)

lemma backed_succeeded:
  assumes "backed d j" and "AnyEvent z j = Some (PaymentSucceeded meta pid seat user hold amount currency psp)"
  shows "hold \<in> paid_holds d"
proof -
  obtain i ty where i: "i \<in> set (intents d)" "event_of_status (i_status i) = Some ty" "tells j ty i"
    using assms(1) by (auto simp: backed_def)
  have "Some (JStr ty) = Some (JStr ''payment.succeeded.v1'')" "Some (JStr (i_hold_id i)) = Some (JStr hold)"
    using i(3) succeeded_fields [OF assms(2)] unfolding tells_def by metis+
  then have "ty = ''payment.succeeded.v1''" "i_hold_id i = hold" by simp_all
  moreover from this have "i_status i = PI_COMPLETED"
    using i(2) by (cases "i_status i") (simp_all add: event_of_status_def)
  ultimately show ?thesis using i(1) by (auto simp: paid_holds_def)
qed

lemma platform_step_ok:
  assumes "platform_step env z psp x senv p p'" and ok: "side_ok (payment_side.truncate p)" "tx (seat_side p) = None"
  shows "side_ok (payment_side.truncate p') \<and> tx (seat_side p') = None \<and>
    pay_steps (committed (payments p)) (committed (payments p')) \<and>
    rel (paid_only (paid_holds (committed (payments p')))) (committed (seat_side p)) (committed (seat_side p'))"
  using assms(1)
proof cases
  case (1 q s)
  let ?G = "paid_only (paid_holds (committed (payments q)))"
  have q: "side_ok q" "pay_steps (committed (payments p)) (committed (payments q))"
    using payment_side_reach_ok [OF 1(2) ok(1)] by (simp_all add: payment_side.defs)
  have eff: "rel ?G d d'"
    if m: "content \<in> deliverable (x_json_parse x) (wire q)"
      and ev: "parse_event (AnyEvent z) (x_json_parse x) content = Some ev"
      and e: "payment_effect eventId occ ev now d = Inr ((), d')" for content ev eventId occ now d d'
  proof (rule payment_effect_paid [OF e])
    fix meta pid seat user hold amount currency psp'
    assume "ev = PaymentSucceeded meta pid seat user hold amount currency psp'"
    moreover obtain j where "j \<in> set (wire q)" "AnyEvent z j = Some ev"
      using m ev by (auto simp: deliverable_def parse_event_def)
    ultimately show "hold \<in> paid_holds (committed (payments q))"
      using q(1) backed_succeeded by (auto simp: side_ok_def)
  qed
  have "rel ?G (committed (seat_side p)) (committed s) \<and> tx s = None"
    using paid.step_settled [OF 1(3) ok(2) _ eff] by simp
  then show ?thesis using q by (simp add: 1(1) payment_side.defs side_ok_def)
qed

lemma platform_reach_ok:
  assumes "platform_reach env z psp x senv p p'" and "side_ok (payment_side.truncate p)" and "tx (seat_side p) = None"
  shows "side_ok (payment_side.truncate p') \<and> tx (seat_side p') = None \<and>
    pay_steps (committed (payments p)) (committed (payments p')) \<and>
    rel (paid_only (paid_holds (committed (payments p')))) (committed (seat_side p)) (committed (seat_side p'))"
  using assms
proof (induction rule: platform_reach.induct)
  case (start p)
  then show ?case using paid.preorder(1) by (auto dest: reflpD)
next
  case (step p p1 p2)
  let ?H1 = "paid_holds (committed (payments p1))" and ?H2 = "paid_holds (committed (payments p2))"
  have 1: "side_ok (payment_side.truncate p1)" "tx (seat_side p1) = None"
    "pay_steps (committed (payments p)) (committed (payments p1))"
    "rel (paid_only ?H1) (committed (seat_side p)) (committed (seat_side p1))" using step by simp_all
  note 2 = platform_step_ok [OF step.hyps(2) 1(1,2)]
  have "pay_inv (committed (payments p1))" using 1(1) by (simp add: side_ok_def payment_side.defs)
  then have "?H1 \<subseteq> ?H2" using 2 paid_holds_stay by blast
  then have "rel (paid_only ?H2) (committed (seat_side p)) (committed (seat_side p1))"
    using 1(4) only_reserves_mono by auto
  then show ?case
    using 2 1(3) pay_steps_trans transpD [OF paid.preorder(2)] by blast
qed

subsection \<open>No reservation without payment\<close>

text \<open>C2: No hold is reserved without payment. Start the payment service, its outbox worker, the broker and
  the seat service in well-formed states; let handlers of both services run in any order with any calls
  failing, replicas commit, the worker publish, unconfirmed publishes arrive or not, and the broker
  deliver what is on the wire any number of times. Then every hold that is RESERVED, and was not at the
  start, is the hold of an intent that is COMPLETED; and both databases are still well formed.\<close>

theorem no_reservation_without_payment:
  assumes "platform_reach env z psp x senv p p'"
    and "pay_inv (committed (payments p))" "tx (payments p) = None" "wire p = []"
    and "seat_db_ok (committed (seat_side p))" "tx (seat_side p) = None"
  shows "(\<forall>h \<in> set (holds (committed (seat_side p'))). h_status h = RESERVED \<longrightarrow>
      (\<exists>i \<in> set (intents (committed (payments p'))). i_hold_id i = h_id h \<and> i_status i = PI_COMPLETED) \<or>
      (\<exists>h0 \<in> set (holds (committed (seat_side p))). h_id h0 = h_id h \<and> h_status h0 = RESERVED)) \<and>
    pay_inv (committed (payments p')) \<and> seat_db_ok (committed (seat_side p'))"
proof -
  have "side_ok (payment_side.truncate p)" using assms(2-4) by (simp add: side_ok_def payment_side.defs)
  from platform_reach_ok [OF assms(1) this assms(6)] have
    1: "pay_inv (committed (payments p'))" "seat_rel (committed (seat_side p)) (committed (seat_side p'))"
      "only_reserves (paid_holds (committed (payments p'))) (committed (seat_side p)) (committed (seat_side p'))"
    by (simp_all add: side_ok_def payment_side.defs)
  from 1(3) have "\<forall>h \<in> set (holds (committed (seat_side p'))). h_status h = RESERVED \<longrightarrow>
      (\<exists>i \<in> set (intents (committed (payments p'))). i_hold_id i = h_id h \<and> i_status i = PI_COMPLETED) \<or>
      (\<exists>h0 \<in> set (holds (committed (seat_side p))). h_id h0 = h_id h \<and> h_status h0 = RESERVED)"
    unfolding only_reserves_def paid_holds_def by (fastforce simp: image_iff)
  then show ?thesis using 1(1,2) assms(5) by (simp add: seat_rel_def)
qed

text \<open>A platform in which the payment of hold \<open>uid (CHR ''b'')\<close> is complete and its event in the outbox;
  the hold is on a dear seat.\<close>

definition paid_intent :: intent_row where
  "paid_intent = pay_intent (CHR ''8'') seat1 PI_COMPLETED"

definition paid_payload :: json where
  "paid_payload = payment_succeeded_payload (uid (CHR ''e'')) paid_intent (uid (CHR ''c'')) 1000"

definition paid_proc :: payment_proc where
  "paid_proc = (pay [])\<lparr>committed := pay_db\<lparr>
     outbox := [new_outbox_row 1 5 (i_id paid_intent) ''payment.succeeded.v1'' paid_payload []], outbox_seq := 1\<rparr>\<rparr>"

definition dear_proc :: seat_proc where
  "dear_proc = (demo [])\<lparr>committed := demo_db\<lparr>
     seats := [(demo_seat ''s3'' ''A3'' SEAT_HELD)\<lparr>s_price_cents := 90000\<rparr>],
     holds := [demo_hold (uid (CHR ''b'')) ''s3'' ''u3'' 100000]\<rparr>\<rparr>"

definition paid_ext :: webhook_ext where
  "paid_ext = toy_ext\<lparr>x_json_parse := (\<lambda>_. Some paid_payload)\<rparr>"

definition paid_run :: "(exn + settle) \<times> seat_proc" where
  "paid_run = handle_payment_event zod_shapes (\<lambda>_. Some paid_payload) ''e2'' 2000 ''m'' dear_proc"

lemma paid_run_reserves: "map h_status (holds (committed (snd paid_run))) = [RESERVED]"
  by code_simp

theorem no_reservation_without_payment_witness:
  "\<exists>h \<in> set (holds (committed (snd paid_run))). h_status h = RESERVED \<and>
     (\<exists>i \<in> set (intents (committed paid_proc)). i_hold_id i = h_id h \<and> i_status i = PI_COMPLETED)"
proof -
  let ?p = "\<lparr>payments = paid_proc, wire = [], seat_side = dear_proc\<rparr>"
  let ?q = "\<lparr>payments = paid_proc, wire = [paid_payload]\<rparr>"
  have start: "pay_inv (committed paid_proc)" "seat_db_ok (committed dear_proc)" by code_simp+
  have idle: "tx paid_proc = None" "tx dear_proc = None" "script dear_proc = []"
    by (simp_all add: paid_proc_def dear_proc_def pay_def demo_def)
  have row: "new_outbox_row 1 5 (i_id paid_intent) ''payment.succeeded.v1'' paid_payload [] \<in> set (outbox (committed paid_proc))"
    by (simp add: paid_proc_def)
  have "payment_side_step pay_env zod_shapes (mock_psp ''r'') paid_ext \<lparr>payments = paid_proc, wire = []\<rparr> ?q"
    using payment_side_step.unconfirmed [of _ "\<lparr>payments = paid_proc, wire = []\<rparr>"] row by fastforce
  note side = payment_side_reach.step [OF payment_side_reach.start this]
  have "dear_proc\<lparr>script := []\<rparr> = dear_proc" using idle(3) by simp
  then have "seat_step_in (paid_only (paid_holds (committed (payments ?q)))) (deliverable (x_json_parse paid_ext) (wire ?q))
      demo_env zod_shapes (x_json_parse paid_ext) (seat_side ?p) (snd paid_run)"
    by (intro seat_step_in.message [where sc = "[]" and content = "''m''" and v = "fst paid_run" and
        eventId = "''e2''" and occ = 2000])
      (simp_all add: obeys_def deliverable_def paid_ext_def paid_run_def)
  with side have "platform_step pay_env zod_shapes (mock_psp ''r'') paid_ext demo_env ?p
      \<lparr>payments = payments ?q, wire = wire ?q, seat_side = snd paid_run\<rparr>"
    by (intro platform_step.intros) (simp_all add: payment_side.defs)
  note run = platform_reach.step [OF platform_reach.start this]
  obtain h where h: "h \<in> set (holds (committed (snd paid_run)))" "h_status h = RESERVED"
    using paid_run_reserves by (auto simp: map_eq_Cons_conv)
  have "\<not> (\<exists>h0 \<in> set (holds (committed dear_proc)). h_status h0 = RESERVED)"
    by (simp add: dear_proc_def demo_hold_def)
  then show ?thesis
    using no_reservation_without_payment [OF run, THEN conjunct1] start idle h by fastforce
qed

text \<open>What is paid for need not be what is reserved. The consumer looks at the hold id of the event only,
  and the checkout takes seat and hold from the body without asking whether they belong together: a user
  checks out a seat of 50.00 with the id of another user's hold on a seat of 900.00, pays, and the dear
  seat is RESERVED for the other user.\<close>

definition cheap_checkout :: "(exn + checkout_response) \<times> payment_proc" where
  "cheap_checkout = checkout pay_env zod_shapes (mock_psp ''r'') pay_fresh (uid (CHR ''a'')) None
     (pay_body (CHR ''5'')) (pay [])"

definition cheap_paid :: "(exn + close_result) \<times> payment_proc" where
  "cheap_paid = markCompleted (Some (the (i_psp_intent_id (last (intents (committed (snd cheap_checkout)))))))
     (uid (CHR ''e'')) (uid (CHR ''c'')) 1000 (snd cheap_checkout)"

definition dear_reserved :: "(exn + settle) \<times> seat_proc" where
  "dear_reserved = handle_payment_event zod_shapes
     (\<lambda>_. Some (o_payload (last (outbox (committed (snd cheap_paid)))))) ''e2'' 2000 ''m'' dear_proc"

theorem paid_seat_is_not_the_reserved_seat:
  "(\<exists>resp. fst cheap_checkout = Inr resp \<and> co_amountCents resp = 5000 \<and> \<not> co_idempotent resp) \<and>
   (\<lambda>i. (i_status i, i_hold_id i, i_seat_id i, i_user_id i, i_amount_cents i)) (last (intents (committed (snd cheap_paid)))) =
     (PI_COMPLETED, uid (CHR ''b''), seat1, uid (CHR ''a''), 5000) \<and>
   map (\<lambda>h. (h_id h, h_seat_id h, h_user_id h, h_status h)) (holds (committed (snd dear_reserved))) =
     [(uid (CHR ''b''), ''s3'', ''u3'', RESERVED)] \<and>
   fst dear_reserved = Inr Ack \<and>
   map (\<lambda>s. (s_id s, s_price_cents s, s_status s)) (seats (committed (snd dear_reserved))) =
     [(''s3'', 90000, SEAT_RESERVED)]"
proof (intro conjI)
  show "\<exists>resp. fst cheap_checkout = Inr resp \<and> co_amountCents resp = 5000 \<and> \<not> co_idempotent resp"
  proof (intro exI conjI)
    show "fst cheap_checkout = Inr (projr (fst cheap_checkout))" by code_simp
  qed code_simp+
qed code_simp+

end
