(* ===== verification/Announcing.thy ===== *)
theory Announcing
  imports Outbox_Properties
begin

text \<open>
  The transactional outbox of the seat service as a whole: its handlers, its sweeper, its consumer and
  its outbox worker over one database. No hold changes in silence: what the contracts say of a hold is
  in the outbox or has been confirmed by the broker, at any point of any run.
\<close>

subsection \<open>What is told of a hold\<close>

text \<open>The events of a hold: the outbox row is the hold's and the payload names its seat and, but for
  \<open>seat.released.v1\<close>, its user and itself.\<close>

fun concerns :: "string \<Rightarrow> hold_row \<Rightarrow> nat \<times> uuid \<times> string \<times> json \<times> (string \<times> string) list \<Rightarrow> bool" where
  "concerns ty h (i, agg, ty', payload, headers) \<longleftrightarrow>
     agg = h_id h \<and> ty' = ty \<and> jget ''schema'' payload = Some (JStr ty) \<and>
     jget ''seatId'' payload = Some (JStr (h_seat_id h)) \<and>
     (ty = ''seat.released.v1'' \<or>
      jget ''userId'' payload = Some (JStr (h_user_id h)) \<and> jget ''holdId'' payload = Some (JStr (h_id h)))"

text \<open>The event is in the outbox, or its message is one of \<open>M\<close>.\<close>

definition told :: "pub_msg set \<Rightarrow> seat_db \<Rightarrow> string \<Rightarrow> hold_row \<Rightarrow> bool" where
  "told M d ty h \<longleftrightarrow> (\<exists>ev. (ev \<in> evs d \<or> message_ev seat_exchange ev \<in> M) \<and> concerns ty h ev)"

text \<open>Another hold was placed on the seat after this one had expired.\<close>

definition replaced :: "seat_db \<Rightarrow> hold_row \<Rightarrow> bool" where
  "replaced d h \<longleftrightarrow> (\<exists>k \<in> set (holds d). h_seat_id k = h_seat_id h \<and> h_held_until h < h_created_at k)"

definition announced :: "pub_msg set \<Rightarrow> seat_db \<Rightarrow> bool" where
  "announced M d \<longleftrightarrow>
     (\<forall>h \<in> set (holds d).
        told M d ''seat.held.v1'' h \<and>
        (h_status h = RESERVED \<longrightarrow> told M d ''seat.reserved.v1'' h) \<and>
        (h_status h = RELEASED \<longrightarrow> told M d ''seat.released.v1'' h \<or> replaced d h))"

text \<open>What of a hold its events and its place among the others depend on.\<close>

definition hold_key :: "hold_row \<Rightarrow> uuid \<times> uuid \<times> uuid \<times> instant \<times> instant" where
  "hold_key h = (h_id h, h_seat_id h, h_user_id h, h_held_until h, h_created_at h)"

lemma hold_key_rows [simp]:
  "hold_key (release_row now h) = hold_key h" "hold_key (reserve_row now h) = hold_key h"
  by (simp_all add: hold_key_def release_row_def reserve_row_def)

lemma concerns_key: "hold_key h = hold_key h' \<Longrightarrow> concerns ty h ev = concerns ty h' ev"
  by (cases ev) (simp add: hold_key_def)

lemma told_mono:
  "told M d ty h \<Longrightarrow> evs d \<subseteq> evs d' \<Longrightarrow> M \<subseteq> M' \<Longrightarrow> hold_key h = hold_key h' \<Longrightarrow> told M' d' ty h'"
  unfolding told_def using concerns_key by blast

lemma replaced_mono:
  assumes "replaced d h" and "evolves d d'" and "hold_key h = hold_key h'"
  shows "replaced d' h'"
proof -
  obtain k where k: "k \<in> set (holds d)" "h_seat_id k = h_seat_id h" "h_held_until h < h_created_at k"
    using assms(1) by (auto simp: replaced_def)
  obtain hs new where hs: "holds d' = hs @ new" "list_all2 hold_evolves (holds d) hs"
    using assms(2) by (auto simp: evolves_def)
  then obtain k' where "k' \<in> set hs" "hold_evolves k k'"
    using k(1) by (metis in_set_conv_nth list_all2_conv_all_nth)
  then show ?thesis
    unfolding replaced_def hs(1) using k(2,3) assms(3)
    by (intro bexI [of _ k']) (auto simp: hold_evolves_def hold_key_def)
qed

lemma announced_mono: "announced M d \<Longrightarrow> M \<subseteq> M' \<Longrightarrow> announced M' d"
  unfolding announced_def using told_mono by blast

text \<open>A change of the contents: every hold is new and told, or an old one whose change is told.\<close>

lemma announced_change:
  assumes a: "announced M d" and e: "evs d \<subseteq> evs d'" "evolves d d'"
    and c: "\<And>h'. h' \<in> set (holds d') \<Longrightarrow>
      held h' \<and> told M d' ''seat.held.v1'' h' \<or>
      (\<exists>h \<in> set (holds d). hold_key h = hold_key h' \<and>
         (h_status h' = h_status h \<or> h_status h' = RESERVED \<and> told M d' ''seat.reserved.v1'' h' \<or>
          h_status h' = RELEASED \<and> (told M d' ''seat.released.v1'' h' \<or> replaced d' h')))"
  shows "announced M d'"
  unfolding announced_def
proof
  fix h' assume "h' \<in> set (holds d')"
  from c [OF this] consider (new) "held h'" "told M d' ''seat.held.v1'' h'"
    | (old) h where "h \<in> set (holds d)" "hold_key h = hold_key h'"
      "h_status h' = h_status h \<or> h_status h' = RESERVED \<and> told M d' ''seat.reserved.v1'' h' \<or>
       h_status h' = RELEASED \<and> (told M d' ''seat.released.v1'' h' \<or> replaced d' h')" by blast
  then show "told M d' ''seat.held.v1'' h' \<and> (h_status h' = RESERVED \<longrightarrow> told M d' ''seat.reserved.v1'' h') \<and>
    (h_status h' = RELEASED \<longrightarrow> told M d' ''seat.released.v1'' h' \<or> replaced d' h')"
  proof cases
    case new
    then show ?thesis by simp
  next
    case old
    note keep = told_mono [OF _ e(1) subset_refl old(2)] replaced_mono [OF _ e(2) old(2)]
    have "told M d ''seat.held.v1'' h" "h_status h = RESERVED \<Longrightarrow> told M d ''seat.reserved.v1'' h"
      "h_status h = RELEASED \<Longrightarrow> told M d ''seat.released.v1'' h \<or> replaced d h"
      using a old(1) by (auto simp: announced_def)
    then show ?thesis using keep old(3) by auto
  qed
qed

subsection \<open>The statements of the repositories\<close>

lemma evs_row: "r \<in> set (outbox d) \<Longrightarrow> ev_of r \<in> evs d"
  by (simp add: evs_def)

lemma told_row: "r \<in> set (outbox d) \<Longrightarrow> concerns ty h (ev_of r) \<Longrightarrow> told M d ty h"
  unfolding told_def using evs_row by blast

lemma announced_insert:
  assumes s: "insert_hold_spec env nowJs holdId eventId occ seatId userId traceId now d = Inr (r, d')"
    and a: "announced M d"
  shows "announced M d'"
proof (cases r)
  case (Hold_Conflict c)
  then show ?thesis using s a by (auto dest: insert_hold_spec_conflict)
next
  case (Hold_Ok h)
  from insert_hold_spec_placed [OF s [unfolded Hold_Ok]] obtain t price where p:
    "h = \<lparr>h_id = holdId, h_seat_id = seatId, h_user_id = userId, h_status = HELD,
       h_held_until = nowJs + HOLD_TTL_SECONDS env * 1000, h_created_at = t, h_released_at = None, h_reserved_at = None\<rparr>"
    "holds d' = upd_where (\<lambda>x. h_seat_id x = seatId \<and> expired t x) (release_row t) (holds d) @ [h]"
    "outbox d' = outbox d @ [new_outbox_row (Suc (outbox_seq d)) t holdId ''seat.held.v1''
       (seat_held_payload eventId seatId userId holdId (nowJs + HOLD_TTL_SECONDS env * 1000) (fst price) (snd price)
          traceId occ) [(''traceId'', traceId), (''userId'', userId)]]"
    unfolding hold_placed_def by blast
  show ?thesis
  proof (rule announced_change [OF a _ insert_hold_spec_evolves [OF s]])
    show "evs d \<subseteq> evs d'" by (auto simp: evs_def p(3))
    fix h' assume "h' \<in> set (holds d')"
    then consider "h' = h" | x where "x \<in> set (holds d)"
        "h' = (if h_seat_id x = seatId \<and> expired t x then release_row t x else x)"
      by (auto simp: p(2) upd_where_def)
    then show "held h' \<and> told M d' ''seat.held.v1'' h' \<or>
      (\<exists>x \<in> set (holds d). hold_key x = hold_key h' \<and>
         (h_status h' = h_status x \<or> h_status h' = RESERVED \<and> told M d' ''seat.reserved.v1'' h' \<or>
          h_status h' = RELEASED \<and> (told M d' ''seat.released.v1'' h' \<or> replaced d' h')))"
    proof cases
      case 1
      have "told M d' ''seat.held.v1'' h"
        by (rule told_row [of "last (outbox d')"])
          (simp_all add: p(1,3) new_outbox_row_def ev_of_def seat_held_payload_def)
      then show ?thesis using 1 p(1) by simp
    next
      case 2
      show ?thesis
      proof (cases "h_seat_id x = seatId \<and> expired t x")
        case True
        then have "replaced d' h'" unfolding replaced_def p(2) 2(2)
          by (intro bexI [of _ h]) (simp_all add: p(1) release_row_def)
        then show ?thesis using 2 True by (intro disjI2 bexI [of _ x]) (auto simp: hold_key_def release_row_def)
      qed (use 2 in auto)
    qed
  qed
qed

lemma hold_unique:
  "seat_db_ok d \<Longrightarrow> x \<in> set (holds d) \<Longrightarrow> y \<in> set (holds d) \<Longrightarrow> h_id x = h_id y \<Longrightarrow> x = y"
  by (auto simp: seat_db_ok_def seat_schema_ok_def distinct_map dest: inj_onD)

text \<open>One hold changes and one row tells of it.\<close>

lemma announced_one:
  assumes a: "announced M d" and ok: "seat_db_ok d" and e: "evs d \<subseteq> evs d'" "evolves d d'"
    and h: "h \<in> set (holds d)" "held h"
    and d': "holds d' = upd_where (\<lambda>x. h_id x = h_id h \<and> held x) f (holds d)" "r \<in> set (outbox d')"
    and f: "f = release_row now \<and> concerns ''seat.released.v1'' h (ev_of r) \<or>
      f = reserve_row now \<and> concerns ''seat.reserved.v1'' h (ev_of r)"
  shows "announced M d'"
proof (rule announced_change [OF a e])
  have k: "hold_key (f h) = hold_key h" using f by auto
  fix h' assume "h' \<in> set (holds d')"
  then obtain x where x: "x \<in> set (holds d)" "h' = (if h_id x = h_id h \<and> held x then f x else x)"
    by (auto simp: d'(1) upd_where_def)
  show "held h' \<and> told M d' ''seat.held.v1'' h' \<or>
    (\<exists>x \<in> set (holds d). hold_key x = hold_key h' \<and>
       (h_status h' = h_status x \<or> h_status h' = RESERVED \<and> told M d' ''seat.reserved.v1'' h' \<or>
        h_status h' = RELEASED \<and> (told M d' ''seat.released.v1'' h' \<or> replaced d' h')))"
  proof (cases "h_id x = h_id h \<and> held x")
    case True
    then have "x = h" using hold_unique [OF ok x(1) h(1)] by simp
    then have h': "h' = f h" using x(2) True by simp
    have t: "told M d' ty (f h)" if "concerns ty h (ev_of r)" for ty
      by (rule told_row [OF d'(2)]) (use that concerns_key [OF k] in simp)
    have s: "f = release_row now \<Longrightarrow> h_status (f h) = RELEASED" "f = reserve_row now \<Longrightarrow> h_status (f h) = RESERVED"
      by (simp_all add: release_row_def reserve_row_def)
    from f s t have "h_status h' = RESERVED \<and> told M d' ''seat.reserved.v1'' h' \<or>
        h_status h' = RELEASED \<and> told M d' ''seat.released.v1'' h'"
      unfolding h' by blast
    then show ?thesis using h(1) k h' by auto
  qed (use x in auto)
qed

lemma announced_release:
  assumes s: "release_hold_spec holdId reason traceId eventId occ now d = Inr (r, d')"
    and a: "announced M d" and ok: "seat_db_ok d"
  shows "announced M d'"
proof (cases "filter (\<lambda>h. h_id h = holdId \<and> held h) (holds d)")
  case Nil
  then show ?thesis using s a by (simp add: release_hold_spec_def)
next
  case (Cons h rest)
  then have "h \<in> set (filter (\<lambda>h. h_id h = holdId \<and> held h) (holds d))" by simp
  then have h: "h \<in> set (holds d)" "held h" "h_id h = holdId" by auto
  have d': "d' = append_outbox now holdId ''seat.released.v1''
      (seat_released_payload eventId (h_seat_id h) reason traceId occ) [(''traceId'', traceId)]
      (free_seat (h_seat_id h) (update_holds (\<lambda>h. h_id h = holdId \<and> held h) (release_row now) d))"
    using s Cons by (simp add: release_hold_spec_def)
  show ?thesis
  proof (rule announced_one [OF a ok _ release_hold_spec_evolves [OF s] h(1,2)])
    show "evs d \<subseteq> evs d'" using outbox_rel_release_hold [OF s] ok
      by (simp add: outbox_rel_def seat_db_ok_def seat_schema_ok_def)
    show "last (outbox d') \<in> set (outbox d')" by (simp add: d')
    show "release_row now = release_row now \<and> concerns ''seat.released.v1'' h (ev_of (last (outbox d'))) \<or>
      release_row now = reserve_row now \<and> concerns ''seat.reserved.v1'' h (ev_of (last (outbox d')))"
      by (simp add: d' new_outbox_row_def ev_of_def seat_released_payload_def h(3))
  qed (simp add: d' h(3))
qed

lemma announced_reserve:
  assumes s: "reserve_hold_spec holdId eventId cg traceId newEventId occ now d = Inr (r, d')"
    and a: "announced M d" and ok: "seat_db_ok d"
  shows "announced M d'"
proof (cases "(eventId, cg) \<in> set (consumed_events d) \<or> filter (\<lambda>h. h_id h = holdId \<and> held h) (holds d) = []")
  case True
  then show ?thesis using s a by (auto simp: reserve_hold_spec_def Let_def split: if_splits)
next
  case False
  then obtain h rest where c: "filter (\<lambda>h. h_id h = holdId \<and> held h) (holds d) = h # rest"
    by (cases "filter (\<lambda>h. h_id h = holdId \<and> held h) (holds d)") auto
  then have "h \<in> set (filter (\<lambda>h. h_id h = holdId \<and> held h) (holds d))" by simp
  then have h: "h \<in> set (holds d)" "held h" "h_id h = holdId" by auto
  have d': "d' = append_outbox now holdId ''seat.reserved.v1''
      (seat_reserved_payload newEventId (h_seat_id h) (h_user_id h) holdId traceId occ) [(''traceId'', traceId)]
      (update_seats (\<lambda>s. s_id s = h_seat_id h) (\<lambda>s. s\<lparr>s_status := SEAT_RESERVED\<rparr>)
        (update_holds (\<lambda>h. h_id h = holdId \<and> held h) (reserve_row now)
          (d\<lparr>consumed_events := consumed_events d @ [(eventId, cg)]\<rparr>)))"
    using s False c by (simp add: reserve_hold_spec_def Let_def)
  show ?thesis
  proof (rule announced_one [OF a ok _ reserve_hold_spec_evolves [OF s] h(1,2)])
    show "evs d \<subseteq> evs d'" using outbox_rel_reserve_hold [OF s] ok
      by (simp add: outbox_rel_def seat_db_ok_def seat_schema_ok_def)
    show "last (outbox d') \<in> set (outbox d')" by (simp add: d')
    show "reserve_row now = release_row now \<and> concerns ''seat.released.v1'' h (ev_of (last (outbox d'))) \<or>
      reserve_row now = reserve_row now \<and> concerns ''seat.reserved.v1'' h (ev_of (last (outbox d')))"
      by (simp add: d' new_outbox_row_def ev_of_def seat_reserved_payload_def h(3))
  qed (simp add: d' h(3))
qed

lemma announced_sweep:
  assumes s: "sweep_spec env scan traceId fresh occ now d = Inr (u, d')" and "scan_ok scan"
    and a: "announced M d" and ok: "seat_db_ok d"
  shows "announced M d'"
proof -
  let ?B = "set (sweep_batch scan (SWEEP_BATCH_LIMIT env) now d)"
  let ?rows = "map (\<lambda>h. (h_id h, h_seat_id h)) (swept scan (SWEEP_BATCH_LIMIT env) now d)"
  have d': "d' = fold (sweep_row_db traceId fresh occ now) (enumerate 0 ?rows)
      (update_holds (\<lambda>h. h_id h \<in> ?B) (release_row now) d)"
    using s by (simp add: sweep_spec_def Let_def)
  have swept: "told M d' ''seat.released.v1'' h" if "h \<in> set (holds d)" "h_id h \<in> ?B" for h
  proof -
    have "(h_id h, h_seat_id h) \<in> set ?rows" using that by (auto simp: swept_def)
    then have "(h_id h, h_seat_id h) \<in> snd ` set (enumerate 0 ?rows)" by (metis list.set_map map_snd_enumerate)
    then obtain i where "(i, h_id h, h_seat_id h) \<in> set (enumerate 0 ?rows)" by (elim imageE) force
    then have "(h_id h, ''seat.released.v1'', seat_released_payload (fresh i) (h_seat_id h) ''sweeper'' traceId (occ i))
        \<in> set (map (\<lambda>r. (o_aggregate_id r, o_event_type r, o_payload r)) (outbox d'))"
      unfolding d' fold_sweep_outbox by force
    then obtain r where "r \<in> set (outbox d')" "o_aggregate_id r = h_id h" "o_event_type r = ''seat.released.v1''"
      "o_payload r = seat_released_payload (fresh i) (h_seat_id h) ''sweeper'' traceId (occ i)" by auto
    then show ?thesis by (intro told_row [of r]) (simp_all add: ev_of_def seat_released_payload_def)
  qed
  have ok': "seat_schema_ok d" using ok by (simp add: seat_db_ok_def)
  show ?thesis
  proof (rule announced_change [OF a _ sweep_spec_evolves [OF ok' assms(2) s]])
    show "evs d \<subseteq> evs d'" using outbox_rel_sweep [OF s] ok'
      by (simp add: outbox_rel_def seat_schema_ok_def)
    fix h' assume "h' \<in> set (holds d')"
    then obtain x where x: "x \<in> set (holds d)" "h' = (if h_id x \<in> ?B then release_row now x else x)"
      by (auto simp: sweep_spec_holds [OF s] upd_where_def)
    show "held h' \<and> told M d' ''seat.held.v1'' h' \<or>
      (\<exists>x \<in> set (holds d). hold_key x = hold_key h' \<and>
         (h_status h' = h_status x \<or> h_status h' = RESERVED \<and> told M d' ''seat.reserved.v1'' h' \<or>
          h_status h' = RELEASED \<and> (told M d' ''seat.released.v1'' h' \<or> replaced d' h')))"
    proof (cases "h_id x \<in> ?B")
      case True
      then have "told M d' ''seat.released.v1'' h'"
        using told_mono [OF swept [OF x(1) True] subset_refl subset_refl] x(2) by simp
      then show ?thesis using x True by (intro disjI2 bexI [of _ x]) (auto simp: hold_key_def release_row_def)
    qed (use x in auto)
  qed
qed
subsection \<open>The sessions\<close>

text \<open>The ids of the outbox are given once: no old id comes back with another event.\<close>

definition fresh_ids :: "seat_db \<Rightarrow> seat_db \<Rightarrow> bool" where
  "fresh_ids d d' \<longleftrightarrow>
     (outbox_ok d \<longrightarrow> outbox_ok d' \<and> outbox_seq d \<le> outbox_seq d' \<and>
       (\<forall>k \<in> evs d'. fst k \<le> outbox_seq d \<longrightarrow> k \<in> evs d))"

lemma fresh_ids_rel: "outbox_rel d d' \<Longrightarrow> fresh_ids d d'"
  by (auto simp: outbox_rel_def fresh_ids_def)

lemma fresh_ids_refl [simp]: "fresh_ids d d"
  by (simp add: fresh_ids_def)

lemma fresh_ids_trans: "fresh_ids a b \<Longrightarrow> fresh_ids b c \<Longrightarrow> fresh_ids a c"
  unfolding fresh_ids_def by (meson order_trans)

lemma fresh_ids_delete: "delete_outbox i now d = Inr (u, d') \<Longrightarrow> fresh_ids d d'"
  by (auto simp: delete_outbox_def fresh_ids_def outbox_ok_def distinct_map_filter evs_def)

text \<open>
  What the sessions of the seat service do to each other, \<open>W\<close> being the messages whose rows the outbox
  workers of the others have deleted: what is told stays told, counting \<open>W\<close>.
\<close>

definition keeps_told :: "pub_msg set \<Rightarrow> seat_db \<Rightarrow> seat_db \<Rightarrow> bool" where
  "keeps_told W d d' \<longleftrightarrow>
     seat_rel d d' \<and> fresh_ids d d' \<and>
     (seat_db_ok d \<longrightarrow> (\<forall>M. W \<subseteq> M \<longrightarrow> announced M d \<longrightarrow> announced M d'))"

lemma keeps_told_refl [simp]: "keeps_told W d d"
  using seat_rel_preorder(1) by (auto simp: keeps_told_def dest: reflpD)

lemma keeps_told_trans: "keeps_told W a b \<Longrightarrow> keeps_told W b c \<Longrightarrow> keeps_told W a c"
  using transpD [OF seat_rel_preorder(2)] fresh_ids_trans unfolding keeps_told_def seat_rel_def by metis

lemma keeps_told_mono: "keeps_told W d d' \<Longrightarrow> W \<subseteq> W' \<Longrightarrow> keeps_told W' d d'"
  by (auto simp: keeps_told_def)

definition announcing :: "pub_msg set \<Rightarrow> seat_db environment" where
  "announcing W = \<lparr>rel = keeps_told W, faulty = True\<rparr>"

lemma announcing_sel [simp]: "rel (announcing W) = keeps_told W" "faulty (announcing W)"
  by (simp_all add: announcing_def)

lemma keeps_told_specs:
  "insert_hold_spec env nowJs holdId eventId occ seatId userId traceId now d = Inr (r, d') \<Longrightarrow> keeps_told W d d'"
  "release_hold_spec holdId reason traceId eventId occ now d = Inr (r1, d') \<Longrightarrow> keeps_told W d d'"
  "reserve_hold_spec holdId eventId cg traceId newEventId occ now d = Inr (r2, d') \<Longrightarrow> keeps_told W d d'"
  "scan_ok scan \<Longrightarrow> sweep_spec env scan traceId fresh occs now d = Inr (u, d') \<Longrightarrow> keeps_told W d d'"
  unfolding keeps_told_def
  by (blast intro: seat_rel_specs fresh_ids_rel outbox_rel_insert_hold outbox_rel_release_hold outbox_rel_reserve_hold
      outbox_rel_sweep announced_insert announced_release announced_reserve announced_sweep)+

interpretation announce: seat_sessions "announcing W" for W
  by unfold_locales (auto intro!: reflpI transpI intro: keeps_told_trans keeps_told_specs)

lemma keeps_told_payment_effect: "payment_effect eventId occ ev now d = Inr ((), d') \<Longrightarrow> keeps_told W d d'"
  by (cases ev) (auto simp: payment_effect_def dest: keeps_told_specs(2,3))

subsection \<open>The worker\<close>

lemma announced_same:
  assumes "announced M d" and "holds d' = holds d" and "evs d' = evs d"
  shows "announced M d'"
  using assms(1) by (simp add: announced_def told_def replaced_def assms(2,3))

lemma keeps_told_worker:
  fixes d :: seat_db
  shows "recover_stuck now d = Inr (u, d') \<Longrightarrow> keeps_told W d d'"
    and "mark_processing ids now d = Inr (u, d') \<Longrightarrow> keeps_told W d d'"
    and "mark_dead n i now d = Inr (u, d') \<Longrightarrow> keeps_told W d d'"
    and "reschedule n b i now d = Inr (u, d') \<Longrightarrow> keeps_told W d d'"
proof -
  have k: "keeps_told W d d'" if "seat_rel d d'" "outbox_rel d d'" "evs d' = evs d" "holds d' = holds d"
    using that announced_same by (simp add: keeps_told_def fresh_ids_rel)
  show "recover_stuck now d = Inr (u, d') \<Longrightarrow> keeps_told W d d'"
    "mark_processing ids now d = Inr (u, d') \<Longrightarrow> keeps_told W d d'"
    "mark_dead n i now d = Inr (u, d') \<Longrightarrow> keeps_told W d d'"
    "reschedule n b i now d = Inr (u, d') \<Longrightarrow> keeps_told W d d'"
    by (rule k; (erule seat_rel_worker outbox_rel_stmts evs_stmts)?;
        auto simp: outbox_stmt_defs update_outbox_def)+
qed

text \<open>A message that has been confirmed tells what its row told.\<close>

lemma announced_delete:
  assumes a: "announced M d" and m: "message_of seat_exchange row \<in> M"
    and k: "\<forall>k \<in> evs d. fst k = o_id row \<longrightarrow> k = ev_of row"
    and del: "delete_outbox (o_id row) now d = Inr (u, d')"
  shows "announced M d'"
proof -
  have d': "d' = d\<lparr>outbox := filter (\<lambda>r. o_id r \<noteq> o_id row) (outbox d)\<rparr>" using del by (simp add: delete_outbox_def)
  have "ev \<in> evs d' \<or> message_ev seat_exchange ev \<in> M" if "ev \<in> evs d" for ev
  proof (cases "fst ev = o_id row")
    case True
    then have "ev = ev_of row" using k that by blast
    then show ?thesis using m by (simp add: message_ev_of)
  next
    case False
    then show ?thesis using that by (auto simp: evs_def d')
  qed
  then have "told M d ty h \<Longrightarrow> told M d' ty h" for ty h unfolding told_def by blast
  moreover have "holds d' = holds d" by (simp add: d')
  ultimately show ?thesis using a by (auto simp: announced_def replaced_def)
qed

definition telling where
  "telling W d0 R d msgs \<longleftrightarrow>
     seat_db_ok d0 \<and> seat_rel d0 d \<and> fresh_ids d0 d \<and>
     (\<forall>M. W \<subseteq> M \<longrightarrow> announced M d0 \<longrightarrow> announced (M \<union> set msgs) d) \<and>
     (\<forall>row \<in> R. o_id row \<le> outbox_seq d \<and> (\<forall>k \<in> evs d. fst k = o_id row \<longrightarrow> k = ev_of row))"

lemma telling_ok: "telling W d0 R d msgs \<Longrightarrow> seat_db_ok d \<and> outbox_ok d"
  by (auto simp: telling_def seat_rel_def seat_db_ok_def seat_schema_ok_def)

lemma telling_keeps:
  assumes t: "telling W d0 R d msgs" and k: "keeps_told W d d'"
  shows "telling W d0 R d' msgs"
proof -
  have ok: "seat_db_ok d" "outbox_ok d" using telling_ok [OF t] by simp_all
  have f: "outbox_seq d \<le> outbox_seq d'" "\<forall>k \<in> evs d'. fst k \<le> outbox_seq d \<longrightarrow> k \<in> evs d"
    using k ok(2) by (simp_all add: keeps_told_def fresh_ids_def)
  have "announced (M \<union> set msgs) d'" if "W \<subseteq> M" "announced M d0" for M
  proof -
    have "announced (M \<union> set msgs) d" "W \<subseteq> M \<union> set msgs" using t that by (auto simp: telling_def)
    then show ?thesis using k ok(1) unfolding keeps_told_def by blast
  qed
  moreover have "seat_rel d0 d'" "fresh_ids d0 d'"
    using t k transpD [OF seat_rel_preorder(2)] fresh_ids_trans by (auto simp: telling_def keeps_told_def)
  ultimately show ?thesis using t f by (fastforce simp: telling_def)
qed

lemma telling_claims:
  assumes "telling W d0 {} d msgs" and "R \<subseteq> set (outbox d)"
  shows "telling W d0 R d msgs"
proof -
  have ok: "outbox_ok d" using telling_ok [OF assms(1)] by simp
  have "o_id row \<le> outbox_seq d" "\<forall>k \<in> evs d. fst k = o_id row \<longrightarrow> k = ev_of row" if "row \<in> R" for row
  proof -
    have r: "row \<in> set (outbox d)" using that assms(2) by blast
    then show "o_id row \<le> outbox_seq d" using ok by (simp add: outbox_ok_def)
    show "\<forall>k \<in> evs d. fst k = o_id row \<longrightarrow> k = ev_of row"
      using evs_unique [OF ok _ evs_row [OF r]] by simp
  qed
  then show ?thesis using assms(1) by (simp add: telling_def)
qed

lemma telling_deletes:
  assumes t: "telling W d0 R d (msgs @ [message_of seat_exchange row])" and "row \<in> R"
    and del: "delete_outbox (o_id row) now d = Inr (u, d')"
  shows "telling W d0 R d' (msgs @ [message_of seat_exchange row])"
proof -
  have d': "d' = d\<lparr>outbox := filter (\<lambda>r. o_id r \<noteq> o_id row) (outbox d)\<rparr>" using del by (simp add: delete_outbox_def)
  have "announced (M \<union> set (msgs @ [message_of seat_exchange row])) d'" if "W \<subseteq> M" "announced M d0" for M
    by (rule announced_delete [OF _ _ _ del]) (use t that \<open>row \<in> R\<close> in \<open>auto simp: telling_def\<close>)
  moreover have "seat_rel d0 d'" "fresh_ids d0 d'"
    using t transpD [OF seat_rel_preorder(2) _ seat_rel_worker(4) [OF del]] fresh_ids_trans fresh_ids_delete [OF del]
    by (auto simp: telling_def)
  moreover have "evs d' \<subseteq> evs d" "outbox_seq d' = outbox_seq d" by (auto simp: d' evs_def)
  ultimately show ?thesis using t by (auto simp: telling_def)
qed

lemma telling_finishes: "telling W d0 R d msgs \<Longrightarrow> telling W d0 {} d msgs"
  by (simp add: telling_def)

interpretation teller: tick_invariant "announcing W" seat_exchange "telling W d0" for W d0
proof unfold_locales
  fix R d row and msgs :: "pub_msg list"
  assume t: "telling W d0 R d msgs"
  have "announced (M \<union> set (msgs @ [message_of seat_exchange row])) d" if "W \<subseteq> M" "announced M d0" for M
    by (rule announced_mono [of "M \<union> set msgs"]) (use t that in \<open>auto simp: telling_def\<close>)
  then show "telling W d0 R d (msgs @ [message_of seat_exchange row])" using t by (simp add: telling_def)
qed (simp_all add: keeps_told_worker, (blast intro: telling_keeps telling_claims telling_finishes telling_deletes)+)

subsection \<open>The service, its worker and the broker\<close>

record seat_side =
  service :: seat_proc
  confirmed :: "pub_msg list"

inductive seat_side_step ::
    "pub_msg set \<Rightarrow> seat_env \<Rightarrow> zod_formats \<Rightarrow> (string \<Rightarrow> json option) \<Rightarrow> seat_side \<Rightarrow> seat_side \<Rightarrow> bool"
  for W env z json_parse where
  handler: "seat_step_in (announcing W) UNIV env z json_parse (service p) s \<Longrightarrow>
    seat_side_step W env z json_parse p (p\<lparr>service := s\<rparr>)"
| worker: "obeys (announcing W) (script (w :: seat_db outbox_proc)) \<Longrightarrow> tx w = None \<Longrightarrow> \<not> w_running w \<Longrightarrow>
    sent w = [] \<Longrightarrow> committed w = committed (service p) \<Longrightarrow> outbox_tick seat_exchange locked w = (r, w') \<Longrightarrow>
    seat_side_step W env z json_parse p
      (p\<lparr>service := (service p)\<lparr>committed := committed w'\<rparr>, confirmed := confirmed p @ sent w'\<rparr>)"

inductive seat_side_reach ::
    "pub_msg set \<Rightarrow> seat_env \<Rightarrow> zod_formats \<Rightarrow> (string \<Rightarrow> json option) \<Rightarrow> seat_side \<Rightarrow> seat_side \<Rightarrow> bool"
  for W env z json_parse where
  start: "seat_side_reach W env z json_parse p p"
| step: "seat_side_reach W env z json_parse p p1 \<Longrightarrow> seat_side_step W env z json_parse p1 p2 \<Longrightarrow>
    seat_side_reach W env z json_parse p p2"

text \<open>One step is a session that the others may run beside, once they count what it had confirmed.\<close>

lemma seat_side_step_keeps:
  assumes step: "seat_side_step W env z json_parse p p'" and ok: "seat_db_ok (committed (service p))"
    and tx: "tx (service p) = None"
  shows "keeps_told (W \<union> set (confirmed p')) (committed (service p)) (committed (service p')) \<and>
    tx (service p') = None \<and> set (confirmed p) \<subseteq> set (confirmed p')"
  using step
proof cases
  case (handler s)
  have "rel (announcing W) (committed (service p)) (committed s) \<and> checked_out s = checked_out (service p) \<and> tx s = None"
    by (rule announce.step_settled [OF handler(2) tx]) (simp_all add: keeps_told_payment_effect)
  then show ?thesis using keeps_told_mono [of W _ _ "W \<union> set (confirmed p)"] by (simp add: handler(1))
next
  case (worker w locked r w')
  let ?d = "committed (service p)"
  have i: "idle (announcing W) ?d (checked_out w) (conn.more w) w"
    using worker by (auto simp: conn_state_defs obeys_def intro!: reflpI transpI intro: keeps_told_trans)
  have "telling W ?d {} ?d (sent w)"
    using ok worker(5) seat_rel_preorder(1) by (auto simp: telling_def dest: reflpD)
  from teller.tick_run [OF i this worker(4) worker(7)]
  have k: "telling W ?d {} (committed w') (sent w')" by simp
  have "announced M (committed w')" if "W \<union> set (confirmed p @ sent w') \<subseteq> M" "announced M ?d" for M
  proof -
    have "announced (M \<union> set (sent w')) (committed w')" using k that by (simp add: telling_def)
    moreover have "M \<union> set (sent w') = M" using that(1) by auto
    ultimately show ?thesis by simp
  qed
  then show ?thesis using k tx by (auto simp: worker(1) keeps_told_def telling_def)
qed

lemma seat_side_reach_keeps:
  "seat_side_reach W env z json_parse p p' \<Longrightarrow> seat_db_ok (committed (service p)) \<Longrightarrow> tx (service p) = None \<Longrightarrow>
     keeps_told (W \<union> set (confirmed p')) (committed (service p)) (committed (service p')) \<and>
     seat_db_ok (committed (service p')) \<and> tx (service p') = None \<and> set (confirmed p) \<subseteq> set (confirmed p')"
proof (induction rule: seat_side_reach.induct)
  case (step p p1 p2)
  have 1: "keeps_told (W \<union> set (confirmed p1)) (committed (service p)) (committed (service p1))"
    "seat_db_ok (committed (service p1))" "tx (service p1) = None" "set (confirmed p) \<subseteq> set (confirmed p1)"
    using step by simp_all
  note 2 = seat_side_step_keeps [OF step(2) 1(2,3)]
  have "keeps_told (W \<union> set (confirmed p2)) (committed (service p)) (committed (service p1))"
    by (rule keeps_told_mono [OF 1(1)]) (use 2 in auto)
  then have "keeps_told (W \<union> set (confirmed p2)) (committed (service p)) (committed (service p2))"
    using 2 by (blast intro: keeps_told_trans)
  moreover have "seat_db_ok (committed (service p2))" using 2 1(2) by (simp add: keeps_told_def seat_rel_def)
  ultimately show ?case using 1(4) 2 by auto
qed simp_all

subsection \<open>No hold changes in silence\<close>

text \<open>C30: No hold changes in silence. Take any run of the seat service (its handlers, the sweeper, the
  consumer on any messages) and of its outbox worker over one database, with any failures and with
  other replicas of both committing at any point, \<open>W\<close> being the messages the broker has confirmed to
  the workers of the others. If at the start every hold is told of, then at every point every hold has
  a seat.held.v1 event, a RESERVED hold also a seat.reserved.v1 event, and a RELEASED hold also a
  seat.released.v1 event or a later hold of the same seat that replaced it once it had expired; each of
  these events names its hold, seat and user, and is in the outbox or confirmed by the broker.\<close>

theorem no_hold_in_silence:
  assumes "seat_side_reach W env z json_parse p p'"
    and "seat_db_ok (committed (service p))" and "tx (service p) = None"
    and "announced (W \<union> set (confirmed p)) (committed (service p))"
    and "h \<in> set (holds (committed (service p')))"
  shows "told (W \<union> set (confirmed p')) (committed (service p')) ''seat.held.v1'' h \<and>
    (h_status h = RESERVED \<longrightarrow> told (W \<union> set (confirmed p')) (committed (service p')) ''seat.reserved.v1'' h) \<and>
    (h_status h = RELEASED \<longrightarrow> told (W \<union> set (confirmed p')) (committed (service p')) ''seat.released.v1'' h \<or>
      (\<exists>k \<in> set (holds (committed (service p'))). h_seat_id k = h_seat_id h \<and> h_held_until h < h_created_at k))"
proof -
  have run: "keeps_told (W \<union> set (confirmed p')) (committed (service p)) (committed (service p'))"
    "set (confirmed p) \<subseteq> set (confirmed p')"
    using seat_side_reach_keeps [OF assms(1-3)] by simp_all
  have "announced (W \<union> set (confirmed p')) (committed (service p))"
    by (rule announced_mono [OF assms(4)]) (use run(2) in auto)
  then have "announced (W \<union> set (confirmed p')) (committed (service p'))"
    using run(1) assms(2) by (simp add: keeps_told_def)
  then show ?thesis
    using assms(5) by (simp add: announced_def replaced_def)
qed

text \<open>A hold is placed and the worker ticks: its row is gone and its message confirmed.\<close>

definition empty_side :: seat_side where
  "empty_side = \<lparr>service = (demo [])\<lparr>committed :=
     demo_db\<lparr>seats := [demo_seat ''s1'' ''A1'' SEAT_AVAILABLE], holds := []\<rparr>\<rparr>, confirmed = []\<rparr>"

definition held_side :: seat_side where
  "held_side = empty_side\<lparr>service :=
     snd (seats_hold demo_env demo_fresh ''s1'' (Some (JObj [])) ''u1'' None (service empty_side))\<rparr>"

definition held_worker :: "seat_db outbox_proc" where
  "held_worker = \<lparr>committed = committed (service held_side), tx = None, tx_failed = False, tx_now = 1000000,
     script = [], checked_out = 0, w_running = False, sent = [], pub_fates = []\<rparr>"

definition told_side :: seat_side where
  "told_side =
     (let w' = snd (outbox_tick seat_exchange (\<lambda>_. False) held_worker) in
      held_side\<lparr>service := (service held_side)\<lparr>committed := committed w'\<rparr>, confirmed := confirmed held_side @ sent w'\<rparr>)"

lemma told_side_reached: "seat_side_reach {} demo_env z json_parse empty_side told_side"
proof (rule seat_side_reach.step [OF seat_side_reach.step [OF seat_side_reach.start]])
  show "seat_side_step {} demo_env z json_parse empty_side held_side"
  proof -
    let ?s = "service empty_side"
    let ?op = "seats_hold demo_env demo_fresh ''s1'' (Some (JObj [])) ''u1'' None"
    have "?op (?s\<lparr>script := []\<rparr>) = (fst (?op ?s), snd (?op ?s))" by (simp add: empty_side_def demo_def)
    from seat_step_in.hold [OF _ this] show ?thesis
      unfolding held_side_def by (intro seat_side_step.handler) (simp add: obeys_def)
  qed
  show "seat_side_step {} demo_env z json_parse held_side told_side"
    unfolding told_side_def Let_def
    by (rule seat_side_step.worker [OF _ _ _ _ _ surjective_pairing])
      (simp_all add: obeys_def held_worker_def)
qed

theorem no_hold_in_silence_witness:
  "outbox (committed (service told_side)) = [] \<and>
   (\<exists>h \<in> set (holds (committed (service told_side))). held h \<and>
     (\<exists>ev. message_ev seat_exchange ev \<in> set (confirmed told_side) \<and> concerns ''seat.held.v1'' h ev))"
proof -
  have 1: "seat_db_ok (committed (service empty_side))" "tx (service empty_side) = None"
    "announced ({} \<union> set (confirmed empty_side)) (committed (service empty_side))"
    by (code_simp, simp add: empty_side_def demo_def, simp add: empty_side_def announced_def demo_def)
  have 2: "outbox (committed (service told_side)) = []" "map h_status (holds (committed (service told_side))) = [HELD]"
    by code_simp+
  then obtain h where h: "holds (committed (service told_side)) = [h]" "h_status h = HELD" by auto
  then have "h \<in> set (holds (committed (service told_side)))" by simp
  from no_hold_in_silence [OF told_side_reached 1 this, THEN conjunct1] show ?thesis
    using 2(1) h by (simp add: told_def evs_def)
qed

text \<open>The exception is real: \<open>insertHoldTx\<close> releases an expired hold of its seat without an event, which
  the sweeper would have written. The payment service, which cancels the pending payments of a seat
  on seat.released.v1, is not told.\<close>

lemma lazy_release_untold:
  "let d' = committed (snd (seats_hold demo_env demo_fresh ''s2'' (Some (JObj [])) ''u1'' None (demo []))) in
   map (\<lambda>h. (h_id h, h_status h)) (holds d') = [(''h2'', RELEASED), (''h3'', HELD), (''h1'', HELD)] \<and>
   map o_event_type (outbox d') = [''seat.held.v1'']"
  by code_simp

lemma sweep_release_told:
  "map o_event_type (outbox (committed (snd (sweep_tick demo_env id ''t'' (\<lambda>_. ''e'') (\<lambda>_. 1000) (demo []))))) =
     [''seat.released.v1'']"
  by code_simp

end
