(* ===== verification/Auth_Db.thy ===== *)
theory Auth_Db
  imports Guarantee Contracts
begin

text \<open>
  The database of the auth service (apps/auth/src/migrations/20240101000000_init.sql) and the SQL
  statements of users.repository.ts, sessions.repository.ts and audit.module.ts, with the invariant
  \<open>auth_db_ok\<close> and the way rows may evolve (\<open>auth_rel\<close>): a revoked token stays revoked, versions only
  grow, the audit log is only appended to.
\<close>

record user_row =
  u_id :: uuid
  u_email :: string
  u_password_hash :: string
  u_token_version :: nat
  u_created_at :: instant

record rt_row =
  t_id :: uuid
  t_user_id :: uuid
  t_family_id :: uuid
  t_token_hash :: string
  t_rotated_to :: "uuid option"
  t_revoked_at :: "instant option"
  t_expires_at :: instant
  t_grace_until :: "instant option"
  t_created_at :: instant

record audit_row =
  a_user_id :: "uuid option"
  a_action :: string
  a_meta :: json
  a_at :: instant

record auth_db =
  users :: "user_row list"
  tokens :: "rt_row list"
  audit_log :: "audit_row list"

abbreviation active :: "rt_row \<Rightarrow> bool" where
  "active t \<equiv> t_revoked_at t = None"

subsection \<open>Statements\<close>

definition select_user_by_email :: "string \<Rightarrow> (auth_db, user_row option) stmt" where
  "select_user_by_email email now d = Inr (find (\<lambda>u. u_email u = email) (users d), d)"

definition select_user_by_id :: "uuid \<Rightarrow> (auth_db, user_row option) stmt" where
  "select_user_by_id i now d = Inr (find (\<lambda>u. u_id u = i) (users d), d)"

definition insert_user :: "uuid \<Rightarrow> string \<Rightarrow> string \<Rightarrow> (auth_db, user_row) stmt" where
  "insert_user newId email hash now d =
     (let row = \<lparr>u_id = newId, u_email = email, u_password_hash = hash, u_token_version = 0, u_created_at = now\<rparr> in
      if \<exists>u \<in> set (users d). u_id u = newId then Inl (unique_violation ''users_pkey'')
      else if \<exists>u \<in> set (users d). u_email u = email then Inl (unique_violation ''users_email_key'')
      else Inr (row, d\<lparr>users := users d @ [row]\<rparr>))"

definition bump_version :: "uuid \<Rightarrow> (auth_db, unit) stmt" where
  "bump_version i now d =
     Inr ((), d\<lparr>users := upd_where (\<lambda>u. u_id u = i) (\<lambda>u. u\<lparr>u_token_version := Suc (u_token_version u)\<rparr>) (users d)\<rparr>)"

text \<open>\<open>INSERT INTO refresh_tokens (user_id, family_id, token_hash, expires_at) .. RETURNING *\<close>\<close>

definition insert_token :: "uuid \<Rightarrow> uuid \<Rightarrow> uuid \<Rightarrow> string \<Rightarrow> instant \<Rightarrow> (auth_db, rt_row) stmt" where
  "insert_token newId userId family hash expiresAt now d =
     (let row = \<lparr>t_id = newId, t_user_id = userId, t_family_id = family, t_token_hash = hash,
                 t_rotated_to = None, t_revoked_at = None, t_expires_at = expiresAt,
                 t_grace_until = None, t_created_at = now\<rparr> in
      if \<exists>t \<in> set (tokens d). t_id t = newId then Inl (unique_violation ''refresh_tokens_pkey'')
      else if \<exists>t \<in> set (tokens d). t_token_hash t = hash
        then Inl (unique_violation ''refresh_tokens_token_hash_key'')
      else if \<not> (\<exists>u \<in> set (users d). u_id u = userId)
        then Inl (foreign_key_violation ''refresh_tokens_user_id_fkey'')
      else Inr (row, d\<lparr>tokens := tokens d @ [row]\<rparr>))"

definition select_token_by_hash :: "string \<Rightarrow> (auth_db, rt_row option) stmt" where
  "select_token_by_hash hash now d = Inr (find (\<lambda>t. t_token_hash t = hash) (tokens d), d)"

text \<open>\<open>SELECT .. WHERE id = $1 FOR UPDATE\<close>: the lock is the isolation of the transaction.\<close>

definition select_token_by_id :: "uuid \<Rightarrow> (auth_db, rt_row option) stmt" where
  "select_token_by_id i now d = Inr (find (\<lambda>t. t_id t = i) (tokens d), d)"

definition rotated_row :: "uuid \<Rightarrow> instant \<Rightarrow> instant \<Rightarrow> rt_row \<Rightarrow> rt_row" where
  "rotated_row newId graceUntil now t =
     t\<lparr>t_revoked_at := Some now, t_rotated_to := Some newId, t_grace_until := Some graceUntil\<rparr>"

definition revoked_row :: "instant \<Rightarrow> rt_row \<Rightarrow> rt_row" where
  "revoked_row now t = t\<lparr>t_revoked_at := Some now\<rparr>"

definition rotate_old :: "uuid \<Rightarrow> instant \<Rightarrow> uuid \<Rightarrow> (auth_db, unit) stmt" where
  "rotate_old newId graceUntil i now d =
     Inr ((), d\<lparr>tokens := upd_where (\<lambda>t. t_id t = i) (rotated_row newId graceUntil now) (tokens d)\<rparr>)"

definition revoke_tokens :: "(rt_row \<Rightarrow> bool) \<Rightarrow> (auth_db, unit) stmt" where
  "revoke_tokens P now d = Inr ((), d\<lparr>tokens := upd_where P (revoked_row now) (tokens d)\<rparr>)"

definition revoke_by_id :: "uuid \<Rightarrow> (auth_db, unit) stmt" where
  "revoke_by_id i = revoke_tokens (\<lambda>t. t_id t = i)"

definition revoke_family :: "uuid \<Rightarrow> (auth_db, unit) stmt" where
  "revoke_family f = revoke_tokens (\<lambda>t. t_family_id t = f \<and> active t)"

definition revoke_user :: "uuid \<Rightarrow> (auth_db, unit) stmt" where
  "revoke_user u = revoke_tokens (\<lambda>t. t_user_id t = u \<and> active t)"

definition insert_audit :: "uuid option \<Rightarrow> string \<Rightarrow> json \<Rightarrow> (auth_db, unit) stmt" where
  "insert_audit userId action meta now d =
     Inr ((), d\<lparr>audit_log := audit_log d @ [\<lparr>a_user_id = userId, a_action = action, a_meta = meta, a_at = now\<rparr>]\<rparr>)"

lemmas auth_stmt_defs = select_user_by_email_def select_user_by_id_def insert_user_def bump_version_def
  insert_token_def select_token_by_hash_def select_token_by_id_def rotate_old_def revoke_tokens_def
  revoke_by_id_def revoke_family_def revoke_user_def insert_audit_def

lemma rt_update_sel [simp]:
  "t_id (rotated_row n g now t) = t_id t" "t_id (revoked_row now t) = t_id t"
  "t_user_id (rotated_row n g now t) = t_user_id t" "t_user_id (revoked_row now t) = t_user_id t"
  "t_family_id (rotated_row n g now t) = t_family_id t" "t_family_id (revoked_row now t) = t_family_id t"
  "t_token_hash (rotated_row n g now t) = t_token_hash t" "t_token_hash (revoked_row now t) = t_token_hash t"
  "t_expires_at (rotated_row n g now t) = t_expires_at t" "t_expires_at (revoked_row now t) = t_expires_at t"
  "t_created_at (rotated_row n g now t) = t_created_at t" "t_created_at (revoked_row now t) = t_created_at t"
  "t_rotated_to (rotated_row n g now t) = Some n" "t_rotated_to (revoked_row now t) = t_rotated_to t"
  "t_grace_until (rotated_row n g now t) = Some g" "t_grace_until (revoked_row now t) = t_grace_until t"
  "t_revoked_at (rotated_row n g now t) = Some now" "t_revoked_at (revoked_row now t) = Some now"
  by (simp_all add: rotated_row_def revoked_row_def)

subsection \<open>The invariant and how rows evolve\<close>

text \<open>A rotated token names its successor, one of the same user and family; grace is only given to
  rotated tokens and rotated tokens are revoked.\<close>

definition successor :: "rt_row list \<Rightarrow> uuid \<Rightarrow> rt_row \<Rightarrow> bool" where
  "successor ts n t \<longleftrightarrow>
     (\<exists>t' \<in> set ts. t_id t' = n \<and> t_user_id t' = t_user_id t \<and> t_family_id t' = t_family_id t)"

definition linked :: "rt_row list \<Rightarrow> rt_row \<Rightarrow> bool" where
  "linked ts t \<longleftrightarrow>
     (case t_rotated_to t of
        None \<Rightarrow> t_grace_until t = None
      | Some n \<Rightarrow> t_grace_until t \<noteq> None \<and> \<not> active t \<and> successor ts n t)"

definition auth_db_ok :: "auth_db \<Rightarrow> bool" where
  "auth_db_ok d \<longleftrightarrow>
     distinct (map u_id (users d)) \<and> distinct (map u_email (users d)) \<and>
     distinct (map t_id (tokens d)) \<and> distinct (map t_token_hash (tokens d)) \<and>
     (\<forall>t \<in> set (tokens d). t_user_id t \<in> set (map u_id (users d))) \<and>
     (\<forall>t \<in> set (tokens d). linked (tokens d) t)"

lemma successor_upd:
  assumes "\<And>t. t_id (f t) = t_id t \<and> t_user_id (f t) = t_user_id t \<and> t_family_id (f t) = t_family_id t"
  shows "successor (upd_where P f ts) n t = successor ts n t"
  unfolding successor_def bex_upd_where using assms by auto

lemma successor_sel [simp]:
  "successor ts n (revoked_row now t) = successor ts n t"
  "successor ts n (rotated_row m g now t) = successor ts n t"
  by (simp_all add: successor_def)

lemma successor_append: "successor ts n t \<Longrightarrow> successor (ts @ us) n t"
  by (auto simp: successor_def)

lemma linked_mono:
  assumes "linked ts t" and "\<And>n. successor ts n t \<Longrightarrow> successor ts' n t'"
    and "t_rotated_to t' = t_rotated_to t" "t_grace_until t' = t_grace_until t" "\<not> active t \<Longrightarrow> \<not> active t'"
  shows "linked ts' t'"
  using assms by (auto simp: linked_def split: option.splits)

definition user_evolves :: "user_row \<Rightarrow> user_row \<Rightarrow> bool" where
  "user_evolves u u' \<longleftrightarrow>
     u_id u' = u_id u \<and> u_email u' = u_email u \<and> u_password_hash u' = u_password_hash u \<and>
     u_token_version u \<le> u_token_version u'"

definition token_evolves :: "rt_row \<Rightarrow> rt_row \<Rightarrow> bool" where
  "token_evolves t t' \<longleftrightarrow>
     t_id t' = t_id t \<and> t_user_id t' = t_user_id t \<and> t_family_id t' = t_family_id t \<and>
     t_token_hash t' = t_token_hash t \<and> t_expires_at t' = t_expires_at t \<and>
     (\<not> active t \<longrightarrow> \<not> active t')"

definition auth_evolve :: "auth_db \<Rightarrow> auth_db \<Rightarrow> bool" where
  "auth_evolve d d' \<longleftrightarrow>
     (\<exists>us more. users d' = us @ more \<and> list_all2 user_evolves (users d) us) \<and>
     (\<exists>ts more. tokens d' = ts @ more \<and> list_all2 token_evolves (tokens d) ts) \<and>
     (\<exists>more. audit_log d' = audit_log d @ more)"

definition auth_rel :: "auth_db \<Rightarrow> auth_db \<Rightarrow> bool" where
  "auth_rel d d' \<longleftrightarrow> (auth_db_ok d \<longrightarrow> auth_db_ok d' \<and> auth_evolve d d')"

lemma prefix_evolves_trans:
  assumes "\<exists>xs more. b = xs @ more \<and> list_all2 R a xs" and "\<exists>ys more. c = ys @ more \<and> list_all2 R b ys"
    and "\<And>x y z. R x y \<Longrightarrow> R y z \<Longrightarrow> R x z"
  shows "\<exists>zs more. c = zs @ more \<and> list_all2 R a zs"
proof -
  obtain xs m where 1: "b = xs @ m" "list_all2 R a xs" using assms(1) by blast
  obtain ys m' where 2: "c = ys @ m'" "list_all2 R (xs @ m) ys" using assms(2) by (auto simp: 1(1))
  then obtain y1 y2 where y: "ys = y1 @ y2" "list_all2 R xs y1" by (auto simp: list_all2_append1)
  have "list_all2 R a y1" by (rule list_all2_trans [OF _ 1(2) y(2)]) (rule assms(3))
  then show ?thesis using 2(1) y(1) by auto
qed

lemma prefix_evolves_refl: "(\<And>x. R x x) \<Longrightarrow> \<exists>xs more. a = xs @ more \<and> list_all2 R a xs"
  by (rule exI [of _ a], rule exI [of _ "[]"]) (simp add: list_all2_same)

lemma prefix_evolves_upd:
  "(\<And>x. R x x) \<Longrightarrow> (\<And>x. P x \<Longrightarrow> R x (f x)) \<Longrightarrow> \<exists>xs more. upd_where P f a @ new = xs @ more \<and> list_all2 R a xs"
  by (rule exI [of _ "upd_where P f a"], rule exI [of _ new]) (induction a, auto)

lemma evolves_refl1 [simp]: "user_evolves u u" "token_evolves t t"
  by (simp_all add: user_evolves_def token_evolves_def)

lemma auth_evolve_refl [simp]: "auth_evolve d d"
  unfolding auth_evolve_def by (intro conjI prefix_evolves_refl) auto

lemma auth_evolve_trans:
  assumes "auth_evolve a b" and "auth_evolve b c"
  shows "auth_evolve a c"
proof -
  have u: "user_evolves x y \<Longrightarrow> user_evolves y z \<Longrightarrow> user_evolves x z" for x y z
    by (auto simp: user_evolves_def)
  have t: "token_evolves x y \<Longrightarrow> token_evolves y z \<Longrightarrow> token_evolves x z" for x y z
    by (auto simp: token_evolves_def)
  have ab: "\<exists>us more. users b = us @ more \<and> list_all2 user_evolves (users a) us"
    "\<exists>us more. users c = us @ more \<and> list_all2 user_evolves (users b) us"
    "\<exists>ts more. tokens b = ts @ more \<and> list_all2 token_evolves (tokens a) ts"
    "\<exists>ts more. tokens c = ts @ more \<and> list_all2 token_evolves (tokens b) ts"
    using assms by (simp_all only: auth_evolve_def)
  have "\<exists>more. audit_log c = audit_log a @ more" using assms by (auto simp: auth_evolve_def)
  with prefix_evolves_trans [OF ab(1,2) u] prefix_evolves_trans [OF ab(3,4) t] show ?thesis
    by (simp only: auth_evolve_def simp_thms)
qed

lemma auth_rel_refl [simp]: "auth_rel d d"
  by (simp add: auth_rel_def)

lemma auth_rel_trans: "auth_rel a b \<Longrightarrow> auth_rel b c \<Longrightarrow> auth_rel a c"
  unfolding auth_rel_def by (metis auth_evolve_trans)

lemma auth_rel_preorder: "reflp auth_rel" "transp auth_rel"
  by (rule reflpI, simp) (rule transpI, rule auth_rel_trans)

text \<open>The statements respect it. Each is a change of one table.\<close>

lemma auth_evolveI:
  assumes "users d' = upd_where P f (users d) @ us" "\<And>u. P u \<Longrightarrow> user_evolves u (f u)"
    and "tokens d' = upd_where Q g (tokens d) @ ts" "\<And>t. Q t \<Longrightarrow> token_evolves t (g t)"
    and "audit_log d' = audit_log d @ as"
  shows "auth_evolve d d'"
  unfolding auth_evolve_def assms(1,3,5)
  using prefix_evolves_upd [of user_evolves P f "users d" us] prefix_evolves_upd [of token_evolves Q g "tokens d" ts]
    assms(2,4) by simp

lemmas same_rows = upd_where_id [where P = "\<lambda>_. False", simplified]

lemma auth_rel_audit:
  assumes "insert_audit userId action meta now d = Inr (u, d')"
  shows "auth_rel d d'"
proof -
  have "auth_evolve d d'"
    by (rule auth_evolveI [where P = "\<lambda>_. False" and Q = "\<lambda>_. False" and us = "[]" and ts = "[]"])
      (use assms in \<open>auto simp: insert_audit_def same_rows\<close>)
  moreover have "users d' = users d" "tokens d' = tokens d" using assms by (auto simp: insert_audit_def)
  ultimately show ?thesis by (simp add: auth_rel_def auth_db_ok_def)
qed

lemma auth_rel_insert_user:
  assumes "insert_user newId email hash now d = Inr (u, d')"
  shows "auth_rel d d'"
proof -
  have d': "d' = d\<lparr>users := users d @ [u]\<rparr>" "u_id u = newId" "u_email u = email"
    "\<forall>x \<in> set (users d). u_id x \<noteq> newId \<and> u_email x \<noteq> email"
    using assms by (auto simp: insert_user_def Let_def split: if_splits)
  have "auth_evolve d d'"
    by (rule auth_evolveI [where P = "\<lambda>_. False" and Q = "\<lambda>_. False" and us = "[u]" and ts = "[]" and as = "[]"])
      (auto simp: d'(1) same_rows)
  moreover have "auth_db_ok d \<Longrightarrow> auth_db_ok d'"
    using d' by (auto simp: auth_db_ok_def)
  ultimately show ?thesis by (simp add: auth_rel_def)
qed

lemma auth_rel_bump:
  assumes "bump_version i now d = Inr (u, d')"
  shows "auth_rel d d'"
proof -
  let ?f = "\<lambda>u. u\<lparr>u_token_version := Suc (u_token_version u)\<rparr>" and ?P = "\<lambda>u. u_id u = i"
  have d': "d' = d\<lparr>users := upd_where ?P ?f (users d)\<rparr>" using assms by (simp add: bump_version_def)
  have k: "map u_id (users d') = map u_id (users d)" "map u_email (users d') = map u_email (users d)"
    "tokens d' = tokens d"
    by (auto simp: d' intro!: map_upd_where_key)
  have "auth_evolve d d'"
    by (rule auth_evolveI [where P = ?P and f = ?f and Q = "\<lambda>_. False" and us = "[]" and ts = "[]" and as = "[]"])
      (auto simp: d' same_rows user_evolves_def)
  moreover have "auth_db_ok d \<Longrightarrow> auth_db_ok d'" unfolding auth_db_ok_def k by assumption
  ultimately show ?thesis by (simp add: auth_rel_def)
qed

lemma insert_token_Inr:
  assumes "insert_token newId userId family hash expiresAt now d = Inr (t, d')"
  shows "d' = d\<lparr>tokens := tokens d @ [t]\<rparr> \<and>
    t = \<lparr>t_id = newId, t_user_id = userId, t_family_id = family, t_token_hash = hash, t_rotated_to = None,
      t_revoked_at = None, t_expires_at = expiresAt, t_grace_until = None, t_created_at = now\<rparr> \<and>
    userId \<in> u_id ` set (users d) \<and> newId \<notin> t_id ` set (tokens d) \<and> hash \<notin> t_token_hash ` set (tokens d)"
  using assms by (auto simp: insert_token_def Let_def split: if_splits)

lemma auth_rel_insert_token:
  assumes "insert_token newId userId family hash expiresAt now d = Inr (t, d')"
  shows "auth_rel d d'"
proof -
  note d' = insert_token_Inr [OF assms]
  have "auth_evolve d d'"
    by (rule auth_evolveI [where P = "\<lambda>_. False" and Q = "\<lambda>_. False" and us = "[]" and ts = "[t]" and as = "[]"])
      (auto simp: d' same_rows)
  moreover have "auth_db_ok d'" if ok: "auth_db_ok d"
  proof -
    have "linked (tokens d') x" if "x \<in> set (tokens d)" for x
      by (rule linked_mono [of "tokens d"]) (use ok that d' in \<open>auto simp: auth_db_ok_def successor_append\<close>)
    moreover have "linked (tokens d') t" using d' by (simp add: linked_def)
    ultimately show ?thesis using ok d' by (auto simp: auth_db_ok_def)
  qed
  ultimately show ?thesis by (simp add: auth_rel_def)
qed

lemma auth_rel_revoke:
  assumes "revoke_tokens P now d = Inr (u, d')"
  shows "auth_rel d d'"
proof -
  let ?u = "upd_where P (revoked_row now) (tokens d)"
  have d': "d' = d\<lparr>tokens := ?u\<rparr>" using assms by (simp add: revoke_tokens_def)
  have k: "map t_id (tokens d') = map t_id (tokens d)" "map t_token_hash (tokens d') = map t_token_hash (tokens d)"
    "users d' = users d"
    by (auto simp: d' intro!: map_upd_where_key)
  have "auth_evolve d d'"
    by (rule auth_evolveI [where P = "\<lambda>_. False" and Q = P and g = "revoked_row now" and us = "[]" and ts = "[]" and as = "[]"])
      (auto simp: d' same_rows token_evolves_def)
  moreover have "auth_db_ok d'" if ok: "auth_db_ok d"
  proof -
    have "linked (tokens d') (if P x then revoked_row now x else x)" if "x \<in> set (tokens d)" for x
      by (rule linked_mono [of "tokens d" x]) (use ok that in \<open>auto simp: auth_db_ok_def d' successor_upd\<close>)
    then have "\<forall>x \<in> set (tokens d'). linked (tokens d') x" by (auto simp: d' in_upd_where)
    moreover have "\<forall>t \<in> set (tokens d'). t_user_id t \<in> set (map u_id (users d))"
      using ok unfolding auth_db_ok_def by (auto simp: d' in_upd_where)
    ultimately show ?thesis using ok unfolding auth_db_ok_def k by simp
  qed
  ultimately show ?thesis by (simp add: auth_rel_def)
qed

end
