(* ===== verification/Sessions.thy ===== *)
theory Sessions
  imports Auth_Db
begin

text \<open>
  The repositories of the auth service: users (users.repository.ts, password.ts), refresh tokens
  (sessions.repository.ts) and the audit log (audit.module.ts). SHA-256, Argon2 and the random bytes
  are parameters. \<open>rotate\<close> is the one transaction, an instance of the contract of Db_Tx.
\<close>

subsection \<open>Cryptography\<close>

text \<open>
  \<open>sha256 s\<close> is the digest; \<open>argon2_hash salt plain\<close> is argon2.hash with the process's parameters
  (\<open>argon2Params\<close> of Lifecycle) and the random salt explicit, which throws when it does not accept the
  parameters; \<open>argon2_verify hash plain\<close> is argon2.verify, which throws on a text that is not an Argon2 hash.
\<close>

record crypto =
  sha256 :: "string \<Rightarrow> string"
  argon2_hash :: "string \<Rightarrow> string \<Rightarrow> exn + string"
  argon2_verify :: "string \<Rightarrow> string \<Rightarrow> exn + bool"

text \<open>Argon2's documented behaviour with parameters it accepts: hashing does not throw, a hash verifies
  against the password it was made of, and the verification of a hash that Argon2 made does not throw.\<close>

definition argon2_documented :: "crypto \<Rightarrow> bool" where
  "argon2_documented c \<longleftrightarrow>
     (\<forall>salt plain. \<exists>h. argon2_hash c salt plain = Inr h \<and> argon2_verify c h plain = Inr True \<and>
        (\<forall>other. \<exists>b. argon2_verify c h other = Inr b))"

definition hashPassword :: "crypto \<Rightarrow> string \<Rightarrow> string \<Rightarrow> exn + string" where
  "hashPassword c salt plain = argon2_hash c salt plain"

definition verifyPassword :: "crypto \<Rightarrow> string \<Rightarrow> string \<Rightarrow> bool" where
  "verifyPassword c hash plain = (case argon2_verify c hash plain of Inl e \<Rightarrow> False | Inr b \<Rightarrow> b)"

definition hashRefreshToken :: "crypto \<Rightarrow> string \<Rightarrow> string" where
  "hashRefreshToken c raw = sha256 c raw"

definition safeEqualHash :: "string \<Rightarrow> string \<Rightarrow> bool" where
  "safeEqualHash a b = (if length a \<noteq> length b then False else a = b)"

subsection \<open>The process\<close>

record auth_env =
  RT_TTL_SECONDS :: int
  RT_GRACE_SECONDS :: int
  JWT_SECRET :: string
  JWT_AT_TTL_SECONDS :: int
  NODE_ENV :: string

datatype cookie_op = Set_Cookie string int bool | Clear_Cookie bool
  \<comment> \<open>value, maxAge and secure flag; httpOnly, sameSite strict and the path are constants\<close>

record auth_proc = "auth_db conn" +
  dummyHash :: "string option"
  cookies :: "cookie_op list"
  loginSuccessTotal :: nat
  loginFailTotal :: nat
  refreshTotal :: nat
  reuseDetectedTotal :: nat

text \<open>\<open>verifyDummyPassword\<close>: the module's dummy hash is made on the first use; its verification is run
  for its duration only.\<close>

definition DUMMY_PASSWORD :: string where "DUMMY_PASSWORD = ''dummy-password-for-timing-equalization''"

definition initDummyHash :: "crypto \<Rightarrow> string \<Rightarrow> (auth_db, 'x auth_proc_ext, unit) dbm" where
  "initDummyHash c salt =
     bindM (liftM (argon2_hash c salt DUMMY_PASSWORD)) (\<lambda>h. modifyM (\<lambda>s. s\<lparr>dummyHash := Some h\<rparr>))"

definition verifyDummyPassword :: "crypto \<Rightarrow> string \<Rightarrow> (auth_db, 'x auth_proc_ext, bool) dbm" where
  "verifyDummyPassword c salt =
     bindM (getsM dummyHash) (\<lambda>h.
     bindM (if h = None \<or> h = Some [] then initDummyHash c salt else retM ()) (\<lambda>_.
     bindM (getsM dummyHash) (\<lambda>h.
     case argon2_verify c (the h) ''does-not-matter'' of Inl e \<Rightarrow> throwM e | Inr b \<Rightarrow> retM False)))"

subsection \<open>UsersRepository\<close>

text \<open>\<open>s.toLowerCase()\<close> on ASCII text, which is what \<open>z.string().email()\<close> lets through.\<close>

definition lower_char :: "char \<Rightarrow> char" where
  "lower_char ch = (let n = of_char ch :: nat in if 65 \<le> n \<and> n \<le> 90 then char_of (n + 32) else ch)"

definition toLowerCase :: "string \<Rightarrow> string" where
  "toLowerCase s = map lower_char s"

lemma toLowerCase_ex: "toLowerCase ''Ann.B@X.org'' = ''ann.b@x.org''"
  by code_simp

lemma lower_char_idem: "lower_char (lower_char ch) = lower_char ch"
  by (auto simp: lower_char_def Let_def)

lemma toLowerCase_idem [simp]: "toLowerCase (toLowerCase s) = toLowerCase s"
  by (simp add: toLowerCase_def lower_char_idem)

definition findByEmail :: "string \<Rightarrow> (auth_db, 'x, user_row option) dbm" where
  "findByEmail email = query (select_user_by_email (toLowerCase email))"

definition findById :: "uuid \<Rightarrow> (auth_db, 'x, user_row option) dbm" where
  "findById i = query (select_user_by_id i)"

definition createUser :: "crypto \<Rightarrow> string \<Rightarrow> uuid \<Rightarrow> string \<Rightarrow> string \<Rightarrow> (auth_db, 'x, user_row) dbm" where
  "createUser c salt newId email password =
     bindM (liftM (hashPassword c salt password)) (\<lambda>hash. query (insert_user newId (toLowerCase email) hash))"

definition bumpTokenVersion :: "uuid \<Rightarrow> (auth_db, 'x, unit) dbm" where
  "bumpTokenVersion i = query (bump_version i)"

subsection \<open>AuditService\<close>

definition record_audit :: "uuid option \<Rightarrow> string \<Rightarrow> json \<Rightarrow> (auth_db, 'x, unit) dbm" where
  "record_audit userId action meta = query (insert_audit userId action meta)"

subsection \<open>SessionsRepository\<close>

text \<open>What an issue draws: the 48 random bytes in base64url, the row's id, the family and the two
  readings of the clock (the second is used by \<open>rotate\<close> only).\<close>

record rt_fresh =
  rf_raw :: string
  rf_id :: uuid
  rf_family :: uuid
  rf_now1 :: instant
  rf_now2 :: instant

definition issueNewFamily :: "crypto \<Rightarrow> auth_env \<Rightarrow> rt_fresh \<Rightarrow> uuid \<Rightarrow> (auth_db, 'x, string \<times> rt_row) dbm" where
  "issueNewFamily c env fr userId =
     (let raw = rf_raw fr; hash = sha256 c raw; expiresAt = rf_now1 fr + RT_TTL_SECONDS env * 1000 in
      bindM (query (insert_token (rf_id fr) userId (rf_family fr) hash expiresAt)) (\<lambda>row. retM (raw, row)))"

definition findByRaw :: "crypto \<Rightarrow> string \<Rightarrow> (auth_db, 'x, rt_row option) dbm" where
  "findByRaw c raw = (let hash = sha256 c raw in query (select_token_by_hash hash))"

definition rotate :: "crypto \<Rightarrow> auth_env \<Rightarrow> rt_fresh \<Rightarrow> rt_row \<Rightarrow> (auth_db, 'x, string \<times> rt_row) dbm" where
  "rotate c env fr oldRow =
     (let raw = rf_raw fr; hash = sha256 c raw;
          expiresAt = rf_now1 fr + RT_TTL_SECONDS env * 1000;
          graceUntil = rf_now2 fr + RT_GRACE_SECONDS env * 1000 in
      with_conn (rolling_back
        (bindM begin_tx (\<lambda>_.
         bindM (query (select_token_by_id (t_id oldRow))) (\<lambda>locked.
         case locked of
           None \<Rightarrow> bindM rollback_tx (\<lambda>_. throwM (Js_Error ''rt_not_found''))
         | Some current \<Rightarrow>
             bindM (query (insert_token (rf_id fr) (t_user_id current) (t_family_id current) hash expiresAt)) (\<lambda>newRow.
             bindM (query (rotate_old (t_id newRow) graceUntil (t_id current))) (\<lambda>_.
             bindM commit_tx (\<lambda>_. retM (raw, newRow)))))))))"

definition revoke :: "uuid \<Rightarrow> (auth_db, 'x, unit) dbm" where
  "revoke i = query (revoke_by_id i)"

definition revokeFamily :: "uuid \<Rightarrow> (auth_db, 'x, unit) dbm" where
  "revokeFamily family = query (revoke_family family)"

definition revokeAllForUser :: "uuid \<Rightarrow> (auth_db, 'x, unit) dbm" where
  "revokeAllForUser userId = query (revoke_user userId)"

subsection \<open>rotate as one statement\<close>

lemma wp_option:
  assumes "v = None \<Longrightarrow> wp op Q E s" and "\<And>x. v = Some x \<Longrightarrow> wp (f x) Q E s"
  shows "wp (case v of None \<Rightarrow> op | Some x \<Rightarrow> f x) Q E s"
  using assms by (cases v) simp_all

definition rotate_spec :: "crypto \<Rightarrow> auth_env \<Rightarrow> rt_fresh \<Rightarrow> uuid \<Rightarrow> (auth_db, string \<times> rt_row) stmt" where
  "rotate_spec c env fr oldId now d =
     (case find (\<lambda>t. t_id t = oldId) (tokens d) of
        None \<Rightarrow> Inl (Js_Error ''rt_not_found'')
      | Some current \<Rightarrow>
          (case insert_token (rf_id fr) (t_user_id current) (t_family_id current) (sha256 c (rf_raw fr))
                  (rf_now1 fr + RT_TTL_SECONDS env * 1000) now d of
             Inl e \<Rightarrow> Inl e
           | Inr (row, d1) \<Rightarrow>
               Inr ((rf_raw fr, row),
                 d1\<lparr>tokens := upd_where (\<lambda>t. t_id t = oldId)
                   (rotated_row (t_id row) (rf_now2 fr + RT_GRACE_SECONDS env * 1000) now) (tokens d1)\<rparr>)))"

lemma rotate_atomic_lemma:
  "idle G d n m s \<Longrightarrow> wp (rotate c env fr oldRow) (atomic_ok G (rotate_spec c env fr (t_id oldRow)) d n m)
    (atomic_err G (rotate_spec c env fr (t_id oldRow)) d n m) s"
  unfolding rotate_def Let_def with_conn_def rolling_back_def wp_simps
  by ((rule tx_steps, assumption)
      | (rule wp_option)
      | (simp only: wp_simps)
      | (rule tx_ends, assumption+)
      | (force simp: rotate_spec_def select_token_by_id_def rotate_old_def dest: find_SomeD))+

interpretation rotation: atomic_op "rotate c env fr oldRow" "rotate_spec c env fr (t_id oldRow)" for c env fr oldRow
  by unfold_locales (rule rotate_atomic_lemma)

end
