(* ===== verification/Auth.thy ===== *)
theory Auth
  imports Sessions
begin

text \<open>
  The auth service's API (apps/auth/src/auth/auth.controller.ts, jwt.service.ts): register, login,
  refresh with rotation and reuse detection, logout and logout-all, on the process state of
  Sessions. jsonwebtoken and Zod's \<open>.email()\<close> are parameters.
\<close>

subsection \<open>JwtService\<close>

record access_claims =
  jc_sub :: uuid
  jc_email :: string
  jc_tv :: nat
  jc_iat :: int
  jc_exp :: int

text \<open>
  \<open>jwt_sign now sub email tv secret expiresIn\<close> is \<open>jwt.sign\<close> with HS256 at the clock's \<open>now\<close>;
  \<open>jwt_verify now token secret\<close> is \<open>jwt.verify\<close>, which throws on anything it does not accept.
\<close>

record jwt_lib =
  jwt_sign :: "instant \<Rightarrow> uuid \<Rightarrow> string \<Rightarrow> nat \<Rightarrow> string \<Rightarrow> int \<Rightarrow> string"
  jwt_verify :: "instant \<Rightarrow> string \<Rightarrow> string \<Rightarrow> exn + access_claims"

text \<open>jsonwebtoken's documented behaviour with a secret that is not empty: \<open>iat\<close> is the second of signing, \<open>exp\<close> is \<open>expiresIn\<close> later, and a
  token verifies under its own secret before \<open>exp\<close> and not after. A token has no white space.\<close>

definition jwt_documented :: "jwt_lib \<Rightarrow> bool" where
  "jwt_documented j \<longleftrightarrow>
     (\<forall>now sub email tv secret ttl now'.
        secret \<noteq> [] \<longrightarrow>
        (now' div 1000 < now div 1000 + ttl \<longrightarrow>
           jwt_verify j now' (jwt_sign j now sub email tv secret ttl) secret =
             Inr \<lparr>jc_sub = sub, jc_email = email, jc_tv = tv, jc_iat = now div 1000,
                  jc_exp = now div 1000 + ttl\<rparr>) \<and>
        (now div 1000 + ttl \<le> now' div 1000 \<longrightarrow>
           (\<exists>e. jwt_verify j now' (jwt_sign j now sub email tv secret ttl) secret = Inl e)) \<and>
        (\<forall>ch \<in> set (jwt_sign j now sub email tv secret ttl). (of_char ch :: nat) \<notin> {9..13} \<union> {32, 160}))"

definition signAccessToken :: "jwt_lib \<Rightarrow> auth_env \<Rightarrow> instant \<Rightarrow> uuid \<Rightarrow> string \<Rightarrow> nat \<Rightarrow> string" where
  "signAccessToken j env now userId email tokenVersion =
     jwt_sign j now userId email tokenVersion (JWT_SECRET env) (JWT_AT_TTL_SECONDS env)"

definition verifyAccessToken :: "jwt_lib \<Rightarrow> auth_env \<Rightarrow> instant \<Rightarrow> string \<Rightarrow> exn + access_claims" where
  "verifyAccessToken j env now token = jwt_verify j now token (JWT_SECRET env)"

subsection \<open>Requests\<close>

record credentials =
  cr_email :: string
  cr_password :: string

definition LoginDto :: "(string \<Rightarrow> bool) \<Rightarrow> json \<Rightarrow> credentials option" where
  "LoginDto z_email body =
     do { e \<leftarrow> str_field z_email ''email'' body;
          p \<leftarrow> str_field (\<lambda>s. 1 \<le> length s) ''password'' body;
          Some \<lparr>cr_email = e, cr_password = p\<rparr> }"

definition RegisterDto :: "(string \<Rightarrow> bool) \<Rightarrow> json \<Rightarrow> credentials option" where
  "RegisterDto z_email body =
     do { e \<leftarrow> str_field z_email ''email'' body;
          p \<leftarrow> str_field (\<lambda>s. 8 \<le> length s \<and> length s \<le> 128) ''password'' body;
          Some \<lparr>cr_email = e, cr_password = p\<rparr> }"

text \<open>What a handler reads of its request: the x-request-id header, the refresh cookie, \<open>req.ip\<close>.\<close>

record auth_req =
  rq_requestId :: "string option"
  rq_cookie :: "string option"
  rq_ip :: "string option"

text \<open>The libraries, and what a handler draws from outside: random values and clock readings.\<close>

record auth_ext =
  x_crypto :: crypto
  x_jwt :: jwt_lib
  x_email :: "string \<Rightarrow> bool"

record auth_fresh =
  af_trace :: uuid
  af_userId :: uuid
  af_salt :: string
  af_rt :: rt_fresh
  af_now :: instant
  af_signed :: instant

record token_response =
  tr_accessToken :: string
  tr_userId :: uuid

subsection \<open>Cookies, counters and audit entries\<close>

definition setRtCookie :: "auth_env \<Rightarrow> string \<Rightarrow> (auth_db, 'x auth_proc_ext, unit) dbm" where
  "setRtCookie env raw =
     modifyM (\<lambda>s. s\<lparr>cookies := cookies s @ [Set_Cookie raw (RT_TTL_SECONDS env * 1000) (NODE_ENV env = ''production'')]\<rparr>)"

definition clearRtCookie :: "auth_env \<Rightarrow> (auth_db, 'x auth_proc_ext, unit) dbm" where
  "clearRtCookie env = modifyM (\<lambda>s. s\<lparr>cookies := cookies s @ [Clear_Cookie (NODE_ENV env = ''production'')]\<rparr>)"

definition inc_login_success :: "(auth_db, 'x auth_proc_ext, unit) dbm" where
  "inc_login_success = modifyM (\<lambda>s. s\<lparr>loginSuccessTotal := Suc (loginSuccessTotal s)\<rparr>)"

definition inc_login_fail :: "(auth_db, 'x auth_proc_ext, unit) dbm" where
  "inc_login_fail = modifyM (\<lambda>s. s\<lparr>loginFailTotal := Suc (loginFailTotal s)\<rparr>)"

definition inc_refresh :: "(auth_db, 'x auth_proc_ext, unit) dbm" where
  "inc_refresh = modifyM (\<lambda>s. s\<lparr>refreshTotal := Suc (refreshTotal s)\<rparr>)"

definition inc_reuse :: "(auth_db, 'x auth_proc_ext, unit) dbm" where
  "inc_reuse = modifyM (\<lambda>s. s\<lparr>reuseDetectedTotal := Suc (reuseDetectedTotal s)\<rparr>)"

text \<open>\<open>JSON.stringify\<close> leaves out a field whose value is undefined.\<close>

definition login_meta :: "uuid \<Rightarrow> string option \<Rightarrow> bool \<Rightarrow> json" where
  "login_meta traceId ip ok =
     JObj ([(''traceId'', JStr traceId)] @ (case ip of None \<Rightarrow> [] | Some a \<Rightarrow> [(''ip'', JStr a)]) @
       [(''ok'', JBool ok)])"

definition trace_meta :: "uuid \<Rightarrow> (string \<times> json) list \<Rightarrow> json" where
  "trace_meta traceId extra = JObj ((''traceId'', JStr traceId) # extra)"

subsection \<open>The handlers\<close>

definition register ::
    "auth_ext \<Rightarrow> auth_fresh \<Rightarrow> auth_req \<Rightarrow> json \<Rightarrow> (auth_db, 'x, uuid) dbm" where
  "register x fr req body =
     (case RegisterDto (x_email x) body of
        None \<Rightarrow> throwM Zod_Error
      | Some dto \<Rightarrow>
          let traceId = resolveTraceId (rq_requestId req) (af_trace fr) in
          try_catch
            (bindM (createUser (x_crypto x) (af_salt fr) (af_userId fr) (cr_email dto) (cr_password dto)) (\<lambda>user.
             bindM (record_audit (Some (u_id user)) ''register'' (trace_meta traceId [])) (\<lambda>_.
             retM (u_id user))))
            (\<lambda>e. if is_unique_violation e then throwM (Http_Error 400 ''email_already_registered'')
                  else throwM e))"

definition login ::
    "auth_ext \<Rightarrow> auth_env \<Rightarrow> auth_fresh \<Rightarrow> auth_req \<Rightarrow> json \<Rightarrow>
     (auth_db, 'x auth_proc_ext, token_response) dbm" where
  "login x env fr req body =
     (case LoginDto (x_email x) body of
        None \<Rightarrow> throwM Zod_Error
      | Some dto \<Rightarrow>
          let traceId = resolveTraceId (rq_requestId req) (af_trace fr); ip = rq_ip req in
          bindM (findByEmail (cr_email dto)) (\<lambda>found.
          bindM (case found of
                   Some u \<Rightarrow> retM (verifyPassword (x_crypto x) (u_password_hash u) (cr_password dto))
                 | None \<Rightarrow> verifyDummyPassword (x_crypto x) (af_salt fr)) (\<lambda>ok.
          case (if ok then found else None) of
            None \<Rightarrow>
              bindM inc_login_fail (\<lambda>_.
              bindM (record_audit (map_option u_id found) ''login'' (login_meta traceId ip False)) (\<lambda>_.
              throwM (Http_Error 401 ''invalid_credentials'')))
          | Some user \<Rightarrow>
              bindM (issueNewFamily (x_crypto x) env (af_rt fr) (u_id user)) (\<lambda>issued.
              let at = signAccessToken (x_jwt x) env (af_signed fr) (u_id user) (u_email user)
                         (u_token_version user) in
              bindM (setRtCookie env (fst issued)) (\<lambda>_.
              bindM (record_audit (Some (u_id user)) ''login'' (login_meta traceId ip True)) (\<lambda>_.
              bindM inc_login_success (\<lambda>_.
              retM \<lparr>tr_accessToken = at, tr_userId = u_id user\<rparr>)))))))"

text \<open>\<open>if (!rawRt)\<close>: no cookie or an empty one.\<close>

definition raw_cookie :: "auth_req \<Rightarrow> string option" where
  "raw_cookie req = (case rq_cookie req of Some r \<Rightarrow> if r = [] then None else Some r | None \<Rightarrow> None)"

text \<open>The three branches of refresh, once the token's row is found and has not expired.\<close>

definition refresh_active ::
    "auth_ext \<Rightarrow> auth_env \<Rightarrow> auth_fresh \<Rightarrow> uuid \<Rightarrow> rt_row \<Rightarrow>
     (auth_db, 'x auth_proc_ext, token_response) dbm" where
  "refresh_active x env fr traceId row =
     bindM (findById (t_user_id row)) (\<lambda>found.
     case found of
       None \<Rightarrow> throwM (Http_Error 401 ''user_not_found'')
     | Some user \<Rightarrow>
         bindM (rotate (x_crypto x) env (af_rt fr) row) (\<lambda>rotated.
         let at = signAccessToken (x_jwt x) env (af_signed fr) (u_id user) (u_email user)
                    (u_token_version user) in
         bindM (setRtCookie env (fst rotated)) (\<lambda>_.
         bindM (record_audit (Some (u_id user)) ''refresh'' (trace_meta traceId [])) (\<lambda>_.
         bindM inc_refresh (\<lambda>_.
         retM \<lparr>tr_accessToken = at, tr_userId = u_id user\<rparr>)))))"

definition refresh_grace ::
    "auth_ext \<Rightarrow> auth_env \<Rightarrow> auth_fresh \<Rightarrow> uuid \<Rightarrow> rt_row \<Rightarrow>
     (auth_db, 'x auth_proc_ext, token_response) dbm" where
  "refresh_grace x env fr traceId row =
     bindM (findById (t_user_id row)) (\<lambda>found.
     case found of
       None \<Rightarrow> throwM (Http_Error 401 ''user_not_found'')
     | Some user \<Rightarrow>
         let at = signAccessToken (x_jwt x) env (af_signed fr) (u_id user) (u_email user)
                    (u_token_version user) in
         bindM (record_audit (Some (u_id user)) ''refresh'' (trace_meta traceId [(''grace'', JBool True)])) (\<lambda>_.
         retM \<lparr>tr_accessToken = at, tr_userId = u_id user\<rparr>))"

definition refresh_reuse ::
    "auth_env \<Rightarrow> uuid \<Rightarrow> rt_row \<Rightarrow> (auth_db, 'x auth_proc_ext, token_response) dbm" where
  "refresh_reuse env traceId row =
     bindM (revokeFamily (t_family_id row)) (\<lambda>_.
     bindM (record_audit (Some (t_user_id row)) ''session_revoke''
              (trace_meta traceId [(''reason'', JStr ''reuse_detected'')])) (\<lambda>_.
     bindM inc_reuse (\<lambda>_.
     bindM (clearRtCookie env) (\<lambda>_.
     throwM (Http_Error 401 ''reuse_detected'')))))"

definition in_grace :: "instant \<Rightarrow> rt_row \<Rightarrow> bool" where
  "in_grace now row \<longleftrightarrow> (case t_grace_until row of None \<Rightarrow> False | Some g \<Rightarrow> now \<le> g)"

definition refresh ::
    "auth_ext \<Rightarrow> auth_env \<Rightarrow> auth_fresh \<Rightarrow> auth_req \<Rightarrow> (auth_db, 'x auth_proc_ext, token_response) dbm" where
  "refresh x env fr req =
     (let traceId = resolveTraceId (rq_requestId req) (af_trace fr) in
      case raw_cookie req of
        None \<Rightarrow> throwM (Http_Error 401 ''no_refresh_token'')
      | Some rawRt \<Rightarrow>
          bindM (findByRaw (x_crypto x) rawRt) (\<lambda>found.
          case found of
            None \<Rightarrow> throwM (Http_Error 401 ''invalid_refresh_token'')
          | Some row \<Rightarrow>
              let now = af_now fr in
              if t_expires_at row \<le> now then throwM (Http_Error 401 ''expired_refresh_token'')
              else if active row then refresh_active x env fr traceId row
              else if in_grace now row then refresh_grace x env fr traceId row
              else refresh_reuse env traceId row))"

definition logout ::
    "auth_ext \<Rightarrow> auth_env \<Rightarrow> auth_fresh \<Rightarrow> auth_req \<Rightarrow> (auth_db, 'x auth_proc_ext, unit) dbm" where
  "logout x env fr req =
     (let traceId = resolveTraceId (rq_requestId req) (af_trace fr) in
      bindM (case raw_cookie req of
               None \<Rightarrow> retM ()
             | Some rawRt \<Rightarrow>
                 bindM (findByRaw (x_crypto x) rawRt) (\<lambda>found.
                 case found of
                   None \<Rightarrow> retM ()
                 | Some row \<Rightarrow>
                     bindM (revoke (t_id row)) (\<lambda>_.
                     bindM (bumpTokenVersion (t_user_id row)) (\<lambda>_.
                     record_audit (Some (t_user_id row)) ''logout'' (trace_meta traceId [])))))
        (\<lambda>_. clearRtCookie env))"

definition logoutAll ::
    "auth_ext \<Rightarrow> auth_env \<Rightarrow> auth_fresh \<Rightarrow> auth_req \<Rightarrow> (auth_db, 'x auth_proc_ext, unit) dbm" where
  "logoutAll x env fr req =
     (let traceId = resolveTraceId (rq_requestId req) (af_trace fr) in
      bindM (case raw_cookie req of
               None \<Rightarrow> retM ()
             | Some rawRt \<Rightarrow>
                 bindM (findByRaw (x_crypto x) rawRt) (\<lambda>found.
                 case found of
                   None \<Rightarrow> retM ()
                 | Some row \<Rightarrow>
                     bindM (revokeAllForUser (t_user_id row)) (\<lambda>_.
                     bindM (bumpTokenVersion (t_user_id row)) (\<lambda>_.
                     record_audit (Some (t_user_id row)) ''logout_all'' (trace_meta traceId [])))))
        (\<lambda>_. clearRtCookie env))"

end
