(* ===== verification/Guards.thy ===== *)
theory Guards
  imports Auth Psp
begin

text \<open>
  What stands before the handlers: JwtAuthGuard (common/jwt-auth.guard.ts of the seat and payment
  services), RateLimitGuard (common/rate-limit.guard.ts, the same code in the three services) with
  the Redis commands it sends, and ZodPipe (common/zod.pipe.ts of the auth service).
\<close>

subsection \<open>JwtAuthGuard\<close>

record auth_user =
  au_userId :: uuid
  au_email :: string
  au_tokenVersion :: nat
  au_traceId :: string

text \<open>The request's authorization and x-request-id headers; the answer is \<open>req.user\<close>, or the 401.\<close>

definition jwt_canActivate ::
    "jwt_lib \<Rightarrow> string \<Rightarrow> instant \<Rightarrow> string option \<Rightarrow> string option \<Rightarrow> exn + auth_user" where
  "jwt_canActivate j secret now authorization requestId =
     (case authorization of
        None \<Rightarrow> Inl (Http_Error 401 ''missing_token'')
      | Some auth \<Rightarrow>
          if auth = [] \<or> \<not> starts_with ''Bearer '' auth then Inl (Http_Error 401 ''missing_token'')
          else
            let token = trim (drop (length ''Bearer '') auth) in
            case jwt_verify j now token secret of
              Inl e \<Rightarrow> Inl (Http_Error 401 ''invalid_token'')
            | Inr claims \<Rightarrow>
                Inr \<lparr>au_userId = jc_sub claims, au_email = jc_email claims, au_tokenVersion = jc_tv claims,
                     au_traceId = (case requestId of None \<Rightarrow> [] | Some r \<Rightarrow> r)\<rparr>)"

text \<open>The payment service's guard is the same code.\<close>

definition payment_jwt_canActivate ::
    "jwt_lib \<Rightarrow> string \<Rightarrow> instant \<Rightarrow> string option \<Rightarrow> string option \<Rightarrow> exn + auth_user" where
  "payment_jwt_canActivate = jwt_canActivate"

subsection \<open>Redis\<close>

text \<open>
  The store as the guard's transaction uses it: a sorted set per key (members with their scores) and
  the time at which a key expires. A command sent at \<open>now\<close> to an expired key finds it empty.
\<close>

type_synonym zset = "(string \<times> int) list"

record redis =
  zsets :: "string \<Rightarrow> zset"
  expires :: "string \<Rightarrow> instant option"

definition zget :: "instant \<Rightarrow> string \<Rightarrow> redis \<Rightarrow> zset" where
  "zget now key r = (case expires r key of Some t \<Rightarrow> if t \<le> now then [] else zsets r key | None \<Rightarrow> zsets r key)"

definition zremrangebyscore :: "int \<Rightarrow> int \<Rightarrow> zset \<Rightarrow> zset" where
  "zremrangebyscore lo hi z = filter (\<lambda>(m, sc). \<not> (lo \<le> sc \<and> sc \<le> hi)) z"

definition zadd :: "int \<Rightarrow> string \<Rightarrow> zset \<Rightarrow> zset" where
  "zadd sc m z =
     (if m \<in> fst ` set z then map (\<lambda>(m', sc'). if m' = m then (m', sc) else (m', sc')) z else z @ [(m, sc)])"

definition zcount :: "int \<Rightarrow> int \<Rightarrow> zset \<Rightarrow> nat" where
  "zcount lo hi z = length (filter (\<lambda>(m, sc). lo \<le> sc \<and> sc \<le> hi) z)"

subsection \<open>RateLimitGuard\<close>

record rl_config =
  rl_name :: string
  rl_windowMs :: int
  rl_max :: int

text \<open>What the guard reads of a request: x-forwarded-for, \<open>req.ip\<close>, the clock and \<open>Math.random()\<close>.\<close>

record rl_request =
  rq_forwarded :: "string option"
  rq_addr :: "string option"
  rq_now :: instant
  rq_random :: string

record rl_response =
  rs_allowed :: bool
  rs_limit :: string
  rs_remaining :: string
  rs_retryAfter :: "string option"

definition client_ip :: "rl_request \<Rightarrow> string" where
  "client_ip q =
     (case rq_forwarded q of
        Some h \<Rightarrow> trim (hd (split_on (CHR '','') h))
      | None \<Rightarrow> (case rq_addr q of Some a \<Rightarrow> a | None \<Rightarrow> ''unknown''))"

definition rate_key :: "rl_config \<Rightarrow> rl_request \<Rightarrow> string" where
  "rate_key cfg q = ''rl:'' @ rl_name cfg @ '':'' @ client_ip q"

definition rate_member :: "rl_request \<Rightarrow> string" where
  "rate_member q = int_string (rq_now q) @ '':'' @ rq_random q"

text \<open>The MULTI transaction; its third reply is the count.\<close>

definition rate_window :: "rl_config \<Rightarrow> rl_request \<Rightarrow> redis \<Rightarrow> nat \<times> redis" where
  "rate_window cfg q r =
     (let key = rate_key cfg q; now = rq_now q; windowStart = now - rl_windowMs cfg;
          z1 = zremrangebyscore 0 windowStart (zget now key r);
          z2 = zadd now (rate_member q) z1
      in (zcount windowStart now z2,
          r\<lparr>zsets := (zsets r)(key := z2), expires := (expires r)(key := Some (now + rl_windowMs cfg))\<rparr>))"

definition retry_seconds :: "int \<Rightarrow> int" where
  "retry_seconds ms = - ((- ms) div 1000)"

text \<open>\<open>exec_replies\<close> is false when \<open>exec()\<close> answers null or its third reply is an error: the count is
  then 0. The configuration is that of the handler's decorator, None where there is none.\<close>

definition rate_limit ::
    "rl_config option \<Rightarrow> bool \<Rightarrow> rl_request \<Rightarrow> redis \<Rightarrow> rl_response option \<times> redis" where
  "rate_limit config exec_replies q r =
     (case config of
        None \<Rightarrow> (None, r)
      | Some cfg \<Rightarrow>
          let (count, r') = (if exec_replies then rate_window cfg q r else (0, r)) in
          (Some \<lparr>rs_allowed = int count \<le> rl_max cfg, rs_limit = int_string (rl_max cfg),
             rs_remaining = int_string (max 0 (rl_max cfg - int count)),
             rs_retryAfter =
               (if rl_max cfg < int count then Some (int_string (retry_seconds (rl_windowMs cfg))) else None)\<rparr>, r'))"

definition auth_rate_limit ::
    "rl_config option \<Rightarrow> bool \<Rightarrow> rl_request \<Rightarrow> redis \<Rightarrow> rl_response option \<times> redis" where
  "auth_rate_limit = rate_limit"

definition payment_rate_limit ::
    "rl_config option \<Rightarrow> bool \<Rightarrow> rl_request \<Rightarrow> redis \<Rightarrow> rl_response option \<times> redis" where
  "payment_rate_limit = rate_limit"

text \<open>A sequence of requests to one handler, with a store that answers: which of them pass.\<close>

fun rate_run :: "rl_config \<Rightarrow> rl_request list \<Rightarrow> redis \<Rightarrow> bool list \<times> redis" where
  "rate_run cfg [] r = ([], r)"
| "rate_run cfg (q # qs) r =
     (case rate_limit (Some cfg) True q r of (resp, r1) \<Rightarrow>
        (case rate_run cfg qs r1 of (bs, r2) \<Rightarrow> (rs_allowed (the resp) # bs, r2)))"

subsection \<open>ZodPipe\<close>

definition zod_pipe :: "(json \<Rightarrow> 'a option) \<Rightarrow> json \<Rightarrow> exn + 'a" where
  "zod_pipe schema value =
     (case schema value of None \<Rightarrow> Inl (Http_Error 400 ''validation_failed'') | Some v \<Rightarrow> Inr v)"

subsection \<open>The sliding window\<close>

text \<open>The requests of the last window, on a history of requests.\<close>

definition recent :: "int \<Rightarrow> instant \<Rightarrow> rl_request list \<Rightarrow> rl_request list" where
  "recent w now qs = filter (\<lambda>q. now - w < rq_now q) qs"

abbreviation entry :: "rl_request \<Rightarrow> string \<times> int" where
  "entry q \<equiv> (rate_member q, rq_now q)"

definition window_ok :: "rl_config \<Rightarrow> string \<Rightarrow> rl_request list \<Rightarrow> redis \<Rightarrow> bool" where
  "window_ok cfg key hist r \<longleftrightarrow>
     (if hist = [] then zsets r key = []
      else zsets r key = map entry (recent (rl_windowMs cfg) (rq_now (last hist)) hist) \<and>
           expires r key = Some (rq_now (last hist) + rl_windowMs cfg))"

lemma recent_all_old: "(\<And>q. q \<in> set hist \<Longrightarrow> rq_now q \<le> now - w) \<Longrightarrow> recent w now hist = []"
  by (force simp: recent_def filter_empty_conv)

lemma zget_window:
  assumes "window_ok cfg key hist r" and "\<forall>h \<in> set hist. 0 \<le> rq_now h \<and> rq_now h \<le> now"
    and "\<forall>h \<in> set hist. rq_now h \<le> rq_now (last hist)"
  shows "zremrangebyscore 0 (now - rl_windowMs cfg) (zget now key r) = map entry (recent (rl_windowMs cfg) now hist)"
proof (cases "hist = []")
  case True
  then show ?thesis using assms(1)
    by (simp add: window_ok_def zget_def zremrangebyscore_def recent_def split: option.split)
next
  case False
  let ?w = "rl_windowMs cfg" and ?l = "rq_now (last hist)"
  have z: "zsets r key = map entry (recent ?w ?l hist)" "expires r key = Some (?l + ?w)"
    using assms(1) False by (simp_all add: window_ok_def)
  have l: "?l \<le> now" using assms(2) False by simp
  show ?thesis
  proof (cases "?l + ?w \<le> now")
    case True
    then have "recent ?w now hist = []" using assms(3) by (intro recent_all_old) force
    then show ?thesis using True z by (simp add: zget_def zremrangebyscore_def)
  next
    case False
    have "filter ((\<lambda>(m, sc). \<not> (0 \<le> sc \<and> sc \<le> now - ?w)) \<circ> entry) (recent ?w ?l hist) = recent ?w now hist"
      unfolding recent_def filter_filter using assms(2) l by (intro filter_cong) (auto simp: comp_def)
    then show ?thesis using False z by (simp add: zget_def zremrangebyscore_def filter_map)
  qed
qed

lemma rate_window_step:
  assumes "window_ok cfg (rate_key cfg q) hist r" and "0 < rl_windowMs cfg"
    and "\<forall>h \<in> set hist. 0 \<le> rq_now h \<and> rq_now h \<le> rq_now q \<and> rq_now h \<le> rq_now (last hist)"
    and "rate_member q \<notin> rate_member ` set hist"
    and "rate_window cfg q r = (n, r')"
  shows "n = length (recent (rl_windowMs cfg) (rq_now q) (hist @ [q])) \<and> window_ok cfg (rate_key cfg q) (hist @ [q]) r'"
proof -
  let ?w = "rl_windowMs cfg" and ?now = "rq_now q"
  let ?z = "map entry (recent ?w ?now hist)"
  have z1: "zremrangebyscore 0 (?now - ?w) (zget ?now (rate_key cfg q) r) = ?z"
    using zget_window [OF assms(1)] assms(3) by blast
  have "rate_member q \<notin> fst ` set ?z" using assms(4) by (auto simp: recent_def)
  then have z2: "zadd ?now (rate_member q) ?z = map entry (recent ?w ?now (hist @ [q]))"
    using assms(2) by (simp add: zadd_def recent_def)
  have "zcount (?now - ?w) ?now (map entry (recent ?w ?now (hist @ [q]))) = length (recent ?w ?now (hist @ [q]))"
  proof -
    have "filter ((\<lambda>(m, sc). ?now - ?w \<le> sc \<and> sc \<le> ?now) \<circ> entry) (recent ?w ?now (hist @ [q])) = recent ?w ?now (hist @ [q])"
      using assms(3) by (intro filter_True) (auto simp: recent_def)
    then show ?thesis by (simp add: zcount_def filter_map)
  qed
  then show ?thesis
    using assms(5) by (auto simp: rate_window_def Let_def z1 z2 window_ok_def)
qed

text \<open>A later request of the history is never earlier than the ones before.\<close>

definition in_order :: "rl_request list \<Rightarrow> bool" where
  "in_order qs \<longleftrightarrow> sorted (map rq_now qs) \<and> (\<forall>q \<in> set qs. 0 \<le> rq_now q) \<and> distinct (map rate_member qs)"

lemma rate_run_window:
  assumes "window_ok cfg key hist r" and "0 < rl_windowMs cfg" and "in_order (hist @ qs)"
    and "\<forall>q \<in> set qs. rate_key cfg q = key"
  shows "fst (rate_run cfg qs r) =
    map (\<lambda>i. int (length (recent (rl_windowMs cfg) (rq_now (qs ! i)) (hist @ take (Suc i) qs))) \<le> rl_max cfg) [0..<length qs]"
  using assms
proof (induction qs arbitrary: hist r)
  case (Cons q qs)
  obtain n r1 where w: "rate_window cfg q r = (n, r1)" by fastforce
  have "\<forall>h \<in> set hist. 0 \<le> rq_now h \<and> rq_now h \<le> rq_now q \<and> rq_now h \<le> rq_now (last hist)"
    and "rate_member q \<notin> rate_member ` set hist"
  proof -
    have "rq_now h \<le> rq_now (last hist)" if "h \<in> set hist" for h
    proof -
      have "hist \<noteq> []" using that by auto
      then obtain xs x where "hist = xs @ [x]" by (metis rev_exhaust)
      then show ?thesis using Cons.prems(3) that by (auto simp: in_order_def sorted_append)
    qed
    then show "\<forall>h \<in> set hist. 0 \<le> rq_now h \<and> rq_now h \<le> rq_now q \<and> rq_now h \<le> rq_now (last hist)"
      using Cons.prems(3) by (auto simp: in_order_def sorted_append)
    show "rate_member q \<notin> rate_member ` set hist" using Cons.prems(3) by (auto simp: in_order_def)
  qed
  from rate_window_step [OF _ Cons.prems(2) this w] Cons.prems(1,4)
  have n: "n = length (recent (rl_windowMs cfg) (rq_now q) (hist @ [q]))" "window_ok cfg key (hist @ [q]) r1"
    by auto
  have "fst (rate_run cfg qs r1) = map (\<lambda>i. int (length (recent (rl_windowMs cfg) (rq_now (qs ! i))
      ((hist @ [q]) @ take (Suc i) qs))) \<le> rl_max cfg) [0..<length qs]"
    by (rule Cons.IH [OF n(2) Cons.prems(2)]) (use Cons.prems(3,4) in auto)
  then show ?case
    using n(1) by (cases "rate_run cfg qs r1") (simp add: rate_limit_def w Let_def upt_conv_Cons map_Suc_upt [symmetric] comp_def
      del: upt_Suc split: prod.split)
qed simp

end
