(* ===== verification/Auth_Machine.thy ===== *)
theory Auth_Machine
  imports Auth
begin

text \<open>
  The auth service as a state machine: a step is a register, login, refresh, logout or logout-all
  request, run to its end on a connection whose calls may fail at any point while other replicas
  commit; every step moves the database along \<open>auth_rel\<close>. Then the life of a refresh token: what
  was revoked stays revoked, and what a token's successor is.
\<close>

subsection \<open>The methods\<close>

definition auth_sessions :: "auth_db environment" where
  "auth_sessions = \<lparr>rel = auth_rel, faulty = True\<rparr>"

lemma auth_sessions_sel [simp]: "rel auth_sessions = auth_rel" "faulty auth_sessions"
  by (simp_all add: auth_sessions_def)

lemma auth_rel_select:
  "select_user_by_email email now d = Inr (u, d') \<Longrightarrow> auth_rel d d'"
  "select_user_by_id i now d = Inr (u, d') \<Longrightarrow> auth_rel d d'"
  "select_token_by_hash h now d = Inr (t, d') \<Longrightarrow> auth_rel d d'"
  by (auto simp: auth_stmt_defs)

text \<open>The second half of \<open>rotate\<close>: a revocation that also links the row to its successor.\<close>

lemma auth_rel_link:
  assumes "n \<in> t_id ` set (tokens d)"
    and "\<And>t. t \<in> set (tokens d) \<Longrightarrow> t_id t = i \<Longrightarrow> successor (tokens d) n t"
    and "d' = d\<lparr>tokens := upd_where (\<lambda>t. t_id t = i) (rotated_row n g now) (tokens d)\<rparr>"
  shows "auth_rel d d'"
proof -
  let ?P = "\<lambda>t. t_id t = i" and ?f = "rotated_row n g now"
  have k: "map t_id (tokens d') = map t_id (tokens d)" "map t_token_hash (tokens d') = map t_token_hash (tokens d)"
    "users d' = users d"
    by (auto simp: assms(3) intro!: map_upd_where_key)
  have "auth_evolve d d'"
    by (rule auth_evolveI [where P = "\<lambda>_. False" and Q = ?P and g = ?f and us = "[]" and ts = "[]" and as = "[]"])
      (auto simp: assms(3) same_rows token_evolves_def)
  moreover have "auth_db_ok d'" if ok: "auth_db_ok d"
  proof -
    have "linked (tokens d') (if ?P x then ?f x else x)" if "x \<in> set (tokens d)" for x
    proof (cases "?P x")
      case True
      then have "successor (tokens d') n x" using assms(2) [OF that] by (simp add: assms(3) successor_upd)
      then show ?thesis using True by (simp add: linked_def)
    next
      case False
      have "linked (tokens d') x"
        by (rule linked_mono [of "tokens d"]) (use ok that in \<open>auto simp: auth_db_ok_def assms(3) successor_upd\<close>)
      then show ?thesis using False by simp
    qed
    then have "\<forall>x \<in> set (tokens d'). linked (tokens d') x" by (auto simp: assms(3) in_upd_where)
    moreover have "\<forall>t \<in> set (tokens d'). t_user_id t \<in> set (map u_id (users d))"
      using ok unfolding auth_db_ok_def by (auto simp: assms(3) in_upd_where)
    ultimately show ?thesis using ok unfolding auth_db_ok_def k by simp
  qed
  ultimately show ?thesis by (simp add: auth_rel_def)
qed

lemma rotate_spec_Inr:
  assumes "rotate_spec c env fr i now d = Inr (a, d')"
  shows "\<exists>cur new. cur \<in> set (tokens d) \<and> t_id cur = i \<and> a = (rf_raw fr, new) \<and>
    t_user_id new = t_user_id cur \<and> t_family_id new = t_family_id cur \<and> active new \<and>
    t_id new = rf_id fr \<and> t_token_hash new = sha256 c (rf_raw fr) \<and>
    t_expires_at new = rf_now1 fr + RT_TTL_SECONDS env * 1000 \<and>
    rf_id fr \<notin> t_id ` set (tokens d) \<and>
    auth_rel d (d\<lparr>tokens := tokens d @ [new]\<rparr>) \<and>
    d' = d\<lparr>tokens := upd_where (\<lambda>t. t_id t = i)
      (rotated_row (rf_id fr) (rf_now2 fr + RT_GRACE_SECONDS env * 1000) now) (tokens d @ [new])\<rparr>"
proof -
  obtain cur where cur: "find (\<lambda>t. t_id t = i) (tokens d) = Some cur"
    using assms by (auto simp: rotate_spec_def split: option.splits)
  obtain new d1 where ins: "insert_token (rf_id fr) (t_user_id cur) (t_family_id cur) (sha256 c (rf_raw fr))
      (rf_now1 fr + RT_TTL_SECONDS env * 1000) now d = Inr (new, d1)"
    and a: "a = (rf_raw fr, new)" "d' = d1\<lparr>tokens := upd_where (\<lambda>t. t_id t = i)
      (rotated_row (t_id new) (rf_now2 fr + RT_GRACE_SECONDS env * 1000) now) (tokens d1)\<rparr>"
    using assms by (auto simp: rotate_spec_def cur split: sum.splits)
  show ?thesis
    using find_SomeD [OF cur] insert_token_Inr [OF ins] auth_rel_insert_token [OF ins] a
    by (intro exI [of _ cur] exI [of _ new]) auto
qed

lemma auth_rel_rotate:
  assumes "rotate_spec c env fr i now d = Inr (a, d')"
  shows "auth_rel d d'"
proof -
  obtain cur new where c: "cur \<in> set (tokens d)" "t_id cur = i" "t_user_id new = t_user_id cur"
      "t_family_id new = t_family_id cur" "t_id new = rf_id fr" "rf_id fr \<notin> t_id ` set (tokens d)"
    and ins: "auth_rel d (d\<lparr>tokens := tokens d @ [new]\<rparr>)"
    and d': "d' = d\<lparr>tokens := upd_where (\<lambda>t. t_id t = i)
      (rotated_row (rf_id fr) (rf_now2 fr + RT_GRACE_SECONDS env * 1000) now) (tokens d @ [new])\<rparr>"
    using rotate_spec_Inr [OF assms] by blast
  have "auth_rel (d\<lparr>tokens := tokens d @ [new]\<rparr>) d'" if ok: "auth_db_ok d"
  proof (rule auth_rel_link)
    show "rf_id fr \<in> t_id ` set (tokens (d\<lparr>tokens := tokens d @ [new]\<rparr>))" using c(5) by auto
    show "successor (tokens (d\<lparr>tokens := tokens d @ [new]\<rparr>)) (rf_id fr) t"
      if "t \<in> set (tokens (d\<lparr>tokens := tokens d @ [new]\<rparr>))" "t_id t = i" for t
    proof -
      have "i \<noteq> rf_id fr" using c(1,2,6) by force
      then have "t = cur" using that c(1,2,5) ok by (auto simp: auth_db_ok_def distinct_map dest: inj_onD)
      then show ?thesis using c by (auto simp: successor_def)
    qed
  qed (simp add: d')
  then show ?thesis using auth_rel_trans [OF ins] by (auto simp: auth_rel_def)
qed

lemma guarantees_auth_methods [guarantee]:
  "guarantees auth_sessions (findByEmail email)" "guarantees auth_sessions (findById i)"
  "guarantees auth_sessions (createUser c salt i email password)"
  "guarantees auth_sessions (bumpTokenVersion i)" "guarantees auth_sessions (record_audit who action meta)"
  "guarantees auth_sessions (issueNewFamily c env fr userId)" "guarantees auth_sessions (findByRaw c raw)"
  "guarantees auth_sessions (revoke i)" "guarantees auth_sessions (revokeFamily f)"
  "guarantees auth_sessions (revokeAllForUser userId)"
  unfolding findByEmail_def findById_def createUser_def bumpTokenVersion_def record_audit_def
    issueNewFamily_def findByRaw_def revoke_def revokeFamily_def revokeAllForUser_def
    revoke_by_id_def revoke_family_def revoke_user_def Let_def
  by (auto intro!: guarantees_query guarantee
      intro: auth_rel_select auth_rel_insert_user auth_rel_bump auth_rel_audit auth_rel_insert_token auth_rel_revoke)

lemma guarantees_rotate [guarantee]: "guarantees auth_sessions (rotate c env fr row)"
  by (rule rotation.guaranteed) (simp add: auth_rel_rotate)

subsection \<open>The handlers\<close>

lemma auth_bookkeeping [simp]:
  fixes f :: "'y auth_proc_scheme \<Rightarrow> 'y auth_proc_scheme"
  shows "bookkeeping (\<lambda>s. s\<lparr>cookies := q (s :: 'y auth_proc_scheme)\<rparr>)"
    "bookkeeping (\<lambda>s. s\<lparr>dummyHash := h (s :: 'y auth_proc_scheme)\<rparr>)"
    "bookkeeping (\<lambda>s. s\<lparr>loginSuccessTotal := k (s :: 'y auth_proc_scheme)\<rparr>)"
    "bookkeeping (\<lambda>s. s\<lparr>loginFailTotal := k (s :: 'y auth_proc_scheme)\<rparr>)"
    "bookkeeping (\<lambda>s. s\<lparr>refreshTotal := k (s :: 'y auth_proc_scheme)\<rparr>)"
    "bookkeeping (\<lambda>s. s\<lparr>reuseDetectedTotal := k (s :: 'y auth_proc_scheme)\<rparr>)"
  by (simp_all add: bookkeeping_def)

lemmas auth_bookkeeping_defs = setRtCookie_def clearRtCookie_def inc_login_success_def inc_login_fail_def
  inc_refresh_def inc_reuse_def initDummyHash_def

lemma guarantees_auth_bookkeeping [guarantee]:
  "guarantees auth_sessions (setRtCookie env raw)" "guarantees auth_sessions (clearRtCookie env)"
  "guarantees auth_sessions inc_login_success" "guarantees auth_sessions inc_login_fail"
  "guarantees auth_sessions inc_refresh" "guarantees auth_sessions inc_reuse"
  "guarantees auth_sessions (initDummyHash c salt)"
  unfolding auth_bookkeeping_defs by (intro guarantee; simp)+

lemma guarantees_dummy [guarantee]: "guarantees auth_sessions (verifyDummyPassword c salt)"
  unfolding verifyDummyPassword_def by (rule guarantee)+

lemma guarantees_register: "guarantees auth_sessions (register x fr req body)"
  unfolding register_def Let_def by (rule guarantee)+

lemma guarantees_login: "guarantees auth_sessions (login x env fr req body)"
  unfolding login_def Let_def by (rule guarantee)+

lemma guarantees_refresh_branches [guarantee]:
  "guarantees auth_sessions (refresh_active x env fr traceId row)"
  "guarantees auth_sessions (refresh_grace x env fr traceId row)"
  "guarantees auth_sessions (refresh_reuse env traceId row)"
  unfolding refresh_active_def refresh_grace_def refresh_reuse_def Let_def by (rule guarantee)+

lemma guarantees_refresh: "guarantees auth_sessions (refresh x env fr req)"
  unfolding refresh_def Let_def by (rule guarantee)+

lemma guarantees_logout:
  "guarantees auth_sessions (logout x env fr req)" "guarantees auth_sessions (logoutAll x env fr req)"
  unfolding logout_def logoutAll_def Let_def by (rule guarantee)+

subsection \<open>Steps\<close>

definition auth_abides :: "auth_db tick list \<Rightarrow> bool" where
  "auth_abides sc \<longleftrightarrow> (\<forall>t \<in> set sc. \<forall>d. auth_rel d (others t d))"

inductive auth_step :: "auth_ext \<Rightarrow> auth_env \<Rightarrow> auth_proc \<Rightarrow> auth_proc \<Rightarrow> bool"
  for x env where
  register: "auth_abides sc \<Longrightarrow> register x fr req body (s\<lparr>script := sc\<rparr>) = (r, s') \<Longrightarrow> auth_step x env s s'"
| login: "auth_abides sc \<Longrightarrow> login x env fr req body (s\<lparr>script := sc\<rparr>) = (t, s') \<Longrightarrow> auth_step x env s s'"
| refresh: "auth_abides sc \<Longrightarrow> refresh x env fr req (s\<lparr>script := sc\<rparr>) = (t, s') \<Longrightarrow> auth_step x env s s'"
| logout: "auth_abides sc \<Longrightarrow> logout x env fr req (s\<lparr>script := sc\<rparr>) = (u, s') \<Longrightarrow> auth_step x env s s'"
| logout_all: "auth_abides sc \<Longrightarrow> logoutAll x env fr req (s\<lparr>script := sc\<rparr>) = (u, s') \<Longrightarrow> auth_step x env s s'"
| other: "auth_rel (committed s) d \<Longrightarrow> auth_step x env s (s\<lparr>committed := d\<rparr>)"

inductive auth_reach :: "auth_ext \<Rightarrow> auth_env \<Rightarrow> auth_proc \<Rightarrow> auth_proc \<Rightarrow> bool"
  for x env where
  start: "auth_reach x env s s"
| step: "auth_reach x env s s1 \<Longrightarrow> auth_step x env s1 s2 \<Longrightarrow> auth_reach x env s s2"

definition auth_settled :: "auth_db \<Rightarrow> nat \<Rightarrow> auth_proc \<Rightarrow> bool" where
  "auth_settled d n s \<longleftrightarrow> auth_rel d (committed s) \<and> checked_out s = n \<and> tx s = None"

lemma auth_abides_idle:
  "auth_abides sc \<Longrightarrow> tx s = None \<Longrightarrow>
     idle auth_sessions (committed s) (checked_out s) (conn.more s) (s\<lparr>script := sc\<rparr>)"
  using auth_rel_preorder by (auto simp: conn_state_defs auth_abides_def)

lemma auth_guarantees_run:
  assumes "guarantees auth_sessions op" and "auth_abides sc" and "tx s = None"
    and "op (s\<lparr>script := sc\<rparr>) = (r, s')"
  shows "auth_settled (committed s) (checked_out s) s'"
  using wpD [OF guaranteesD [OF assms(1) auth_abides_idle [OF assms(2,3)]] assms(4)]
  by (auto simp: settled_def auth_settled_def dest!: idleD split: sum.splits)

lemma auth_step_settled:
  "auth_step x env s s' \<Longrightarrow> tx s = None \<Longrightarrow> auth_settled (committed s) (checked_out s) s'"
proof (induction rule: auth_step.induct)
  case (other s d)
  then show ?case by (simp add: auth_settled_def)
qed (metis auth_guarantees_run guarantees_register guarantees_login guarantees_refresh guarantees_logout)+

lemma auth_reach_settled:
  "auth_reach x env s s' \<Longrightarrow> tx s = None \<Longrightarrow> auth_settled (committed s) (checked_out s) s'"
proof (induction rule: auth_reach.induct)
  case (start s)
  then show ?case by (simp add: auth_settled_def)
next
  case (step s s1 s2)
  then have "auth_settled (committed s) (checked_out s) s1" by simp
  moreover from this have "auth_settled (committed s1) (checked_out s1) s2"
    using auth_step_settled [OF step.hyps(2)] by (simp add: auth_settled_def)
  ultimately show ?case unfolding auth_settled_def using auth_rel_trans by metis
qed

subsection \<open>Rows over time\<close>

lemma auth_evolve_token:
  assumes "auth_evolve d d'" and "t \<in> set (tokens d)"
  shows "\<exists>t' \<in> set (tokens d'). token_evolves t t'"
  using assms by (fastforce simp: auth_evolve_def in_set_conv_nth list_all2_conv_all_nth nth_append)

lemma auth_evolve_user:
  assumes "auth_evolve d d'" and "u \<in> set (users d)"
  shows "\<exists>u' \<in> set (users d'). user_evolves u u'"
  using assms by (fastforce simp: auth_evolve_def in_set_conv_nth list_all2_conv_all_nth nth_append)

lemma auth_evolve_audit: "auth_evolve d d' \<Longrightarrow> \<exists>more. audit_log d' = audit_log d @ more"
  by (simp add: auth_evolve_def)

end
