(* ===== verification/Auth_Contract.thy ===== *)
theory Auth_Contract
  imports Auth_Machine
begin

text \<open>
  The undisturbed runs of the auth handlers, branch by branch: \<open>calm d c s\<close> is a connection between two
  calls, with committed contents \<open>d\<close> and the cookies \<open>c\<close> sent so far, where nothing interferes and
  nothing fails; one rule per method, and from them the outcome of every handler.
\<close>

definition calm :: "auth_db \<Rightarrow> cookie_op list \<Rightarrow> auth_proc \<Rightarrow> bool" where
  "calm d c s \<longleftrightarrow> idle (alone False) d (checked_out s) (conn.more s) s \<and> cookies s = c"

lemma calmD: "calm d c s \<Longrightarrow> committed s = d \<and> cookies s = c \<and> tx s = None"
  by (auto simp: calm_def dest: idleD)

lemma calm_start:
  "quiet s \<Longrightarrow> reliable s \<Longrightarrow> tx s = None \<Longrightarrow> calm (committed s) (cookies s) s"
  unfolding calm_def by (simp add: reliable_idle)

lemma cookies_frame: "conn.more s' = conn.more s \<Longrightarrow> cookies s' = cookies (s :: auth_proc)"
  by (cases s; cases s') simp

lemma calm_again:
  assumes "calm d c s" and "idle (alone False) d' (checked_out s) (conn.more s) s'"
  shows "calm d' c s'"
  using assms cookies_frame [of s' s] idleD [OF assms(2)] by (simp add: calm_def)

lemma calm_query_frame:
  assumes "calm d c s"
    and "\<And>now a d' s'. st now d = Inr (a, d') \<Longrightarrow> calm d' c s' \<Longrightarrow> conn.more s' = conn.more s \<Longrightarrow> Q a s'"
    and "\<And>now e s'. st now d = Inl e \<Longrightarrow> calm d c s' \<Longrightarrow> E e s'"
  shows "wp (query st) Q E s"
proof (rule autocommit.wp_reliable)
  show "idle (alone False) d (checked_out s) (conn.more s) s" using assms(1) by (simp add: calm_def)
next
  fix now a d' s' assume a: "st now d = Inr (a, d')" "idle (alone False) d' (checked_out s) (conn.more s) s'"
  have "conn.more s' = conn.more s" using idleD [OF a(2)] by simp
  then show "Q a s'" by (rule assms(2) [OF a(1) calm_again [OF assms(1) a(2)]])
next
  fix now e s' assume e: "st now d = Inl e" "idle (alone False) d (checked_out s) (conn.more s) s'"
  show "E e s'" by (rule assms(3) [OF e(1) calm_again [OF assms(1) e(2)]])
qed

lemma calm_query:
  assumes "calm d c s"
    and "\<And>now a d' s'. st now d = Inr (a, d') \<Longrightarrow> calm d' c s' \<Longrightarrow> Q a s'"
    and "\<And>now e s'. st now d = Inl e \<Longrightarrow> calm d c s' \<Longrightarrow> E e s'"
  shows "wp (query st) Q E s"
  by (rule calm_query_frame [OF assms(1)]) (erule (1) assms(2), erule (1) assms(3))

lemma calm_rotate:
  assumes "calm d c s"
    and "\<And>now a d' s'. rotate_spec cr env fr (t_id row) now d = Inr (a, d') \<Longrightarrow> calm d' c s' \<Longrightarrow> Q a s'"
    and "\<And>now e s'. rotate_spec cr env fr (t_id row) now d = Inl e \<Longrightarrow> calm d c s' \<Longrightarrow> E e s'"
  shows "wp (rotate cr env fr row) Q E s"
proof (rule rotation.wp_reliable)
  show "idle (alone False) d (checked_out s) (conn.more s) s" using assms(1) by (simp add: calm_def)
qed (use assms calm_again [OF assms(1)] in blast)+

lemma calm_counters:
  "calm d c s \<Longrightarrow> (\<And>s'. calm d c s' \<Longrightarrow> Q () s') \<Longrightarrow> wp inc_login_success Q E s"
  "calm d c s \<Longrightarrow> (\<And>s'. calm d c s' \<Longrightarrow> Q () s') \<Longrightarrow> wp inc_login_fail Q E s"
  "calm d c s \<Longrightarrow> (\<And>s'. calm d c s' \<Longrightarrow> Q () s') \<Longrightarrow> wp inc_refresh Q E s"
  "calm d c s \<Longrightarrow> (\<And>s'. calm d c s' \<Longrightarrow> Q () s') \<Longrightarrow> wp inc_reuse Q E s"
  by (simp_all add: auth_bookkeeping_defs wp_modify calm_def conn_state_defs)

lemma calm_cookies:
  "calm d c s \<Longrightarrow>
     (\<And>s'. calm d (c @ [Set_Cookie raw (RT_TTL_SECONDS env * 1000) (NODE_ENV env = ''production'')]) s' \<Longrightarrow> Q () s') \<Longrightarrow>
     wp (setRtCookie env raw) Q E s"
  "calm d c s \<Longrightarrow> (\<And>s'. calm d (c @ [Clear_Cookie (NODE_ENV env = ''production'')]) s' \<Longrightarrow> Q () s') \<Longrightarrow>
     wp (clearRtCookie env) Q E s"
  by (simp_all add: auth_bookkeeping_defs wp_modify calm_def conn_state_defs)

text \<open>The repositories.\<close>

lemma calm_findByEmail:
  assumes "calm d c s"
    and "\<And>s'. calm d c s' \<Longrightarrow> dummyHash s' = dummyHash s \<Longrightarrow>
      Q (find (\<lambda>u. u_email u = toLowerCase email) (users d)) s'"
  shows "wp (findByEmail email) Q E s"
proof -
  have frame: "dummyHash s' = dummyHash s" if "conn.more s' = conn.more s" for s'
    using that by (cases s; cases s') simp
  show ?thesis
    unfolding findByEmail_def
    by (rule calm_query_frame [OF assms(1)]) (auto simp: auth_stmt_defs intro: assms(2) frame)
qed

text \<open>The dummy hash is one that Argon2 made, so its verification does not throw.\<close>

definition dummy_ok :: "crypto \<Rightarrow> auth_proc \<Rightarrow> bool" where
  "dummy_ok cr s \<longleftrightarrow>
     (case dummyHash s of None \<Rightarrow> True | Some h \<Rightarrow> \<exists>salt plain. argon2_hash cr salt plain = Inr h)"

lemma calm_dummy:
  assumes "calm d c s" and "argon2_documented cr" and "dummy_ok cr s"
    and "\<And>s'. calm d c s' \<Longrightarrow> Q False s'"
  shows "wp (verifyDummyPassword cr salt) Q E s"
proof -
  obtain h where h: "argon2_hash cr salt DUMMY_PASSWORD = Inr h"
    and "\<exists>b. argon2_verify cr h ''does-not-matter'' = Inr b"
    using assms(2) unfolding argon2_documented_def by blast
  note made = this
  have "\<exists>b. argon2_verify cr (the (dummyHash s)) ''does-not-matter'' = Inr b" if some: "dummyHash s \<noteq> None"
  proof -
    obtain k salt' plain where k: "dummyHash s = Some k" "argon2_hash cr salt' plain = Inr k"
      using some assms(3) by (auto simp: dummy_ok_def split: option.splits)
    obtain k' where "argon2_hash cr salt' plain = Inr k'" "\<exists>b. argon2_verify cr k' ''does-not-matter'' = Inr b"
      using assms(2) unfolding argon2_documented_def by blast
    then show ?thesis using k by simp
  qed
  moreover have "calm d c (s\<lparr>dummyHash := k\<rparr>)" for k
    using assms(1) by (simp add: calm_def conn_state_defs)
  ultimately show ?thesis
    using assms(1,4) made(2) by (auto simp: verifyDummyPassword_def initDummyHash_def wp_simps wp_liftM h split: sum.split)
qed

lemma calm_findById:
  "calm d c s \<Longrightarrow> (\<And>s'. calm d c s' \<Longrightarrow> Q (find (\<lambda>u. u_id u = i) (users d)) s') \<Longrightarrow> wp (findById i) Q E s"
  unfolding findById_def by (erule calm_query) (auto simp: auth_stmt_defs)

lemma calm_findByRaw:
  "calm d c s \<Longrightarrow> (\<And>s'. calm d c s' \<Longrightarrow> Q (find (\<lambda>t. t_token_hash t = sha256 cr raw) (tokens d)) s') \<Longrightarrow>
     wp (findByRaw cr raw) Q E s"
  unfolding findByRaw_def Let_def by (erule calm_query) (auto simp: auth_stmt_defs)

lemma calm_audit:
  assumes "calm d c s"
    and "\<And>now s'. calm (d\<lparr>audit_log := audit_log d @
        [\<lparr>a_user_id = who, a_action = action, a_meta = meta, a_at = now\<rparr>]\<rparr>) c s' \<Longrightarrow> Q () s'"
  shows "wp (record_audit who action meta) Q E s"
  unfolding record_audit_def using assms(1) by (rule calm_query) (auto simp: auth_stmt_defs intro: assms(2))

lemma calm_bump:
  assumes "calm d c s"
    and "\<And>s'. calm (d\<lparr>users := upd_where (\<lambda>u. u_id u = i) (\<lambda>u. u\<lparr>u_token_version := Suc (u_token_version u)\<rparr>)
        (users d)\<rparr>) c s' \<Longrightarrow> Q () s'"
  shows "wp (bumpTokenVersion i) Q E s"
  unfolding bumpTokenVersion_def using assms(1) by (rule calm_query) (auto simp: auth_stmt_defs intro: assms(2))

lemma calm_revoke:
  assumes "calm d c s"
    and "\<And>now s'. calm (d\<lparr>tokens := upd_where P (revoked_row now) (tokens d)\<rparr>) c s' \<Longrightarrow> Q () s'"
  shows "wp (query (revoke_tokens P)) Q E s"
  using assms(1) by (rule calm_query) (auto simp: auth_stmt_defs intro: assms(2))

lemmas calm_revokes =
  calm_revoke [where P = "\<lambda>t. t_id t = i" for i, folded revoke_by_id_def revoke_def]
  calm_revoke [where P = "\<lambda>t. t_family_id t = f \<and> active t" for f, folded revoke_family_def revokeFamily_def]
  calm_revoke [where P = "\<lambda>t. t_user_id t = u \<and> active t" for u, folded revoke_user_def revokeAllForUser_def]

lemma calm_issue:
  assumes "calm d c s" and "userId \<in> u_id ` set (users d)"
    and "rf_id fr \<notin> t_id ` set (tokens d)" and "sha256 cr (rf_raw fr) \<notin> t_token_hash ` set (tokens d)"
    and "\<And>now t s'. calm (d\<lparr>tokens := tokens d @ [t]\<rparr>) c s' \<Longrightarrow>
      t = \<lparr>t_id = rf_id fr, t_user_id = userId, t_family_id = rf_family fr, t_token_hash = sha256 cr (rf_raw fr),
        t_rotated_to = None, t_revoked_at = None, t_expires_at = rf_now1 fr + RT_TTL_SECONDS env * 1000,
        t_grace_until = None, t_created_at = now\<rparr> \<Longrightarrow> Q (rf_raw fr, t) s'"
  shows "wp (issueNewFamily cr env fr userId) Q E s"
  unfolding issueNewFamily_def Let_def wp_bind
proof (rule calm_query [OF assms(1)])
  show "wp (retM (rf_raw fr, t)) Q E s'"
    if "insert_token (rf_id fr) userId (rf_family fr) (sha256 cr (rf_raw fr))
      (rf_now1 fr + RT_TTL_SECONDS env * 1000) now d = Inr (t, d')" "calm d' c s'" for now t d' s'
    using insert_token_Inr [OF that(1)] that(2) by (auto simp: wp_ret intro!: assms(5))
qed (use assms(2-4) in \<open>auto simp: insert_token_def image_iff Let_def split: if_splits\<close>)

lemma rotate_spec_fresh:
  assumes "auth_db_ok d" and "row \<in> set (tokens d)" and "rf_id fr \<notin> t_id ` set (tokens d)"
    and "sha256 cr (rf_raw fr) \<notin> t_token_hash ` set (tokens d)"
  shows "\<exists>a d'. rotate_spec cr env fr (t_id row) now d = Inr (a, d')"
proof -
  have "find (\<lambda>t. t_id t = t_id row) (tokens d) = Some row"
    using assms(1,2) by (intro find_distinct_eq) (simp_all add: auth_db_ok_def)
  moreover have "t_user_id row \<in> u_id ` set (users d)" using assms(1,2) by (simp add: auth_db_ok_def)
  ultimately show ?thesis
    using assms(3,4) by (auto simp: rotate_spec_def insert_token_def Let_def image_iff)
qed

lemma rotate_spec_effect:
  assumes "auth_db_ok d" and "row \<in> set (tokens d)"
    and "rotate_spec cr env fr (t_id row) now d = Inr (a, d')"
  shows "\<exists>new. a = (rf_raw fr, new) \<and> active new \<and> t_id new = rf_id fr \<and>
    t_user_id new = t_user_id row \<and> t_family_id new = t_family_id row \<and>
    t_token_hash new = sha256 cr (rf_raw fr) \<and>
    t_expires_at new = rf_now1 fr + RT_TTL_SECONDS env * 1000 \<and>
    d' = d\<lparr>tokens := upd_where (\<lambda>t. t_id t = t_id row)
      (rotated_row (rf_id fr) (rf_now2 fr + RT_GRACE_SECONDS env * 1000) now) (tokens d) @ [new]\<rparr>"
proof -
  obtain cur new where c: "cur \<in> set (tokens d)" "t_id cur = t_id row" "a = (rf_raw fr, new)"
      "t_user_id new = t_user_id cur" "t_family_id new = t_family_id cur" "active new"
      "t_id new = rf_id fr" "t_token_hash new = sha256 cr (rf_raw fr)"
      "t_expires_at new = rf_now1 fr + RT_TTL_SECONDS env * 1000" "rf_id fr \<notin> t_id ` set (tokens d)"
    and d': "d' = d\<lparr>tokens := upd_where (\<lambda>t. t_id t = t_id row)
      (rotated_row (rf_id fr) (rf_now2 fr + RT_GRACE_SECONDS env * 1000) now) (tokens d @ [new])\<rparr>"
    using rotate_spec_Inr [OF assms(3)] by blast
  have "cur = row" using c(1,2) assms(1,2) by (auto simp: auth_db_ok_def distinct_map dest: inj_onD)
  moreover have "t_id row \<noteq> rf_id fr" using c(10) assms(2) by force
  ultimately show ?thesis using c d' by auto
qed

lemma owner_found:
  assumes "auth_db_ok d" and "t \<in> set (tokens d)"
  shows "\<exists>u. find (\<lambda>u. u_id u = t_user_id t) (users d) = Some u \<and> u \<in> set (users d) \<and> u_id u = t_user_id t"
proof -
  obtain u where u: "u \<in> set (users d)" "u_id u = t_user_id t" using assms by (auto simp: auth_db_ok_def)
  moreover have "find (\<lambda>x. u_id x = u_id u) (users d) = Some u"
    using assms(1) u(1) by (intro find_distinct_eq) (simp_all add: auth_db_ok_def)
  ultimately show ?thesis by metis
qed

end
