(* ===== verification/Auth_Properties.thy ===== *)
theory Auth_Properties
  imports Auth_Contract
begin

text \<open>
  What the auth service promises, theorem by theorem, each with a run on a small database
  (\<open>auth_start\<close>: one user with an active token, one rotated out of grace and one in grace), and the
  ways in which rotation and logout do not keep what their comments promise.
\<close>

subsection \<open>A small database\<close>

text \<open>The libraries, as the simplest functions that have their documented behaviour.\<close>

definition toy_crypto :: crypto where
  "toy_crypto = \<lparr>sha256 = (\<lambda>s. ''#'' @ s), argon2_hash = (\<lambda>salt p. Inr (''$'' @ p)),
     argon2_verify = (\<lambda>h p. Inr (h = ''$'' @ p))\<rparr>"

lemma toy_crypto_documented: "argon2_documented toy_crypto"
  by (simp add: argon2_documented_def toy_crypto_def)

definition auth_x :: "jwt_lib \<Rightarrow> auth_ext" where
  "auth_x j = \<lparr>x_crypto = toy_crypto, x_jwt = j, x_email = (\<lambda>s. CHR ''@'' \<in> set s)\<rparr>"

definition plain_jwt :: jwt_lib where
  "plain_jwt = \<lparr>jwt_sign = (\<lambda>now sub email tv secret ttl. sub @ digits tv), jwt_verify = (\<lambda>now t secret. Inl (Js_Error ''x''))\<rparr>"

definition auth_cfg :: auth_env where
  "auth_cfg = \<lparr>RT_TTL_SECONDS = 7776000, RT_GRACE_SECONDS = 10, JWT_SECRET = ''0123456789abcdef'',
     JWT_AT_TTL_SECONDS = 900, NODE_ENV = ''production''\<rparr>"

definition ann :: user_row where
  "ann = \<lparr>u_id = ''u1'', u_email = ''ann@x.org'', u_password_hash = ''$secret12'', u_token_version = 3, u_created_at = 0\<rparr>"

definition sample_token :: "string \<Rightarrow> string \<Rightarrow> string option \<Rightarrow> instant option \<Rightarrow> rt_row" where
  "sample_token i raw next grace =
     \<lparr>t_id = i, t_user_id = ''u1'', t_family_id = ''f1'', t_token_hash = ''#'' @ raw, t_rotated_to = next,
      t_revoked_at = map_option (\<lambda>g. g - 10000) grace, t_expires_at = 1000000, t_grace_until = grace, t_created_at = 0\<rparr>"

definition auth_start :: auth_db where
  "auth_start = \<lparr>users = [ann],
     tokens = [sample_token ''t1'' ''old'' (Some ''t2'') (Some 20000), sample_token ''t2'' ''recent'' (Some ''t3'') (Some 60000),
       sample_token ''t3'' ''now'' None None],
     audit_log = []\<rparr>"

definition auth_process :: "auth_db \<Rightarrow> auth_db tick list \<Rightarrow> auth_proc" where
  "auth_process d sc =
     \<lparr>committed = d, tx = None, tx_failed = False, tx_now = 50000, script = sc, checked_out = 0,
      dummyHash = None, cookies = [], loginSuccessTotal = 0, loginFailTotal = 0, refreshTotal = 0,
      reuseDetectedTotal = 0\<rparr>"

abbreviation auth_svc :: "auth_db tick list \<Rightarrow> auth_proc" where
  "auth_svc \<equiv> auth_process auth_start"

definition auth_fr :: auth_fresh where
  "auth_fr = \<lparr>af_trace = ''tr'', af_userId = ''u2'', af_salt = ''s'',
     af_rt = \<lparr>rf_raw = ''fresh'', rf_id = ''t9'', rf_family = ''f9'', rf_now1 = 50000, rf_now2 = 50000\<rparr>,
     af_now = 50000, af_signed = 50000\<rparr>"

definition with_cookie :: "string \<Rightarrow> auth_req" where
  "with_cookie raw = \<lparr>rq_requestId = None, rq_cookie = Some raw, rq_ip = Some ''10.0.0.1''\<rparr>"

definition auth_fault :: "auth_db tick" where
  "auth_fault = \<lparr>others = id, clock = 50000, fate = Fails_after Conn_Lost\<rparr>"

lemma auth_process_sel [simp]:
  "committed (auth_process d sc) = d" "tx (auth_process d sc) = None" "script (auth_process d sc) = sc"
  "cookies (auth_process d sc) = []" "checked_out (auth_process d sc) = 0"
  "quiet (auth_process d [])" "reliable (auth_process d [])" "auth_abides []" "auth_abides [auth_fault]"
  by (auto simp: auth_process_def quiet_def reliable_def auth_abides_def auth_fault_def)

lemma auth_start_ok: "auth_db_ok auth_start"
  by code_simp

subsection \<open>The service as a whole\<close>

text \<open>C8: The invariant of the auth service. Whatever requests a replica serves, in whatever order,
  whatever calls of the database fail and whatever the other replicas commit meanwhile: ids, emails
  and token hashes stay unique, every token belongs to a user, a token that was rotated is revoked
  and names a successor of the same user and family, no row disappears, a token once revoked is never
  active again, a user's token version never goes down, the audit log is only appended to, and every
  connection is given back.\<close>

theorem auth_service_invariant:
  assumes "auth_reach x env s s'" and "tx s = None" and "auth_db_ok (committed s)"
  shows "auth_db_ok (committed s') \<and> tx s' = None \<and> checked_out s' = checked_out s \<and>
    (\<forall>t \<in> set (tokens (committed s)). \<exists>t' \<in> set (tokens (committed s')).
       t_id t' = t_id t \<and> t_user_id t' = t_user_id t \<and> t_family_id t' = t_family_id t \<and>
       t_expires_at t' = t_expires_at t \<and> (active t' \<longrightarrow> active t)) \<and>
    (\<forall>u \<in> set (users (committed s)). \<exists>u' \<in> set (users (committed s')).
       u_id u' = u_id u \<and> u_email u' = u_email u \<and> u_token_version u \<le> u_token_version u') \<and>
    (\<exists>more. audit_log (committed s') = audit_log (committed s) @ more)"
proof -
  have st: "auth_settled (committed s) (checked_out s) s'" using auth_reach_settled assms(1,2) .
  then have ok: "auth_db_ok (committed s')" and ev: "auth_evolve (committed s) (committed s')"
    using assms(3) by (simp_all add: auth_settled_def auth_rel_def)
  have t: "\<forall>t \<in> set (tokens (committed s)). \<exists>t' \<in> set (tokens (committed s')).
      t_id t' = t_id t \<and> t_user_id t' = t_user_id t \<and> t_family_id t' = t_family_id t \<and>
      t_expires_at t' = t_expires_at t \<and> (active t' \<longrightarrow> active t)"
    using auth_evolve_token [OF ev] unfolding token_evolves_def by metis
  have u: "\<forall>u \<in> set (users (committed s)). \<exists>u' \<in> set (users (committed s')).
      u_id u' = u_id u \<and> u_email u' = u_email u \<and> u_token_version u \<le> u_token_version u'"
    using auth_evolve_user [OF ev] unfolding user_evolves_def by metis
  show ?thesis using ok t u auth_evolve_audit [OF ev] st by (simp only: auth_settled_def simp_thms)
qed

theorem auth_service_invariant_witness:
  "\<exists>s' :: auth_proc. auth_db_ok (committed s') \<and> checked_out s' = 0 \<and> length (tokens (committed s')) = 4"
proof -
  let ?op = "refresh (auth_x plain_jwt) auth_cfg auth_fr (with_cookie ''now'') (auth_svc [])"
  have p: "refresh (auth_x plain_jwt) auth_cfg auth_fr (with_cookie ''now'') (auth_svc []\<lparr>script := []\<rparr>) =
      (fst ?op, snd ?op)"
    by (simp add: auth_process_def)
  have "auth_reach (auth_x plain_jwt) auth_cfg (auth_svc []) (snd ?op)"
    by (rule auth_reach.step [OF auth_reach.start auth_step.refresh [OF _ p]]) simp
  from auth_service_invariant [OF this] auth_start_ok
  have "auth_db_ok (committed (snd ?op)) \<and> checked_out (snd ?op) = 0" by simp
  moreover have "length (tokens (committed (snd ?op))) = 4" by code_simp
  ultimately show ?thesis by blast
qed

subsection \<open>Refresh\<close>

definition grant :: "auth_ext \<Rightarrow> auth_env \<Rightarrow> auth_fresh \<Rightarrow> user_row \<Rightarrow> token_response" where
  "grant x env fr u =
     \<lparr>tr_accessToken = signAccessToken (x_jwt x) env (af_signed fr) (u_id u) (u_email u) (u_token_version u),
      tr_userId = u_id u\<rparr>"

definition logged :: "auth_db \<Rightarrow> auth_db \<Rightarrow> uuid option \<Rightarrow> string \<Rightarrow> bool" where
  "logged d d' who action \<longleftrightarrow>
     (\<exists>a. audit_log d' = audit_log d @ [a] \<and> a_user_id a = who \<and> a_action a = action)"

definition rotated_to :: "auth_env \<Rightarrow> crypto \<Rightarrow> rt_fresh \<Rightarrow> rt_row \<Rightarrow> auth_db \<Rightarrow> auth_db \<Rightarrow> bool" where
  "rotated_to env c fr row d d' \<longleftrightarrow>
     users d' = users d \<and>
     (\<exists>now new. tokens d' = upd_where (\<lambda>t. t_id t = t_id row)
          (rotated_row (t_id new) (rf_now2 fr + RT_GRACE_SECONDS env * 1000) now) (tokens d) @ [new] \<and>
        active new \<and> t_token_hash new = sha256 c (rf_raw fr) \<and> t_user_id new = t_user_id row \<and>
        t_family_id new = t_family_id row \<and> t_expires_at new = rf_now1 fr + RT_TTL_SECONDS env * 1000)"

text \<open>The undisturbed branches.\<close>

lemma loggedI: "logged d (d1\<lparr>audit_log := audit_log d @ [\<lparr>a_user_id = who, a_action = action, a_meta = m, a_at = now\<rparr>]\<rparr>) who action"
  by (simp add: logged_def)

lemma calm_refresh_active:
  assumes "calm d c s" and "auth_db_ok d" and "row \<in> set (tokens d)"
    and "rf_id (af_rt fr) \<notin> t_id ` set (tokens d)"
    and "sha256 (x_crypto x) (rf_raw (af_rt fr)) \<notin> t_token_hash ` set (tokens d)"
  shows "wp (refresh_active x env fr traceId row)
    (\<lambda>resp s'. \<exists>d' u.
       calm d' (c @ [Set_Cookie (rf_raw (af_rt fr)) (RT_TTL_SECONDS env * 1000) (NODE_ENV env = ''production'')]) s' \<and>
       u \<in> set (users d) \<and> u_id u = t_user_id row \<and> resp = grant x env fr u \<and>
       rotated_to env (x_crypto x) (af_rt fr) row d d' \<and> logged d d' (Some (u_id u)) ''refresh'')
    (\<lambda>_ _. False) s"
proof -
  obtain u where u: "find (\<lambda>u. u_id u = t_user_id row) (users d) = Some u" "u \<in> set (users d)" "u_id u = t_user_id row"
    using owner_found [OF assms(2,3)] by blast
  show ?thesis
    unfolding refresh_active_def wp_simps
    apply (rule calm_findById [OF assms(1)])
    unfolding u(1) option.case wp_simps Let_def
    apply (erule calm_rotate)
    subgoal for s1 now a d1 s2
    proof -
      assume "rotate_spec (x_crypto x) env (af_rt fr) (t_id row) now d = Inr (a, d1)" and s2: "calm d1 c s2"
      from rotate_spec_effect [OF assms(2,3) this(1)] obtain new
        where d1: "fst a = rf_raw (af_rt fr)" "audit_log d1 = audit_log d"
          and r: "rotated_to env (x_crypto x) (af_rt fr) row d d1"
        by (fastforce simp: rotated_to_def)
      have r': "rotated_to env (x_crypto x) (af_rt fr) row d (d1\<lparr>audit_log := l\<rparr>)" for l
        using r by (simp add: rotated_to_def)
      show ?thesis
        unfolding d1(1)
        by (rule calm_cookies(1) [OF s2], erule calm_audit, erule calm_counters, rule exI, rule exI [of _ u], intro conjI, assumption)
          (simp_all add: u(2,3) grant_def r' d1(2) loggedI)
    qed
    subgoal for s1 now e s2
      using rotate_spec_fresh [OF assms(2-5), of env now] by simp
    done
qed

lemma calm_refresh_grace:
  assumes "calm d c s" and "auth_db_ok d" and "row \<in> set (tokens d)"
  shows "wp (refresh_grace x env fr traceId row)
    (\<lambda>resp s'. \<exists>d' u. calm d' c s' \<and> u \<in> set (users d) \<and> u_id u = t_user_id row \<and> resp = grant x env fr u \<and>
       users d' = users d \<and> tokens d' = tokens d \<and> logged d d' (Some (u_id u)) ''refresh'')
    (\<lambda>_ _. False) s"
proof -
  obtain u where u: "find (\<lambda>u. u_id u = t_user_id row) (users d) = Some u" "u \<in> set (users d)" "u_id u = t_user_id row"
    using owner_found [OF assms(2,3)] by blast
  show ?thesis
    unfolding refresh_grace_def wp_simps
    apply (rule calm_findById [OF assms(1)])
    unfolding u(1) option.case wp_simps Let_def
    by (erule calm_audit, rule exI, rule exI [of _ u], intro conjI, assumption) (simp_all add: u(2,3) grant_def loggedI)
qed

lemma calm_refresh_reuse:
  assumes "calm d c s"
  shows "wp (refresh_reuse env traceId row) (\<lambda>_ _. False)
    (\<lambda>e s'. e = Http_Error 401 ''reuse_detected'' \<and>
       (\<exists>d' now. calm d' (c @ [Clear_Cookie (NODE_ENV env = ''production'')]) s' \<and> users d' = users d \<and>
          tokens d' = upd_where (\<lambda>t. t_family_id t = t_family_id row \<and> active t) (revoked_row now) (tokens d) \<and>
          logged d d' (Some (t_user_id row)) ''session_revoke'')) s"
  unfolding refresh_reuse_def wp_simps
  by (rule calm_revokes(2) [OF assms], erule calm_audit, erule calm_counters, erule calm_cookies,
      intro conjI refl, rule exI, rule exI, intro conjI, assumption)
    (simp_all add: logged_def)

text \<open>The look-up of the cookie's row, then the branch on the row found.\<close>

definition refresh_found ::
    "auth_ext \<Rightarrow> auth_env \<Rightarrow> auth_fresh \<Rightarrow> auth_req \<Rightarrow> rt_row option \<Rightarrow> (auth_db, 'x auth_proc_ext, token_response) dbm" where
  "refresh_found x env fr req found =
     (let traceId = resolveTraceId (rq_requestId req) (af_trace fr) in
      case found of
        None \<Rightarrow> throwM (Http_Error 401 ''invalid_refresh_token'')
      | Some row \<Rightarrow>
          if t_expires_at row \<le> af_now fr then throwM (Http_Error 401 ''expired_refresh_token'')
          else if active row then refresh_active x env fr traceId row
          else if in_grace (af_now fr) row then refresh_grace x env fr traceId row
          else refresh_reuse env traceId row)"

lemma refresh_run:
  fixes s :: auth_proc
  assumes "quiet s" and "reliable s" and "tx s = None" and "raw_cookie req = Some raw"
    and "refresh x env fr req s = (r, s')"
  shows "\<exists>s1. calm (committed s) (cookies s) s1 \<and> refresh_found x env fr req
    (find (\<lambda>t. t_token_hash t = sha256 (x_crypto x) raw) (tokens (committed s))) s1 = (r, s')"
proof -
  have "wp (findByRaw (x_crypto x) raw) (\<lambda>f s1. calm (committed s) (cookies s) s1 \<and>
      f = find (\<lambda>t. t_token_hash t = sha256 (x_crypto x) raw) (tokens (committed s))) (\<lambda>_ _. False) s"
    by (rule calm_findByRaw [OF calm_start [OF assms(1-3)]]) simp
  then show ?thesis
    using assms(4,5)
    by (auto simp: refresh_def refresh_found_def Let_def bindM_def wp_def split: prod.splits sum.splits)
qed

text \<open>C9: Every outcome of an undisturbed refresh. Without a cookie, with an unknown or with an expired
  token the answer is 401 and nothing changes. An active token is rotated: it is revoked, linked to a
  new active token of the same user and family, with grace, the new token is sent as the cookie, and
  the access token is the owner's. A revoked token in its grace period gets an access token and no
  rotation. A revoked token out of grace is a theft: the whole family is revoked, the cookie is
  cleared and the answer is 401 reuse\_detected. Each of the last three is logged.\<close>

theorem refresh_outcome:
  fixes s :: auth_proc
  assumes "quiet s" and "reliable s" and "tx s = None" and "auth_db_ok (committed s)"
    and "rf_id (af_rt fr) \<notin> t_id ` set (tokens (committed s))"
    and "sha256 (x_crypto x) (rf_raw (af_rt fr)) \<notin> t_token_hash ` set (tokens (committed s))"
    and "refresh x env fr req s = (r, s')"
  shows "case raw_cookie req of
      None \<Rightarrow> r = Inl (Http_Error 401 ''no_refresh_token'') \<and> s' = s
    | Some raw \<Rightarrow>
        (case find (\<lambda>t. t_token_hash t = sha256 (x_crypto x) raw) (tokens (committed s)) of
           None \<Rightarrow> r = Inl (Http_Error 401 ''invalid_refresh_token'') \<and> committed s' = committed s \<and> cookies s' = cookies s
         | Some row \<Rightarrow>
             if t_expires_at row \<le> af_now fr
             then r = Inl (Http_Error 401 ''expired_refresh_token'') \<and> committed s' = committed s \<and> cookies s' = cookies s
             else if active row
             then (\<exists>u \<in> set (users (committed s)). u_id u = t_user_id row \<and> r = Inr (grant x env fr u) \<and>
                    rotated_to env (x_crypto x) (af_rt fr) row (committed s) (committed s') \<and>
                    cookies s' = cookies s @
                      [Set_Cookie (rf_raw (af_rt fr)) (RT_TTL_SECONDS env * 1000) (NODE_ENV env = ''production'')] \<and>
                    logged (committed s) (committed s') (Some (u_id u)) ''refresh'')
             else if in_grace (af_now fr) row
             then (\<exists>u \<in> set (users (committed s)). u_id u = t_user_id row \<and> r = Inr (grant x env fr u) \<and>
                    tokens (committed s') = tokens (committed s) \<and> users (committed s') = users (committed s) \<and>
                    cookies s' = cookies s \<and> logged (committed s) (committed s') (Some (u_id u)) ''refresh'')
             else r = Inl (Http_Error 401 ''reuse_detected'') \<and> users (committed s') = users (committed s) \<and>
                  (\<exists>now. tokens (committed s') = upd_where (\<lambda>t. t_family_id t = t_family_id row \<and> active t)
                     (revoked_row now) (tokens (committed s))) \<and>
                  cookies s' = cookies s @ [Clear_Cookie (NODE_ENV env = ''production'')] \<and>
                  logged (committed s) (committed s') (Some (t_user_id row)) ''session_revoke'')"
proof (cases "raw_cookie req")
  case None
  then show ?thesis using assms(7) by (simp add: refresh_def throwM_def)
next
  case (Some raw)
  define d where "d = committed s"
  let ?found = "find (\<lambda>t. t_token_hash t = sha256 (x_crypto x) raw) (tokens d)"
  let ?trace = "resolveTraceId (rq_requestId req) (af_trace fr)"
  obtain s1 where s1: "calm d (cookies s) s1" "refresh_found x env fr req ?found s1 = (r, s')"
    using refresh_run [OF assms(1-3) Some assms(7)] unfolding d_def by blast
  show ?thesis
  proof (cases ?found)
    case None
    then show ?thesis using s1 by (simp add: Some d_def throwM_def calmD refresh_found_def)
  next
    case (Some row)
    note row = Some
    then have m: "row \<in> set (tokens d)" using find_SomeD by fast
    note fresh = assms(4-6) [folded d_def]
    show ?thesis
      unfolding \<open>raw_cookie req = Some raw\<close> option.case d_def [symmetric] row
      using s1(2) [unfolded row refresh_found_def Let_def option.case] calmD [OF s1(1)]
        wpD [OF calm_refresh_active [OF s1(1) fresh(1) m fresh(2,3), of env ?trace], of r s']
        wpD [OF calm_refresh_grace [OF s1(1) fresh(1) m, of x env fr ?trace], of r s']
        wpD [OF calm_refresh_reuse [OF s1(1), of env ?trace row], of r s']
      by (auto simp: throwM_def dest: calmD split: if_splits sum.splits)
  qed
qed

theorem refresh_outcome_witness:
  "fst (refresh (auth_x plain_jwt) auth_cfg auth_fr (with_cookie ''old'') (auth_svc [])) =
     Inl (Http_Error 401 ''reuse_detected'') \<and>
   filter active (tokens (committed (snd (refresh (auth_x plain_jwt) auth_cfg auth_fr (with_cookie ''old'')
     (auth_svc []))))) = []"
proof -
  let ?op = "refresh (auth_x plain_jwt) auth_cfg auth_fr (with_cookie ''old'') (auth_svc [])"
  have f: "raw_cookie (with_cookie ''old'') = Some ''old''" "\<not> t_expires_at t \<le> af_now auth_fr"
    "find (\<lambda>t. t_token_hash t = sha256 (x_crypto (auth_x plain_jwt)) ''old'') (tokens auth_start) = Some t"
    "\<not> active t" "\<not> in_grace (af_now auth_fr) t" if "t = hd (tokens auth_start)" for t
    unfolding that by code_simp+
  have fresh: "rf_id (af_rt auth_fr) \<notin> t_id ` set (tokens auth_start)"
    "sha256 (x_crypto (auth_x plain_jwt)) (rf_raw (af_rt auth_fr)) \<notin> t_token_hash ` set (tokens auth_start)"
    by (simp_all add: auth_start_def sample_token_def auth_fr_def auth_x_def toy_crypto_def)
  have "fst ?op = Inl (Http_Error 401 ''reuse_detected'') \<and>
     (\<exists>now. tokens (committed (snd ?op)) =
        upd_where (\<lambda>t. t_family_id t = t_family_id (hd (tokens auth_start)) \<and> active t) (revoked_row now)
          (tokens auth_start))"
    using refresh_outcome [where s = "auth_svc []", OF _ _ _ _ _ _ surjective_pairing [of ?op]] auth_start_ok fresh f [OF refl]
    by simp
  then show ?thesis by (auto simp: auth_start_def sample_token_def)
qed

subsection \<open>Register and login\<close>

definition granted_family :: "crypto \<Rightarrow> auth_env \<Rightarrow> rt_fresh \<Rightarrow> user_row \<Rightarrow> rt_row \<Rightarrow> bool" where
  "granted_family c env fr u t \<longleftrightarrow>
     active t \<and> t_rotated_to t = None \<and> t_user_id t = u_id u \<and> t_family_id t = rf_family fr \<and>
     t_token_hash t = sha256 c (rf_raw fr) \<and> t_expires_at t = rf_now1 fr + RT_TTL_SECONDS env * 1000"

lemma calm_login_granted:
  assumes c: "calm d c s" and dto: "LoginDto (x_email x) body = Some dto"
    and u: "find (\<lambda>u. u_email u = toLowerCase (cr_email dto)) (users d) = Some u"
      "verifyPassword (x_crypto x) (u_password_hash u) (cr_password dto)"
    and fresh: "rf_id (af_rt fr) \<notin> t_id ` set (tokens d)"
      "sha256 (x_crypto x) (rf_raw (af_rt fr)) \<notin> t_token_hash ` set (tokens d)"
  shows "wp (login x env fr req body) (\<lambda>resp s'. \<exists>t. resp = grant x env fr u \<and> users (committed s') = users d \<and>
      tokens (committed s') = tokens d @ [t] \<and> granted_family (x_crypto x) env (af_rt fr) u t \<and>
      cookies s' = c @ [Set_Cookie (rf_raw (af_rt fr)) (RT_TTL_SECONDS env * 1000) (NODE_ENV env = ''production'')] \<and>
      logged d (committed s') (Some (u_id u)) ''login'') (\<lambda>_ _. False) s"
proof -
  have own: "u_id u \<in> u_id ` set (users d)" using find_SomeD [OF u(1)] by simp
  show ?thesis
    unfolding login_def dto option.case Let_def wp_bind
    apply (rule calm_findByEmail [OF c])
    unfolding u(1) option.case wp_ret u(2) [THEN eqTrueI] if_True wp_bind
    apply (erule calm_issue [OF _ own fresh])
    apply (simp only: fst_conv)
    apply (erule calm_cookies, erule calm_audit, erule calm_counters, drule calmD)
    by (simp add: grant_def granted_family_def logged_def)
qed

lemma calm_login_refused:
  fixes s :: auth_proc
  assumes c: "calm d (cookies s) s" and dto: "LoginDto (x_email x) body = Some dto"
    and found: "found = find (\<lambda>u. u_email u = toLowerCase (cr_email dto)) (users d)"
    and no: "\<forall>u. found = Some u \<longrightarrow> \<not> verifyPassword (x_crypto x) (u_password_hash u) (cr_password dto)"
    and doc: "argon2_documented (x_crypto x)" and dummy: "dummy_ok (x_crypto x) s"
  shows "wp (login x env fr req body) (\<lambda>_ _. False)
    (\<lambda>e s'. e = Http_Error 401 ''invalid_credentials'' \<and> users (committed s') = users d \<and>
       tokens (committed s') = tokens d \<and> cookies s' = cookies s \<and>
       logged d (committed s') (map_option u_id found) ''login'') s"
  unfolding login_def dto option.case Let_def wp_bind
proof (rule calm_findByEmail [OF c], unfold found [symmetric], goal_cases)
  case (1 s1)
  have dummy1: "dummy_ok (x_crypto x) s1" using dummy 1(2) by (simp add: dummy_ok_def)
  have fail: "wp (bindM inc_login_fail (\<lambda>_. bindM (record_audit who ''login'' meta) (\<lambda>_.
        throwM (Http_Error 401 ''invalid_credentials'')))) Q
      (\<lambda>e s'. e = Http_Error 401 ''invalid_credentials'' \<and> users (committed s') = users d \<and>
         tokens (committed s') = tokens d \<and> cookies s' = cookies s \<and> logged d (committed s') who ''login'') s2"
    if "calm d (cookies s) s2" for who meta Q s2
    unfolding wp_simps
    by (rule calm_counters(2) [OF that], erule calm_audit, drule calmD) (simp add: loggedI)
  show ?case
  proof (cases found)
    case None
    show ?thesis unfolding None option.case
      by (rule calm_dummy [OF 1(1) doc dummy1]) (simp add: fail)
  next
    case (Some u)
    then show ?thesis using no fail [OF 1(1)] by (simp add: wp_ret)
  qed
qed

text \<open>C23: Every outcome of an undisturbed login. A body that does not parse is refused. If the email
  (in any case) has an account and the password verifies against its hash, one new active token of a
  new family is stored by its hash and sent as the cookie, and the access token carries the account's
  id, email and token version. Otherwise the answer is 401 invalid\_credentials, the same for an
  unknown email and for a wrong password, and only the audit log changes. Both are logged.\<close>

theorem login_outcome:
  fixes s :: auth_proc
  assumes "quiet s" and "reliable s" and "tx s = None"
    and "argon2_documented (x_crypto x)" and "dummy_ok (x_crypto x) s"
    and "rf_id (af_rt fr) \<notin> t_id ` set (tokens (committed s))"
    and "sha256 (x_crypto x) (rf_raw (af_rt fr)) \<notin> t_token_hash ` set (tokens (committed s))"
    and "login x env fr req body s = (r, s')"
  shows "case LoginDto (x_email x) body of
      None \<Rightarrow> r = Inl Zod_Error \<and> s' = s
    | Some dto \<Rightarrow>
        (let found = find (\<lambda>u. u_email u = toLowerCase (cr_email dto)) (users (committed s)) in
         if \<exists>u. found = Some u \<and> verifyPassword (x_crypto x) (u_password_hash u) (cr_password dto)
         then (\<exists>t. r = Inr (grant x env fr (the found)) \<and> users (committed s') = users (committed s) \<and>
                tokens (committed s') = tokens (committed s) @ [t] \<and>
                granted_family (x_crypto x) env (af_rt fr) (the found) t \<and>
                cookies s' = cookies s @
                  [Set_Cookie (rf_raw (af_rt fr)) (RT_TTL_SECONDS env * 1000) (NODE_ENV env = ''production'')] \<and>
                logged (committed s) (committed s') (Some (u_id (the found))) ''login'')
         else r = Inl (Http_Error 401 ''invalid_credentials'') \<and> users (committed s') = users (committed s) \<and>
              tokens (committed s') = tokens (committed s) \<and> cookies s' = cookies s \<and>
              logged (committed s) (committed s') (map_option u_id found) ''login'')"
proof (cases "LoginDto (x_email x) body")
  case None
  then show ?thesis using assms(8) by (simp add: login_def throwM_def)
next
  case (Some dto)
  let ?found = "find (\<lambda>u. u_email u = toLowerCase (cr_email dto)) (users (committed s))"
  note c = calm_start [OF assms(1-3)]
  show ?thesis
  proof (cases "\<exists>u. ?found = Some u \<and> verifyPassword (x_crypto x) (u_password_hash u) (cr_password dto)")
    case True
    then obtain u where u: "?found = Some u" "verifyPassword (x_crypto x) (u_password_hash u) (cr_password dto)" by blast
    from wpD [OF calm_login_granted [OF c Some u assms(6,7)] assms(8)] show ?thesis
      using u by (auto simp: Some Let_def split: sum.splits)
  next
    case False
    then have no: "\<forall>u. ?found = Some u \<longrightarrow> \<not> verifyPassword (x_crypto x) (u_password_hash u) (cr_password dto)"
      by blast
    from wpD [OF calm_login_refused [OF c Some refl no assms(4,5)] assms(8)] show ?thesis
      using False by (auto simp: Some Let_def split: sum.splits)
  qed
qed

definition json_creds :: "string \<Rightarrow> string \<Rightarrow> json" where
  "json_creds email pw = JObj [(''email'', JStr email), (''password'', JStr pw)]"

theorem login_outcome_witness:
  "fst (login (auth_x plain_jwt) auth_cfg auth_fr (with_cookie []) (json_creds ''Ann@x.org'' ''wrong'') (auth_svc [])) =
     Inl (Http_Error 401 ''invalid_credentials'') \<and>
   tokens (committed (snd (login (auth_x plain_jwt) auth_cfg auth_fr (with_cookie [])
     (json_creds ''Ann@x.org'' ''wrong'') (auth_svc [])))) = tokens auth_start"
proof -
  let ?op = "login (auth_x plain_jwt) auth_cfg auth_fr (with_cookie []) (json_creds ''Ann@x.org'' ''wrong'') (auth_svc [])"
  have f: "LoginDto (x_email (auth_x plain_jwt)) (json_creds ''Ann@x.org'' ''wrong'') =
      Some \<lparr>cr_email = ''Ann@x.org'', cr_password = ''wrong''\<rparr>"
    "find (\<lambda>u. u_email u = toLowerCase ''Ann@x.org'') (users auth_start) = Some ann"
    "\<not> verifyPassword (x_crypto (auth_x plain_jwt)) (u_password_hash ann) ''wrong''"
    by code_simp+
  have fresh: "rf_id (af_rt auth_fr) \<notin> t_id ` set (tokens auth_start)"
    "sha256 (x_crypto (auth_x plain_jwt)) (rf_raw (af_rt auth_fr)) \<notin> t_token_hash ` set (tokens auth_start)"
    "argon2_documented (x_crypto (auth_x plain_jwt))" "dummy_ok (x_crypto (auth_x plain_jwt)) (auth_svc [])"
    using toy_crypto_documented
    by (simp_all add: auth_start_def sample_token_def auth_fr_def auth_x_def toy_crypto_def dummy_ok_def auth_process_def)
  from login_outcome [where s = "auth_svc []", OF _ _ _ fresh(3,4) _ _ surjective_pairing [of ?op]] fresh f
  show ?thesis by simp
qed

text \<open>Every outcome of an undisturbed registration. A body that does not parse (password of 8 to
  128 characters) is refused. An email that is taken, in any case, is refused with 400 and nothing
  changes. Otherwise there is one more account, with the email in lower case, version 0 and a hash
  the password verifies against; the answer is its id, and the registration is logged.\<close>

theorem register_outcome:
  fixes s :: auth_proc
  assumes "quiet s" and "reliable s" and "tx s = None" and "argon2_documented (x_crypto x)"
    and "af_userId fr \<notin> u_id ` set (users (committed s))"
    and "register x fr req body s = (r, s')"
  shows "case RegisterDto (x_email x) body of
      None \<Rightarrow> r = Inl Zod_Error \<and> s' = s
    | Some dto \<Rightarrow>
        if toLowerCase (cr_email dto) \<in> u_email ` set (users (committed s))
        then r = Inl (Http_Error 400 ''email_already_registered'') \<and> committed s' = committed s
        else (\<exists>u. r = Inr (u_id u) \<and> u_id u = af_userId fr \<and> u_email u = toLowerCase (cr_email dto) \<and>
               u_token_version u = 0 \<and> verifyPassword (x_crypto x) (u_password_hash u) (cr_password dto) \<and>
               users (committed s') = users (committed s) @ [u] \<and>
               tokens (committed s') = tokens (committed s) \<and>
               logged (committed s) (committed s') (Some (u_id u)) ''register'')"
proof (cases "RegisterDto (x_email x) body")
  case None
  then show ?thesis using assms(6) by (simp add: register_def throwM_def)
next
  case (Some dto)
  define d where "d = committed s"
  let ?taken = "toLowerCase (cr_email dto) \<in> u_email ` set (users d)"
  have c: "calm d (cookies s) s" unfolding d_def using calm_start [OF assms(1-3)] .
  obtain h where h: "argon2_hash (x_crypto x) (af_salt fr) (cr_password dto) = Inr h"
    "argon2_verify (x_crypto x) h (cr_password dto) = Inr True"
    using assms(4) unfolding argon2_documented_def by blast
  then have ver: "verifyPassword (x_crypto x) h (cr_password dto)" by (simp add: verifyPassword_def)
  have "wp (register x fr req body)
    (\<lambda>i s'. \<not> ?taken \<and> (\<exists>u. i = u_id u \<and> u_id u = af_userId fr \<and> u_email u = toLowerCase (cr_email dto) \<and>
       u_token_version u = 0 \<and> verifyPassword (x_crypto x) (u_password_hash u) (cr_password dto) \<and>
       users (committed s') = users d @ [u] \<and> tokens (committed s') = tokens d \<and>
       logged d (committed s') (Some (u_id u)) ''register''))
    (\<lambda>e s'. ?taken \<and> e = Http_Error 400 ''email_already_registered'' \<and> committed s' = d) s"
    unfolding register_def Some option.case Let_def wp_simps createUser_def hashPassword_def h(1) wp_liftM sum.case
  proof (rule calm_query [OF c], goal_cases)
    case (1 now u d' s1)
    then have u: "d' = d\<lparr>users := users d @ [u]\<rparr>" "u_id u = af_userId fr" "u_email u = toLowerCase (cr_email dto)"
      "u_password_hash u = h" "u_token_version u = 0" "\<not> ?taken"
      by (auto simp: insert_user_def Let_def split: if_splits)
    show ?case
      by (rule calm_audit [OF 1(2)], drule calmD) (use u ver in \<open>auto simp: logged_def\<close>)
  next
    case (2 now e s1)
    moreover have "\<not> (\<exists>u \<in> set (users d). u_id u = af_userId fr)" using assms(5) unfolding d_def by (metis image_eqI)
    ultimately have "e = unique_violation ''users_email_key''" "?taken"
      by (auto simp: insert_user_def Let_def image_iff split: if_splits intro: sym)
    then show ?case using calmD [OF 2(2)] by simp
  qed
  from wpD [OF this assms(6)] show ?thesis
    by (auto simp: Some d_def split: sum.splits)
qed

text \<open>When argon2 does not accept the configured parameters, every registration fails with its error.\<close>

lemma register_hash_failure:
  assumes "RegisterDto (x_email x) body = Some dto" and "argon2_hash (x_crypto x) (af_salt fr) (cr_password dto) = Inl e"
    and "\<not> is_unique_violation e"
  shows "register x fr req body s = (Inl e, s)"
  using assms by (simp add: register_def createUser_def hashPassword_def bindM_def liftM_def try_catch_def throwM_def)

theorem register_outcome_witness:
  "fst (register (auth_x plain_jwt) auth_fr (with_cookie []) (json_creds ''ANN@x.org'' ''longenough'') (auth_svc [])) =
     Inl (Http_Error 400 ''email_already_registered'')"
proof -
  let ?op = "register (auth_x plain_jwt) auth_fr (with_cookie []) (json_creds ''ANN@x.org'' ''longenough'') (auth_svc [])"
  have f: "RegisterDto (x_email (auth_x plain_jwt)) (json_creds ''ANN@x.org'' ''longenough'') =
      Some \<lparr>cr_email = ''ANN@x.org'', cr_password = ''longenough''\<rparr>"
    "toLowerCase ''ANN@x.org'' = u_email ann" "u_email ann \<in> u_email ` set (users auth_start)"
    "af_userId auth_fr \<notin> u_id ` set (users auth_start)"
    by code_simp+
  have doc: "argon2_documented (x_crypto (auth_x plain_jwt))"
    using toy_crypto_documented by (simp add: auth_x_def)
  from register_outcome [where s = "auth_svc []", OF _ _ _ doc _ surjective_pairing [of ?op]] f
  show ?thesis by simp
qed

end
