(* ===== verification/Auth_Safety.thy ===== *)
theory Auth_Safety
  imports Auth_Properties Dated
begin

text \<open>
  Properties of the auth service that span several requests or concurrent replicas: registration and
  login fit together, logout, what a granted refresh implies while other replicas commit, and two
  ways in which revocation is weaker than its comments say.
\<close>

subsection \<open>Registration, then login\<close>

lemma find_snoc: "(\<And>x. x \<in> set xs \<Longrightarrow> \<not> P x) \<Longrightarrow> find P (xs @ [y]) = (if P y then Some y else None)"
  by (induction xs) auto

text \<open>C24: Who registers can log in. After an undisturbed registration that succeeded, a login with
  the same password and the same email, in any mix of upper and lower case, succeeds for the account
  just created and stores one active refresh token of it.\<close>

theorem register_then_login:
  fixes s s' s2 :: auth_proc
  assumes "quiet s" and "reliable s" and "tx s = None" and "argon2_documented (x_crypto x)"
    and "af_userId fr \<notin> u_id ` set (users (committed s))"
    and reg: "register x fr req body s = (Inr uid, s')"
    and "RegisterDto (x_email x) body = Some dto" and "LoginDto (x_email x) body2 = Some dto2"
    and "toLowerCase (cr_email dto2) = toLowerCase (cr_email dto)" and "cr_password dto2 = cr_password dto"
    and "quiet s2" and "reliable s2" and "tx s2 = None" and "committed s2 = committed s'"
    and "rf_id (af_rt fr2) \<notin> t_id ` set (tokens (committed s))"
    and "sha256 (x_crypto x) (rf_raw (af_rt fr2)) \<notin> t_token_hash ` set (tokens (committed s))"
    and log: "login x env fr2 req2 body2 s2 = (r, s3)"
  shows "\<exists>resp t. r = Inr resp \<and> tr_userId resp = uid \<and>
    tokens (committed s3) = tokens (committed s) @ [t] \<and> active t \<and> t_user_id t = uid"
proof -
  obtain u where u: "uid = u_id u" "u_email u = toLowerCase (cr_email dto)"
      "verifyPassword (x_crypto x) (u_password_hash u) (cr_password dto)"
      "users (committed s') = users (committed s) @ [u]" "tokens (committed s') = tokens (committed s)"
      "toLowerCase (cr_email dto) \<notin> u_email ` set (users (committed s))"
    using register_outcome [OF assms(1-5) reg] assms(7) by (auto split: if_splits)
  have "find (\<lambda>v. u_email v = toLowerCase (cr_email dto2)) (users (committed s2)) = Some u"
    unfolding assms(9,14) u(4) by (subst find_snoc) (use u(2,6) in \<open>auto simp: image_iff\<close>)
  then show ?thesis
    using wpD [OF calm_login_granted [OF calm_start [OF assms(11-13)] assms(8)] log, of u] assms(10,14,15,16) u(1,3,5)
    by (auto simp: grant_def granted_family_def split: sum.splits)
qed

theorem register_then_login_witness:
  "\<exists>resp :: token_response. tr_userId resp = ''u2'' \<and>
     fst (login (auth_x plain_jwt) auth_cfg auth_fr (with_cookie []) (json_creds ''Bob@X.org'' ''longenough'')
       (auth_process (committed (snd (register (auth_x plain_jwt) auth_fr (with_cookie [])
         (json_creds ''bob@x.org'' ''longenough'') (auth_svc [])))) [])) = Inr resp"
proof -
  let ?reg = "register (auth_x plain_jwt) auth_fr (with_cookie []) (json_creds ''bob@x.org'' ''longenough'') (auth_svc [])"
  let ?s2 = "auth_process (committed (snd ?reg)) []"
  let ?log = "login (auth_x plain_jwt) auth_cfg auth_fr (with_cookie []) (json_creds ''Bob@X.org'' ''longenough'') ?s2"
  have f: "fst ?reg = Inr ''u2''"
    "RegisterDto (x_email (auth_x plain_jwt)) (json_creds ''bob@x.org'' ''longenough'') =
      Some \<lparr>cr_email = ''bob@x.org'', cr_password = ''longenough''\<rparr>"
    "LoginDto (x_email (auth_x plain_jwt)) (json_creds ''Bob@X.org'' ''longenough'') =
      Some \<lparr>cr_email = ''Bob@X.org'', cr_password = ''longenough''\<rparr>"
    "toLowerCase ''Bob@X.org'' = toLowerCase ''bob@x.org''"
    "af_userId auth_fr \<notin> u_id ` set (users auth_start)"
    by code_simp+
  have fresh: "rf_id (af_rt auth_fr) \<notin> t_id ` set (tokens auth_start)"
    "sha256 (x_crypto (auth_x plain_jwt)) (rf_raw (af_rt auth_fr)) \<notin> t_token_hash ` set (tokens auth_start)"
    "argon2_documented (x_crypto (auth_x plain_jwt))"
    using toy_crypto_documented
    by (simp_all add: auth_start_def sample_token_def auth_fr_def auth_x_def toy_crypto_def)
  show ?thesis
    using register_then_login [where s = "auth_svc []" and ?s2.0 = ?s2,
      OF _ _ _ fresh(3) _ run_pair [OF f(1)] f(2,3) _ _ _ _ _ _ _ _ surjective_pairing [of ?log]]
      f(4,5) fresh(1,2) by auto
qed

subsection \<open>Logout\<close>

text \<open>
  What logout and logout-all have in common: they end the sessions \<open>P row\<close> of the presented token's row,
  raise its owner's version, log it, and clear the cookie.
\<close>

definition presented :: "crypto \<Rightarrow> auth_req \<Rightarrow> auth_db \<Rightarrow> rt_row option" where
  "presented c req d =
     Option.bind (raw_cookie req) (\<lambda>raw. find (\<lambda>t. t_token_hash t = sha256 c raw) (tokens d))"

definition bumped :: "uuid \<Rightarrow> user_row list \<Rightarrow> user_row list" where
  "bumped i us = upd_where (\<lambda>u. u_id u = i) (\<lambda>u. u\<lparr>u_token_version := Suc (u_token_version u)\<rparr>) us"

definition sessions_ended :: "(rt_row \<Rightarrow> bool) \<Rightarrow> uuid \<Rightarrow> string \<Rightarrow> auth_db \<Rightarrow> auth_db \<Rightarrow> bool" where
  "sessions_ended P user action d d' \<longleftrightarrow>
     users d' = bumped user (users d) \<and>
     (\<exists>now. tokens d' = upd_where P (revoked_row now) (tokens d)) \<and>
     logged d d' (Some user) action"

lemma calm_logout:
  assumes c: "calm d c s"
    and revoke: "\<And>row s1 Q. calm d c s1 \<Longrightarrow>
      (\<And>now s'. calm (d\<lparr>tokens := upd_where (P row) (revoked_row now) (tokens d)\<rparr>) c s' \<Longrightarrow> Q () s') \<Longrightarrow>
      wp (revk row) Q (\<lambda>_ _. False) s1"
  shows "wp (bindM (case raw_cookie req of None \<Rightarrow> retM ()
          | Some raw \<Rightarrow> bindM (findByRaw cr raw) (\<lambda>found.
              case found of None \<Rightarrow> retM ()
              | Some row \<Rightarrow> bindM (revk row) (\<lambda>_. bindM (bumpTokenVersion (t_user_id row)) (\<lambda>_.
                  record_audit (Some (t_user_id row)) action m)))) (\<lambda>_. clearRtCookie env))
    (\<lambda>_ s'. cookies s' = c @ [Clear_Cookie (NODE_ENV env = ''production'')] \<and>
       (case presented cr req d of None \<Rightarrow> committed s' = d
        | Some row \<Rightarrow> sessions_ended (P row) (t_user_id row) action d (committed s'))) (\<lambda>_ _. False) s"
  (is "wp _ ?Q _ _")
proof -
  have clear: "wp (clearRtCookie env) ?Q (\<lambda>_ _. False) s1" if "presented cr req d = None" "calm d c s1" for s1
    by (rule calm_cookies(2) [OF that(2)], drule calmD) (simp add: that(1))
  show ?thesis
  proof (cases "raw_cookie req")
    case None
    then have "presented cr req d = None" by (simp add: presented_def)
    from clear [OF this c] show ?thesis unfolding wp_bind None option.case wp_ret .
  next
    case (Some raw)
    let ?found = "find (\<lambda>t. t_token_hash t = sha256 cr raw) (tokens d)"
    have pres: "presented cr req d = ?found" by (simp add: presented_def Some)
    show ?thesis
      unfolding wp_bind Some option.case
    proof (rule calm_findByRaw [OF c])
      fix s1 assume s1: "calm d c s1"
      show "wp (case ?found of None \<Rightarrow> retM ()
          | Some row \<Rightarrow> bindM (revk row) (\<lambda>_. bindM (bumpTokenVersion (t_user_id row)) (\<lambda>_.
              record_audit (Some (t_user_id row)) action m)))
        (\<lambda>_. wp (clearRtCookie env) ?Q (\<lambda>_ _. False)) (\<lambda>_ _. False) s1"
      proof (cases ?found)
        case None
        then show ?thesis using clear [OF _ s1] pres by (simp add: wp_ret)
      next
        case (Some row)
        show ?thesis
          unfolding pres Some option.case wp_bind
          by (rule revoke [OF s1], erule calm_bump, erule calm_audit, erule calm_cookies, drule calmD)
            (auto simp: sessions_ended_def bumped_def logged_def)
      qed
    qed
  qed
qed

text \<open>Every outcome of an undisturbed logout. It never fails and always clears the cookie. Without
  a cookie or with an unknown token nothing else changes. With a token of the service, in whatever
  state, that one token is revoked and no other, so the successor of a rotated token stays usable;
  the owner's token version goes up by one, and the logout is logged.\<close>

theorem logout_outcome:
  fixes s :: auth_proc
  assumes "quiet s" and "reliable s" and "tx s = None" and "logout x env fr req s = (r, s')"
  shows "r = Inr () \<and> cookies s' = cookies s @ [Clear_Cookie (NODE_ENV env = ''production'')] \<and>
    (case presented (x_crypto x) req (committed s) of
       None \<Rightarrow> committed s' = committed s
     | Some row \<Rightarrow> sessions_ended (\<lambda>t. t_id t = t_id row) (t_user_id row) ''logout'' (committed s) (committed s'))"
proof -
  have "wp (logout x env fr req) (\<lambda>_ s'. cookies s' = cookies s @ [Clear_Cookie (NODE_ENV env = ''production'')] \<and>
       (case presented (x_crypto x) req (committed s) of None \<Rightarrow> committed s' = committed s
        | Some row \<Rightarrow> sessions_ended (\<lambda>t. t_id t = t_id row) (t_user_id row) ''logout'' (committed s) (committed s')))
     (\<lambda>_ _. False) s"
    unfolding logout_def Let_def
    by (rule calm_logout [OF calm_start [OF assms(1-3)]], rule calm_revokes(1))
  from wpD [OF this assms(4)] show ?thesis by (simp split: sum.splits)
qed

theorem logout_outcome_witness:
  "map active (tokens (committed (snd (logout (auth_x plain_jwt) auth_cfg auth_fr (with_cookie ''recent'') (auth_svc [])))))
     = [False, False, True]"
proof -
  let ?op = "logout (auth_x plain_jwt) auth_cfg auth_fr (with_cookie ''recent'') (auth_svc [])"
  have f: "presented (x_crypto (auth_x plain_jwt)) (with_cookie ''recent'') auth_start = Some (tokens auth_start ! 1)"
    by code_simp
  have "sessions_ended (\<lambda>t. t_id t = t_id (tokens auth_start ! 1)) (t_user_id (tokens auth_start ! 1)) ''logout''
      auth_start (committed (snd ?op))"
    using logout_outcome [where s = "auth_svc []", OF _ _ _ surjective_pairing [of ?op]] f by simp
  then show ?thesis by (auto simp: sessions_ended_def auth_start_def sample_token_def)
qed

lemma wp_logoutAll:
  assumes "calm d c s"
  shows "wp (logoutAll x env fr req) (\<lambda>_ s'. cookies s' = c @ [Clear_Cookie (NODE_ENV env = ''production'')] \<and>
       (case presented (x_crypto x) req d of None \<Rightarrow> committed s' = d
        | Some row \<Rightarrow> sessions_ended (\<lambda>t. t_user_id t = t_user_id row \<and> active t) (t_user_id row) ''logout_all''
            d (committed s')))
     (\<lambda>_ _. False) s"
  unfolding logoutAll_def Let_def by (rule calm_logout [OF assms], rule calm_revokes(3))

text \<open>Every outcome of an undisturbed logout-all. It never fails and always clears the cookie.
  Without a cookie or with an unknown token nothing else changes. With a token of the service, in
  whatever state, every active refresh token of its owner is revoked and no other token changes, the
  owner's token version goes up by one, and the action is logged.\<close>

theorem logoutAll_outcome:
  fixes s :: auth_proc
  assumes "quiet s" and "reliable s" and "tx s = None" and "logoutAll x env fr req s = (r, s')"
  shows "r = Inr () \<and> cookies s' = cookies s @ [Clear_Cookie (NODE_ENV env = ''production'')] \<and>
    (case presented (x_crypto x) req (committed s) of
       None \<Rightarrow> committed s' = committed s
     | Some row \<Rightarrow>
         sessions_ended (\<lambda>t. t_user_id t = t_user_id row \<and> active t) (t_user_id row) ''logout_all''
           (committed s) (committed s') \<and>
         filter (\<lambda>t. t_user_id t = t_user_id row \<and> active t) (tokens (committed s')) = [])"
proof -
  have gone: "filter P (upd_where P (revoked_row now) ts) = []" if "\<And>t. P t \<Longrightarrow> \<not> P (revoked_row now t)"
    for P now and ts :: "rt_row list"
    using that by (induction ts) auto
  from wpD [OF wp_logoutAll [OF calm_start [OF assms(1-3)]] assms(4)] show ?thesis
    by (auto simp: sessions_ended_def gone split: sum.splits option.splits)
qed

theorem logoutAll_outcome_witness:
  "map active (tokens (committed (snd (logoutAll (auth_x plain_jwt) auth_cfg auth_fr (with_cookie ''old'') (auth_svc [])))))
     = [False, False, False]"
proof -
  let ?op = "logoutAll (auth_x plain_jwt) auth_cfg auth_fr (with_cookie ''old'') (auth_svc [])"
  have f: "presented (x_crypto (auth_x plain_jwt)) (with_cookie ''old'') auth_start = Some (tokens auth_start ! 0)"
    by code_simp
  have "sessions_ended (\<lambda>t. t_user_id t = t_user_id (tokens auth_start ! 0) \<and> active t)
      (t_user_id (tokens auth_start ! 0)) ''logout_all'' auth_start (committed (snd ?op))"
    using logoutAll_outcome [where s = "auth_svc []", OF _ _ _ surjective_pairing [of ?op]] f by simp
  then show ?thesis by (auto simp: sessions_ended_def auth_start_def sample_token_def)
qed

subsection \<open>Refresh among other replicas\<close>

text \<open>What is true of the value an operation returns when it returns, whatever the state.\<close>

definition yields :: "('a \<Rightarrow> bool) \<Rightarrow> (auth_db, 'x, 'a) dbm \<Rightarrow> bool" where
  "yields P op \<longleftrightarrow> (\<forall>s. wp op (\<lambda>r _. P r) (\<lambda>_ _. True) s)"

abbreviation returns :: "'a \<Rightarrow> (auth_db, 'x, 'a) dbm \<Rightarrow> bool" where
  "returns v \<equiv> yields (\<lambda>r. r = v)"

lemma yieldsD: "yields P op \<Longrightarrow> op s = (Inr r, s') \<Longrightarrow> P r"
  unfolding yields_def by (drule spec [of _ s]) (simp add: wp_def)

lemma yields_basic: "P v \<Longrightarrow> yields P (retM v)" "yields P (throwM e)"
  by (simp_all add: yields_def wp_simps)

lemma yields_bind:
  assumes "\<And>a. yields P (k a)"
  shows "yields P (bindM op k)"
proof -
  have "wp (k a) (\<lambda>r _. P r) (\<lambda>_ _. True) s" for a s using assms by (simp add: yields_def)
  then show ?thesis by (simp add: yields_def wp_bind) (simp add: wp_def split: prod.split sum.split)
qed

lemma yields_option: "yields P op \<Longrightarrow> (\<And>x. yields P (f x)) \<Longrightarrow> yields P (case v of None \<Rightarrow> op | Some x \<Rightarrow> f x)"
  by (cases v) simp_all

lemma yields_if: "yields P op \<Longrightarrow> yields P op' \<Longrightarrow> yields P (if b then op else op')"
  by simp

lemmas yields_rules = yields_basic(2) yields_bind yields_option yields_if

lemma wp_rest:
  assumes "guarantees auth_sessions op" and "returns v op" and "idle auth_sessions d n m s"
    and "\<And>s'. auth_rel d (committed s') \<Longrightarrow> Q v s'"
  shows "wp op Q (\<lambda>_ _. True) s"
  using guaranteesD [OF assms(1,3)] assms(2,4)
  by (auto simp: wp_def yields_def settled_def dest!: idleD split: prod.splits sum.splits)

text \<open>What a granted refresh means: the contents \<open>d\<close> its look-up of the cookie met, the contents \<open>d1\<close> its
  look-up of the user met, and those at its end.\<close>

definition grant_basis :: "auth_ext \<Rightarrow> auth_fresh \<Rightarrow> string \<Rightarrow> auth_db \<Rightarrow> rt_row \<Rightarrow> bool" where
  "grant_basis x fr raw d row \<longleftrightarrow>
     find (\<lambda>t. t_token_hash t = sha256 (x_crypto x) raw) (tokens d) = Some row \<and> af_now fr < t_expires_at row \<and>
     (active row \<or> in_grace (af_now fr) row)"

definition grant_sound ::
    "auth_ext \<Rightarrow> auth_env \<Rightarrow> auth_fresh \<Rightarrow> rt_row \<Rightarrow> auth_db \<Rightarrow> token_response \<Rightarrow> auth_db \<Rightarrow> bool" where
  "grant_sound x env fr row d1 resp d' \<longleftrightarrow>
     auth_rel d1 d' \<and>
     (\<exists>u. find (\<lambda>u. u_id u = t_user_id row) (users d1) = Some u \<and> resp = grant x env fr u) \<and>
     (\<exists>row' \<in> set (tokens d'). t_id row' = t_id row \<and> \<not> active row')"

lemma auth_rel_keeps:
  assumes "auth_rel d d'" and "auth_db_ok d" and "t \<in> set (tokens d)" and "\<not> active t"
  shows "\<exists>t' \<in> set (tokens d'). t_id t' = t_id t \<and> \<not> active t'"
  using auth_evolve_token [of d d' t] assms by (auto simp: auth_rel_def token_evolves_def)

lemma wp_refresh_grace:
  fixes s :: auth_proc
  assumes i: "idle auth_sessions d n m s" and ok: "auth_db_ok d" and row: "row \<in> set (tokens d)" "\<not> active row"
  shows "wp (refresh_grace x env fr traceId row) (\<lambda>resp s'. grant_sound x env fr row (met 0 s) resp (committed s'))
    (\<lambda>_ _. True) s"
  unfolding refresh_grace_def wp_bind findById_def
proof (rule wp_query_met [OF i])
  fix now found d' s1
  let ?d0 = "met 0 s"
  assume a: "rel auth_sessions d ?d0" "select_user_by_id (t_user_id row) now ?d0 = Inr (found, d')" "idle auth_sessions d' n m s1"
  then have d': "d' = ?d0" "auth_rel d ?d0" "found = find (\<lambda>u. u_id u = t_user_id row) (users ?d0)"
    by (auto simp: select_user_by_id_def)
  let ?tail = "\<lambda>u. let at = signAccessToken (x_jwt x) env (af_signed fr) (u_id u) (u_email u) (u_token_version u) in
     bindM (record_audit (Some (u_id u)) ''refresh'' (trace_meta traceId [(''grace'', JBool True)])) (\<lambda>_.
     retM \<lparr>tr_accessToken = at, tr_userId = u_id u\<rparr>)"
  show "wp (case found of None \<Rightarrow> throwM (Http_Error 401 ''user_not_found'') | Some u \<Rightarrow> ?tail u)
      (\<lambda>resp s'. grant_sound x env fr row (met 0 s) resp (committed s')) (\<lambda>_ _. True) s1"
  proof (cases found)
    case (Some u)
    then have u: "find (\<lambda>u. u_id u = t_user_id row) (users ?d0) = Some u" using d'(3) by simp
    have "guarantees auth_sessions (?tail u)" "returns (grant x env fr u) (?tail u)"
      unfolding Let_def by (rule guarantee)+ (rule yields_bind, rule yields_basic, simp add: grant_def)
    then show ?thesis
      unfolding Some option.case
    proof (rule wp_rest [OF _ _ a(3)])
      fix s' assume "auth_rel d' (committed s')"
      then have "auth_rel ?d0 (committed s')" "auth_rel d (committed s')" using auth_rel_trans [OF d'(2)] d'(1) by simp_all
      then show "grant_sound x env fr row (met 0 s) (grant x env fr u) (committed s')"
        using u d'(2) auth_rel_keeps [OF _ ok row] by (auto simp: grant_sound_def)
    qed
  qed (simp add: wp_throw)
qed

lemma rotated_stays_gone:
  assumes rot: "rotate_spec cr env rf (t_id row) now d1 = Inr (b, d2)" and ok: "auth_db_ok d2" and later: "auth_rel d2 d3"
  shows "\<exists>t \<in> set (tokens d3). t_id t = t_id row \<and> \<not> active t"
proof -
  obtain cur now2 g new where "cur \<in> set (tokens d1)" "t_id cur = t_id row"
    and d2: "d2 = d1\<lparr>tokens := upd_where (\<lambda>t. t_id t = t_id row) (rotated_row (rf_id rf) g now2) (tokens d1 @ [new])\<rparr>"
    using rotate_spec_Inr [OF rot] by blast
  then have "\<exists>t \<in> set (tokens d2). t_id t = t_id row \<and> \<not> active t"
    by (auto simp: d2 bex_upd_where intro!: bexI [of _ cur])
  then obtain t where "t \<in> set (tokens d2)" "t_id t = t_id row" "\<not> active t" by blast
  from auth_rel_keeps [OF later ok this(1,3)] this(2) show ?thesis by simp
qed

lemma wp_refresh_active:
  fixes s :: auth_proc
  assumes i: "idle auth_sessions d n m s" and ok: "auth_db_ok d" and row: "row \<in> set (tokens d)"
  shows "wp (refresh_active x env fr traceId row) (\<lambda>resp s'. grant_sound x env fr row (met 0 s) resp (committed s'))
    (\<lambda>_ _. True) s"
  unfolding refresh_active_def wp_bind findById_def
proof (rule wp_query_met [OF i])
  fix now found d' s1
  let ?d0 = "met 0 s"
  assume a: "rel auth_sessions d ?d0" "select_user_by_id (t_user_id row) now ?d0 = Inr (found, d')" "idle auth_sessions d' n m s1"
  then have d': "d' = ?d0" "auth_rel d ?d0" "found = find (\<lambda>u. u_id u = t_user_id row) (users ?d0)"
    by (auto simp: select_user_by_id_def)
  let ?tail = "\<lambda>u rotated. let at = signAccessToken (x_jwt x) env (af_signed fr) (u_id u) (u_email u) (u_token_version u) in
     bindM (setRtCookie env (fst rotated)) (\<lambda>_.
     bindM (record_audit (Some (u_id u)) ''refresh'' (trace_meta traceId [])) (\<lambda>_.
     bindM inc_refresh (\<lambda>_.
     retM \<lparr>tr_accessToken = at, tr_userId = u_id u\<rparr>)))"
  show "wp (case found of None \<Rightarrow> throwM (Http_Error 401 ''user_not_found'')
      | Some u \<Rightarrow> bindM (rotate (x_crypto x) env (af_rt fr) row) (?tail u))
      (\<lambda>resp s'. grant_sound x env fr row (met 0 s) resp (committed s')) (\<lambda>_ _. True) s1"
  proof (cases found)
    case (Some u)
    then have u: "find (\<lambda>u. u_id u = t_user_id row) (users ?d0) = Some u" using d'(3) by simp
    have tail: "guarantees auth_sessions (?tail u b)" "returns (grant x env fr u) (?tail u b)" for b
      unfolding Let_def by (rule guarantee)+ (intro yields_bind yields_basic, simp add: grant_def)
    show ?thesis
      unfolding Some option.case wp_bind
    proof (rule rotation.wp_run [OF a(3)])
      fix d1 now1 b d2 s2
      assume b: "rel auth_sessions d' d1" "rotate_spec (x_crypto x) env (af_rt fr) (t_id row) now1 d1 = Inr (b, d2)"
        "idle auth_sessions d2 n m s2"
      have "auth_rel ?d0 d1" using b(1) d'(1) by simp
      then have r0: "auth_rel ?d0 d2" using auth_rel_rotate [OF b(2)] by (rule auth_rel_trans)
      note r = r0 auth_rel_trans [OF d'(2) r0]
      have ok2: "auth_db_ok d2" using r(2) ok by (simp add: auth_rel_def)
      show "wp (?tail u b) (\<lambda>resp s'. grant_sound x env fr row (met 0 s) resp (committed s')) (\<lambda>_ _. True) s2"
      proof (rule wp_rest [OF tail b(3)])
        fix s' assume s': "auth_rel d2 (committed s')"
        show "grant_sound x env fr row (met 0 s) (grant x env fr u) (committed s')"
          using rotated_stays_gone [OF b(2) ok2 s'] u d'(2) auth_rel_trans [OF r(1) s'] auth_rel_trans [OF r(2) s'] by (auto simp: grant_sound_def)
      qed
    qed simp_all
  qed (simp add: wp_throw)
qed

text \<open>From the row of the presented token on.\<close>

lemma wp_refresh_row:
  fixes s :: auth_proc
  assumes i: "idle auth_sessions d n m s" and ok: "auth_db_ok d"
    and found: "find (\<lambda>t. t_token_hash t = sha256 (x_crypto x) raw) (tokens d) = Some row"
  shows "wp (if t_expires_at row \<le> af_now fr then throwM (Http_Error 401 ''expired_refresh_token'')
      else if active row then refresh_active x env fr traceId row
      else if in_grace (af_now fr) row then refresh_grace x env fr traceId row
      else refresh_reuse env traceId row)
    (\<lambda>resp s'. grant_basis x fr raw d row \<and> grant_sound x env fr row (met 0 s) resp (committed s')) (\<lambda>_ _. True) s"
proof -
  have row: "row \<in> set (tokens d)"
    using find_SomeD [of "\<lambda>t. t_token_hash t = sha256 (x_crypto x) raw" "tokens d" row] found by simp
  have reuse: "wp (refresh_reuse env traceId row) Q (\<lambda>_ _. True) s" for Q
    by (simp add: refresh_reuse_def wp_def bindM_def throwM_def split: prod.split sum.split)
  note active = wp_mono [OF wp_refresh_active [OF i ok row]]
  note grace = wp_mono [OF wp_refresh_grace [OF i ok row]]
  show ?thesis
    unfolding wp_if wp_throw
    by (intro if_bool_eq_conj [THEN iffD2] conjI impI TrueI; rule active grace reuse;
        simp add: found grant_basis_def)
qed

text \<open>C7: What a granted refresh implies, whatever the other replicas commit and whatever calls of the
  database fail. The first two calls of a refresh look up the presented cookie's hash and the owner of
  the token; \<open>met 0 s\<close> and \<open>met 1 s\<close> are the contents they meet, \<open>s\<close> with what the others have committed by
  then. If the refresh answers with an access token, the first look-up found a token that had not expired
  and was active or in grace; the access token is made of the row the second one found; and when the
  answer is given the presented token is revoked, in every later state too.\<close>

theorem refresh_granted:
  fixes s :: auth_proc
  assumes "auth_abides (script s)" and "tx s = None" and ok: "auth_db_ok (committed s)"
    and run: "refresh x env fr req s = (Inr resp, s')"
  shows "\<exists>raw row. raw_cookie req = Some raw \<and> grant_basis x fr raw (met 0 s) row \<and>
    grant_sound x env fr row (met 1 s) resp (committed s')"
proof -
  have i: "idle auth_sessions (committed s) (checked_out s) (conn.more s) s"
    using auth_abides_idle [OF assms(1,2)] by simp
  have "wp (refresh x env fr req) (\<lambda>resp s'. \<exists>raw row. raw_cookie req = Some raw \<and>
      grant_basis x fr raw (met 0 s) row \<and> grant_sound x env fr row (met 1 s) resp (committed s'))
    (\<lambda>_ _. True) s"
  proof (cases "raw_cookie req")
    case None
    then show ?thesis by (simp add: refresh_def wp_throw)
  next
    case (Some raw)
    show ?thesis
      unfolding refresh_def Let_def Some option.case wp_bind findByRaw_def
    proof (rule wp_query_met [OF i], goal_cases)
      case (1 now found d' s1)
      then have d: "d' = met 0 s" "auth_db_ok (met 0 s)"
        "found = find (\<lambda>t. t_token_hash t = sha256 (x_crypto x) raw) (tokens (met 0 s))"
        using ok by (auto simp: select_token_by_hash_def auth_rel_def)
      have later: "met 0 s1 = met 1 s" using met_later [of s1 s 0] 1(3,4) d(1) by (simp add: idleD)
      show ?case
      proof (cases found)
        case (Some row)
        note row = wp_refresh_row [OF 1(3) [unfolded d(1)] d(2) d(3) [unfolded Some, symmetric]]
        show ?thesis unfolding Some option.case by (rule wp_mono [OF row]) (use later in auto)
      qed (simp add: wp_throw)
    qed
  qed
  from wpD [OF this run] show ?thesis by simp
qed

text \<open>Two refreshes of one cookie at the same time: the other replica's rotation commits between this
  one's look-up and its transaction; both get a token, and the family has two active ones.\<close>

definition other_refresh :: "auth_db tick" where
  "other_refresh = \<lparr>others = (\<lambda>d. case rotate_spec toy_crypto auth_cfg
      \<lparr>rf_raw = ''theirs'', rf_id = ''t8'', rf_family = [], rf_now1 = 50000, rf_now2 = 50000\<rparr> ''t3'' 50000 d of
      Inl e \<Rightarrow> d | Inr (a, d') \<Rightarrow> d'), clock = 50000, fate = Runs\<rparr>"

definition undisturbed :: "auth_db tick" where
  "undisturbed = \<lparr>others = id, clock = 50000, fate = Runs\<rparr>"

lemma other_refresh_abides: "auth_abides [undisturbed, undisturbed, undisturbed, other_refresh]"
  using auth_rel_rotate by (auto simp: auth_abides_def undisturbed_def other_refresh_def split: sum.split)

theorem refresh_granted_witness:
  "\<exists>row. grant_basis (auth_x plain_jwt) auth_fr ''now''
     (met 0 (auth_svc [undisturbed, undisturbed, undisturbed, other_refresh])) row"
proof -
  let ?s = "auth_svc [undisturbed, undisturbed, undisturbed, other_refresh]"
  let ?op = "refresh (auth_x plain_jwt) auth_cfg auth_fr (with_cookie ''now'') ?s"
  have "fst ?op = Inr (grant (auth_x plain_jwt) auth_cfg auth_fr ann)" by code_simp
  from refresh_granted [OF _ _ _ run_pair [OF this]] other_refresh_abides auth_start_ok
  obtain raw row where g: "raw_cookie (with_cookie ''now'') = Some raw"
    "grant_basis (auth_x plain_jwt) auth_fr raw (met 0 ?s) row" by auto
  moreover have "raw = ''now''" using g(1) by (simp add: raw_cookie_def with_cookie_def)
  ultimately show ?thesis by auto
qed

subsection \<open>Where revocation is weaker than it says\<close>

lemma quiet_abides: "quiet s \<Longrightarrow> auth_abides (script s)"
  by (auto simp: quiet_def auth_abides_def)

lemma auth_run_ok:
  fixes s :: auth_proc
  assumes "guarantees auth_sessions op" and "auth_abides (script s)" and "tx s = None"
    and "op s = (r, s')" and "auth_db_ok (committed s)"
  shows "auth_db_ok (committed s')"
  using auth_guarantees_run [OF assms(1-3), of r s'] assms(4,5) by (simp add: auth_settled_def auth_rel_def)

text \<open>Logout-all does not end grace. It leaves the tokens alone that were already revoked, and a
  rotated token in its grace period is still accepted: after an undisturbed logout-all, a refresh
  with the token rotated last is answered with a new access token of that user, which even carries
  the raised token version, so that no version check would refuse it.\<close>

theorem grace_survives_logout_all:
  fixes s s1 s2 :: auth_proc
  assumes "quiet s" and "reliable s" and "tx s = None" and ok: "auth_db_ok (committed s)"
    and out: "logoutAll x env fr req s = (r, s1)"
    and "presented (x_crypto x) req (committed s) = Some row"
    and "t \<in> set (tokens (committed s))" and "t_user_id t = t_user_id row" and "\<not> active t"
    and "in_grace (af_now fr2) t" and "af_now fr2 < t_expires_at t"
    and "raw_cookie req2 = Some raw" and "sha256 (x_crypto x) raw = t_token_hash t"
    and "quiet s2" and "reliable s2" and "tx s2 = None" and s2: "committed s2 = committed s1"
    and "rf_id (af_rt fr2) \<notin> t_id ` set (tokens (committed s2))"
    and "sha256 (x_crypto x) (rf_raw (af_rt fr2)) \<notin> t_token_hash ` set (tokens (committed s2))"
    and run: "refresh x env fr2 req2 s2 = (r2, s3)"
  shows "\<exists>u \<in> set (users (committed s)). u_id u = t_user_id t \<and>
    r2 = Inr (grant x env fr2 (u\<lparr>u_token_version := Suc (u_token_version u)\<rparr>))"
proof -
  have ok2: "auth_db_ok (committed s2)"
    using auth_run_ok [OF guarantees_logout(2) quiet_abides [OF assms(1)] assms(3) out ok] s2 by simp
  obtain now where u: "users (committed s2) = bumped (t_user_id row) (users (committed s))"
    and t: "tokens (committed s2) = upd_where (\<lambda>t. t_user_id t = t_user_id row \<and> active t) (revoked_row now) (tokens (committed s))"
    using wpD [OF wp_logoutAll [OF calm_start [OF assms(1-3)]] out] assms(6) s2
    by (auto simp: sessions_ended_def split: sum.splits)
  have kept: "t \<in> set (tokens (committed s2))" unfolding t using assms(7,9) by (force simp: in_upd_where)
  then have "find (\<lambda>x. t_token_hash x = t_token_hash t) (tokens (committed s2)) = Some t"
    using ok2 by (intro find_distinct_eq) (simp_all add: auth_db_ok_def)
  then obtain s4 where s4: "calm (committed s2) (cookies s2) s4"
      "refresh_grace x env fr2 (resolveTraceId (rq_requestId req2) (af_trace fr2)) t s4 = (r2, s3)"
    using refresh_run [OF assms(14-16,12) run] assms(9-11,13) by (auto simp: refresh_found_def Let_def)
  have "\<exists>v \<in> set (users (committed s2)). u_id v = t_user_id t \<and> r2 = Inr (grant x env fr2 v)"
    using wpD [OF calm_refresh_grace [OF s4(1) ok2 kept] s4(2)] by (auto split: sum.splits)
  then show ?thesis
    unfolding u bumped_def bex_upd_where using assms(8) by (auto split: if_splits)
qed

theorem grace_survives_logout_all_witness:
  "\<exists>u \<in> set (users auth_start). u_id u = ''u1'' \<and>
     fst (refresh (auth_x plain_jwt) auth_cfg auth_fr (with_cookie ''recent'')
       (auth_process (committed (snd (logoutAll (auth_x plain_jwt) auth_cfg auth_fr (with_cookie ''now'') (auth_svc [])))) [])) =
     Inr (grant (auth_x plain_jwt) auth_cfg auth_fr (u\<lparr>u_token_version := Suc (u_token_version u)\<rparr>))"
proof -
  let ?out = "logoutAll (auth_x plain_jwt) auth_cfg auth_fr (with_cookie ''now'') (auth_svc [])"
  let ?s2 = "auth_process (committed (snd ?out)) []"
  let ?op = "refresh (auth_x plain_jwt) auth_cfg auth_fr (with_cookie ''recent'') ?s2"
  let ?t = "tokens auth_start ! 1"
  have f: "presented (x_crypto (auth_x plain_jwt)) (with_cookie ''now'') auth_start = Some (tokens auth_start ! 2)"
    "raw_cookie (with_cookie ''recent'') = Some ''recent''" "\<not> active ?t" "in_grace (af_now auth_fr) ?t"
    "af_now auth_fr < t_expires_at ?t" "sha256 (x_crypto (auth_x plain_jwt)) ''recent'' = t_token_hash ?t"
    "t_user_id ?t = ''u1''" "t_user_id ?t = t_user_id (tokens auth_start ! 2)"
    by code_simp+
  have g: "rf_id (af_rt auth_fr) \<notin> t_id ` set (tokens (committed ?s2))"
    "sha256 (x_crypto (auth_x plain_jwt)) (rf_raw (af_rt auth_fr)) \<notin> t_token_hash ` set (tokens (committed ?s2))"
    by code_simp+
  have m: "?t \<in> set (tokens auth_start)" by (simp add: auth_start_def)
  show ?thesis
    using grace_survives_logout_all [where s = "auth_svc []" and ?s2.0 = ?s2 and t = ?t, OF _ _ _ _ surjective_pairing [of ?out]
      _ _ f(8,3,4,5,2,6) _ _ _ _ g surjective_pairing [of ?op]] f(1,7) m auth_start_ok
    by simp
qed

text \<open>Rotation ignores revocation. The row that \<open>rotate\<close> locks is not looked at again: when the
  token was revoked after the caller read it (by a concurrent refresh, a logout or the reuse
  detection), the rotation still succeeds and leaves a new active token in the revoked family.\<close>

theorem rotate_ignores_revocation:
  assumes "quiet s" and "reliable s" and "tx s = None" and "auth_db_ok (committed s)"
    and "current \<in> set (tokens (committed s))" and "t_id current = t_id row" and "\<not> active current"
    and "rf_id fr \<notin> t_id ` set (tokens (committed s))"
    and "sha256 c (rf_raw fr) \<notin> t_token_hash ` set (tokens (committed s))"
    and "rotate c env fr row s = (r, s')"
  shows "\<exists>new. r = Inr (rf_raw fr, new) \<and> new \<in> set (tokens (committed s')) \<and> active new \<and>
    t_family_id new = t_family_id current \<and> t_user_id new = t_user_id current"
proof -
  obtain now where "case r of
      Inr a \<Rightarrow> rotate_spec c env fr (t_id row) now (committed s) = Inr (a, committed s')
    | Inl e \<Rightarrow> rotate_spec c env fr (t_id row) now (committed s) = Inl e \<and> committed s' = committed s"
    using rotation.run_reliable [OF assms(1-3,10)] by blast
  moreover obtain a d' where st: "rotate_spec c env fr (t_id current) now (committed s) = Inr (a, d')"
    using rotate_spec_fresh [OF assms(4,5,8,9)] by blast
  ultimately have "r = Inr a" "committed s' = d'" by (auto simp: assms(6) split: sum.splits)
  then show ?thesis using rotate_spec_effect [OF assms(4,5) st] by auto
qed

theorem rotate_ignores_revocation_witness:
  "\<exists>new. fst (rotate toy_crypto auth_cfg (af_rt auth_fr) (sample_token ''t2'' ''recent'' None None) (auth_svc [])) =
     Inr (''fresh'', new) \<and> t_family_id new = ''f1''"
proof -
  let ?op = "rotate toy_crypto auth_cfg (af_rt auth_fr) (sample_token ''t2'' ''recent'' None None) (auth_svc [])"
  let ?t = "tokens auth_start ! 1"
  have f: "?t \<in> set (tokens auth_start)" "t_id ?t = t_id (sample_token ''t2'' ''recent'' None None)" "\<not> active ?t"
    "rf_id (af_rt auth_fr) \<notin> t_id ` set (tokens auth_start)"
    "sha256 toy_crypto (rf_raw (af_rt auth_fr)) \<notin> t_token_hash ` set (tokens auth_start)"
    "rf_raw (af_rt auth_fr) = ''fresh''" "t_family_id ?t = ''f1''"
    by code_simp+
  from rotate_ignores_revocation [where s = "auth_svc []", OF _ _ _ _ _ f(2,3) _ _ surjective_pairing [of ?op]] f auth_start_ok
  show ?thesis by auto
qed

lemma concurrent_refreshes_fork_the_family:
  "map t_id (filter active (tokens (committed (snd (refresh (auth_x plain_jwt) auth_cfg auth_fr (with_cookie ''now'')
     (auth_svc [undisturbed, undisturbed, undisturbed, other_refresh])))))) = [''t8'', ''t9'']"
  by code_simp

end
