(* ===== verification/Guard_Properties.thy ===== *)
theory Guard_Properties
  imports Guards Auth_Safety
begin

text \<open>
  What the guards promise: an access token of the auth service opens the seat and payment services
  until it expires, whatever happens to its session meanwhile; the rate limiter is exactly a sliding
  window over the requests of a key, and a caller that chooses its x-forwarded-for header chooses
  its key.
\<close>

subsection \<open>A JWT library\<close>

text \<open>A library with the documented behaviour, for the witnesses: the fields in hexadecimal or unary,
  separated by dots.\<close>

definition nibble :: "nat \<Rightarrow> char" where
  "nibble n = ''0123456789abcdef'' ! n"

fun hex_of :: "string \<Rightarrow> string" where
  "hex_of [] = []"
| "hex_of (ch # s) = nibble (of_char ch div 16) # nibble (of_char ch mod 16) # hex_of s"

definition unary :: "int \<Rightarrow> string" where
  "unary n = (if n < 0 then CHR ''-'' # replicate (nat (- n)) (CHR ''1'') else replicate (nat n) (CHR ''1''))"

definition un_unary :: "string \<Rightarrow> int" where
  "un_unary s = (case s of [] \<Rightarrow> 0 | c # r \<Rightarrow> if c = CHR ''-'' then - int (length r) else int (length s))"

definition toy_token :: "instant \<Rightarrow> uuid \<Rightarrow> string \<Rightarrow> nat \<Rightarrow> string \<Rightarrow> int \<Rightarrow> string" where
  "toy_token now sub email tv secret ttl =
     hex_of sub @ ''.'' @ hex_of email @ ''.'' @ unary (int tv) @ ''.'' @ unary (now div 1000) @ ''.'' @
     unary ttl @ ''.'' @ hex_of secret"

definition toy_verify :: "instant \<Rightarrow> string \<Rightarrow> string \<Rightarrow> exn + access_claims" where
  "toy_verify now token secret =
     (case split_on (CHR ''.'') token of
        [sub, email, tv, iat, ttl, sec] \<Rightarrow>
          if sec = hex_of secret \<and> now div 1000 < un_unary iat + un_unary ttl
          then Inr \<lparr>jc_sub = map char_of (from_hex sub), jc_email = map char_of (from_hex email),
                 jc_tv = nat (un_unary tv), jc_iat = un_unary iat, jc_exp = un_unary iat + un_unary ttl\<rparr>
          else Inl (Js_Error ''jwt'')
      | _ \<Rightarrow> Inl (Js_Error ''jwt''))"

definition toy_jwt :: jwt_lib where
  "toy_jwt = \<lparr>jwt_sign = toy_token, jwt_verify = toy_verify\<rparr>"

lemma nibble_facts:
  assumes "n < 16"
  shows "is_hex (nibble n)" "hex_val (nibble n) = n" "lower_hex (nibble n)" "nibble n \<noteq> CHR ''.''"
proof -
  have "n \<in> {0, 1, 2, 3, 4, 5, 6, 7, 8, 9, 10, 11, 12, 13, 14, 15}"
    using assms by (auto simp: numeral_eq_Suc less_Suc_eq)
  then show "is_hex (nibble n)" "hex_val (nibble n) = n" "lower_hex (nibble n)" "nibble n \<noteq> CHR ''.''"
    by (auto simp: nibble_def is_hex_def hex_val_def lower_hex_def Let_def)
qed

lemma char_div_lt: "(of_char ch :: nat) div 16 < 16"
  using nat_of_char_less_256 [of ch] by (simp add: less_mult_imp_div_less)

lemma from_hex_of: "map char_of (from_hex (hex_of s)) = s"
  by (induction s) (simp_all add: nibble_facts char_div_lt)

lemma hex_of_chars: "ch \<in> set (hex_of s) \<Longrightarrow> \<not> is_ws ch \<and> ch \<noteq> CHR ''.''"
  by (induction s) (auto simp: nibble_facts char_div_lt lower_hex_facts)

lemma hex_of_dot [simp]: "CHR ''.'' \<notin> set (hex_of s)"
  using hex_of_chars by blast

lemma unary_dot [simp]: "CHR ''.'' \<notin> set (unary n)"
  by (auto simp: unary_def)

lemma unary_ws: "ch \<in> set (unary n) \<Longrightarrow> \<not> is_ws ch"
  by (auto simp: unary_def is_ws_def Let_def split: if_splits)

lemma un_unary [simp]: "un_unary (unary n) = n"
  by (cases "nat n") (auto simp: un_unary_def unary_def split: list.split)

lemma split_token:
  "split_on (CHR ''.'') (toy_token now sub email tv secret ttl) =
     [hex_of sub, hex_of email, unary (int tv), unary (now div 1000), unary ttl, hex_of secret]"
  by (simp add: toy_token_def split_on_append split_on_no)

lemma is_ws_range: "is_ws ch \<longleftrightarrow> (of_char ch :: nat) \<in> {9..13} \<union> {32, 160}"
  by (auto simp: is_ws_def Let_def)

lemma toy_jwt_documented: "jwt_documented toy_jwt"
proof -
  have "\<not> is_ws ch" if "ch \<in> set (toy_token now sub email tv secret ttl)" for ch now sub email tv secret ttl
    using that hex_of_chars unary_ws by (auto simp: toy_token_def) (auto simp: is_ws_def Let_def)
  then show ?thesis
    by (auto simp: jwt_documented_def toy_jwt_def toy_verify_def split_token from_hex_of is_ws_range)
qed

subsection \<open>Access tokens\<close>

lemma yields_grant:
  "yields (\<lambda>resp. \<exists>u. resp = grant x env fr u) (login x env fr req body)"
  "yields (\<lambda>resp. \<exists>u. resp = grant x env fr u) (refresh x env fr req)"
proof -
  have g: "yields (\<lambda>resp. \<exists>u. resp = grant x env fr u)
      (retM \<lparr>tr_accessToken = signAccessToken (x_jwt x) env (af_signed fr) (u_id u) (u_email u) (u_token_version u),
        tr_userId = u_id u\<rparr>)" for u :: user_row
    by (intro yields_basic exI [of _ u]) (simp add: grant_def)
  show "yields (\<lambda>resp. \<exists>u. resp = grant x env fr u) (login x env fr req body)"
    unfolding login_def Let_def by (rule yields_rules g)+
  show "yields (\<lambda>resp. \<exists>u. resp = grant x env fr u) (refresh x env fr req)"
    unfolding refresh_def refresh_active_def refresh_grace_def refresh_reuse_def Let_def by (rule yields_rules g)+
qed



subsection \<open>The rate limiter\<close>

text \<open>The rate limiter is a sliding window. For the requests of one key, sent in order to a store
  that starts without the key, a request passes if and only if at most \<open>max\<close> requests of the key,
  itself and the refused ones included, were made in the window that ends with it; so among the
  requests that passed, no window ending with one of them holds more than \<open>max\<close>.\<close>

theorem rate_limit_exact:
  assumes "0 < rl_windowMs cfg" and "in_order qs" and "\<forall>q \<in> set qs. rate_key cfg q = key"
    and "zsets r key = []"
  shows "fst (rate_run cfg qs r) =
      map (\<lambda>i. int (length (recent (rl_windowMs cfg) (rq_now (qs ! i)) (take (Suc i) qs))) \<le> rl_max cfg) [0..<length qs]
    \<and> (\<forall>i < length qs. fst (rate_run cfg qs r) ! i \<longrightarrow>
         int (card {j. j \<le> i \<and> fst (rate_run cfg qs r) ! j \<and> rq_now (qs ! i) - rl_windowMs cfg < rq_now (qs ! j)})
           \<le> rl_max cfg)"
proof -
  let ?w = "rl_windowMs cfg" and ?res = "fst (rate_run cfg qs r)"
  have res: "?res = map (\<lambda>i. int (length (recent ?w (rq_now (qs ! i)) (take (Suc i) qs))) \<le> rl_max cfg) [0..<length qs]"
    using rate_run_window [of cfg key "[]" r qs] assms by (simp add: window_ok_def)
  moreover have "int (card {j. j \<le> i \<and> ?res ! j \<and> rq_now (qs ! i) - ?w < rq_now (qs ! j)}) \<le> rl_max cfg"
    if i: "i < length qs" "?res ! i" for i
  proof -
    let ?R = "{j. j < length (take (Suc i) qs) \<and> rq_now (qs ! i) - ?w < rq_now (take (Suc i) qs ! j)}"
    have "card {j. j \<le> i \<and> ?res ! j \<and> rq_now (qs ! i) - ?w < rq_now (qs ! j)} \<le> card ?R"
      using i(1) by (intro card_mono) auto
    also have "\<dots> = length (recent ?w (rq_now (qs ! i)) (take (Suc i) qs))"
      by (simp add: recent_def length_filter_conv_card)
    finally show ?thesis using i res by simp
  qed
  ultimately show ?thesis by blast
qed

definition sample_limit :: rl_config where
  "sample_limit = \<lparr>rl_name = ''login'', rl_windowMs = 60, rl_max = 1\<rparr>"

definition sample_request :: "instant \<Rightarrow> string option \<Rightarrow> rl_request" where
  "sample_request t fwd = \<lparr>rq_forwarded = fwd, rq_addr = Some ''10.0.0.1'', rq_now = t, rq_random = ''r''\<rparr>"

definition empty_redis :: redis where
  "empty_redis = \<lparr>zsets = (\<lambda>_. []), expires = (\<lambda>_. None)\<rparr>"

theorem rate_limit_exact_witness:
  "fst (rate_run sample_limit [sample_request 0 None, sample_request 7 None, sample_request 90 None] empty_redis) =
     [True, False, True]"
proof -
  let ?qs = "[sample_request 0 None, sample_request 7 None, sample_request 90 None]"
  have "in_order ?qs" by code_simp
  moreover have "rate_key sample_limit q = ''rl:login:10.0.0.1''" if "q \<in> set ?qs" for q
    using that by (auto simp: rate_key_def client_ip_def sample_limit_def sample_request_def)
  ultimately have "fst (rate_run sample_limit ?qs empty_redis) =
      map (\<lambda>i. int (length (recent (rl_windowMs sample_limit) (rq_now (?qs ! i)) (take (Suc i) ?qs))) \<le> rl_max sample_limit)
        [0..<length ?qs]"
    using rate_limit_exact [of sample_limit ?qs "''rl:login:10.0.0.1''" empty_redis]
    by (simp add: sample_limit_def empty_redis_def)
  also have "\<dots> = [True, False, True]" by code_simp
  finally show ?thesis .
qed

text \<open>The caller chooses its key. The key is the first entry of x-forwarded-for, a header of the
  request, before the address of the connection: requests whose headers give pairwise different keys
  all pass, however many they are and however fast they come from one address.\<close>

theorem rate_limit_spoofed:
  assumes "1 \<le> rl_max cfg" and "0 < rl_windowMs cfg"
    and "distinct (map (rate_key cfg) qs)" and "\<forall>q \<in> set qs. zsets r (rate_key cfg q) = []"
  shows "fst (rate_run cfg qs r) = replicate (length qs) True"
  using assms(3,4)
proof (induction qs arbitrary: r)
  case (Cons q qs)
  obtain n r1 where w: "rate_window cfg q r = (n, r1)" by fastforce
  have n: "n = 1"
    using w Cons.prems(2) assms(2)
    by (auto simp: rate_window_def Let_def zget_def zremrangebyscore_def zadd_def zcount_def split: option.splits)
  have "\<forall>q' \<in> set qs. zsets r1 (rate_key cfg q') = []"
    using w Cons.prems by (auto simp: rate_window_def Let_def image_iff)
  then have "fst (rate_run cfg qs r1) = replicate (length qs) True" using Cons.IH Cons.prems(1) by simp
  then show ?case using assms(1) n by (cases "rate_run cfg qs r1") (simp add: rate_limit_def w Let_def)
qed simp

theorem rate_limit_spoofed_witness:
  "fst (rate_run sample_limit [sample_request 0 (Some ''a, b''), sample_request 0 (Some ''c'')] empty_redis) = [True, True]"
proof -
  let ?qs = "[sample_request 0 (Some ''a, b''), sample_request 0 (Some ''c'')]"
  have "distinct (map (rate_key sample_limit) ?qs)" by code_simp
  then show ?thesis
    using rate_limit_spoofed [of sample_limit ?qs empty_redis] by (simp add: sample_limit_def empty_redis_def)
qed

end
