(* ===== verification/Outbox_Liveness.thy ===== *)
theory Outbox_Liveness
  imports Outbox_Properties
begin

text \<open>
  The outbox worker makes progress: while its database and the broker answer, ticks one after another
  publish every row that is due, in batches of a hundred. The ticks of a run are given with the clock
  readings of their calls.
\<close>

subsection \<open>Calls that succeed, with their clock\<close>

text \<open>Nobody else commits, every call succeeds, and every clock reading lies between \<open>T\<close> and \<open>U\<close>.\<close>

definition steady where
  "steady T U s \<longleftrightarrow>
     (\<forall>t \<in> set (script s). others t = id \<and> fate t = Runs \<and> T \<le> clock t \<and> clock t \<le> U) \<and>
     T \<le> tx_now s \<and> tx_now s \<le> U"

text \<open>Moreover the broker confirms, and the connection is idle with contents \<open>d\<close>, or in a transaction with
  working copy \<open>w\<close>.\<close>

definition calm where
  "calm T U d s \<longleftrightarrow> steady T U s \<and> tx s = None \<and> committed s = d \<and> pub_fates s = []"

definition calm_tx where
  "calm_tx T U d w s \<longleftrightarrow>
     steady T U s \<and> tx s = Some w \<and> \<not> tx_failed s \<and> committed s = d \<and> pub_fates s = []"

lemmas calm_defs = calm_def calm_tx_def steady_def

lemma steady_next:
  assumes "steady T U s"
  obtains t sc where "next_tick s = (t, s\<lparr>script := sc\<rparr>)" "others t = id" "fate t = Runs"
    "T \<le> clock t" "clock t \<le> U" "steady T U (s\<lparr>script := sc\<rparr>)"
proof (cases "script s")
  case Nil
  then have "s = s\<lparr>script := []\<rparr>" by (cases s) simp
  then show ?thesis using that [of "\<lparr>others = id, clock = tx_now s, fate = Runs\<rparr>" "[]"] Nil assms
    by (simp add: next_tick_def steady_def)
next
  case (Cons t ts)
  then show ?thesis using that [of t ts] assms by (simp add: next_tick_def steady_def)
qed

lemma calm_steady: "calm T U d s \<Longrightarrow> steady T U s" "calm_tx T U d w s \<Longrightarrow> steady T U s"
  by (simp_all add: calm_def calm_tx_def)

lemma calm_connect:
  assumes "calm T U d s" and "\<And>s'. calm T U d s' \<Longrightarrow> Q () s'"
  shows "wp connect Q E s"
  by (rule steady_next [OF calm_steady(1) [OF assms(1)]], insert assms(1),
    simp add: wp_def connect_def calm_def, rule assms(2), simp add: calm_defs)

lemma calm_begin:
  assumes "calm T U d s" and "\<And>s'. calm_tx T U d d s' \<Longrightarrow> Q () s'"
  shows "wp begin_tx Q E s"
  by (rule steady_next [OF calm_steady(1) [OF assms(1)]], insert assms(1),
    simp add: wp_def begin_tx_def calm_def Let_def, rule assms(2), simp add: calm_defs)

lemma calm_query_tx:
  assumes "calm_tx T U d w s"
    and "\<And>now. T \<le> now \<Longrightarrow> now \<le> U \<Longrightarrow> \<exists>a w'. st now w = Inr (a, w') \<and> (\<forall>s'. calm_tx T U d w' s' \<longrightarrow> Q a s')"
  shows "wp (query st) Q E s"
proof -
  obtain a w' where "st (tx_now s) w = Inr (a, w')" "\<forall>s'. calm_tx T U d w' s' \<longrightarrow> Q a s'"
    using assms(1) assms(2) [of "tx_now s"] by (auto simp: calm_defs)
  note st = this(1) and Q = this(2) [rule_format]
  show ?thesis
    by (rule steady_next [OF calm_steady(2) [OF assms(1)]], insert assms(1) st,
      simp add: wp_def query_def calm_tx_def, rule Q, simp add: calm_defs)
qed

lemma calm_autocommit:
  assumes "calm T U d s"
    and "\<And>now. T \<le> now \<Longrightarrow> now \<le> U \<Longrightarrow> \<exists>a d'. st now d = Inr (a, d') \<and> (\<forall>s'. calm T U d' s' \<longrightarrow> Q a s')"
  shows "wp (query st) Q E s"
proof (rule steady_next [OF calm_steady(1) [OF assms(1)]])
  fix t sc
  assume t: "next_tick s = (t, s\<lparr>script := sc\<rparr>)" "others t = id" "fate t = Runs" "T \<le> clock t" "clock t \<le> U"
    "steady T U (s\<lparr>script := sc\<rparr>)"
  obtain a d' where "st (clock t) d = Inr (a, d')" "\<forall>s'. calm T U d' s' \<longrightarrow> Q a s'"
    using assms(2) [OF t(4,5)] by auto
  note st = this(1) and Q = this(2) [rule_format]
  show ?thesis
    by (insert assms(1) t st, simp add: wp_def query_def calm_def Let_def, rule Q, simp add: calm_defs)
qed

lemma calm_commit:
  assumes "calm_tx T U d w s" and "\<And>s'. calm T U w s' \<Longrightarrow> Q () s'"
  shows "wp commit_tx Q E s"
  by (rule steady_next [OF calm_steady(2) [OF assms(1)]], insert assms(1),
    simp add: wp_def commit_tx_def calm_tx_def, rule assms(2), simp add: calm_defs)

lemma calm_rollback:
  assumes "calm_tx T U d w s" and "\<And>s'. calm T U d s' \<Longrightarrow> Q () s'"
  shows "wp rollback_tx Q E s"
  by (rule steady_next [OF calm_steady(2) [OF assms(1)]], insert assms(1),
    simp add: wp_def rollback_tx_def calm_tx_def, rule assms(2), simp add: calm_defs)

lemma calm_publish:
  "calm T U d s \<Longrightarrow> (\<And>s'. calm T U d s' \<Longrightarrow> Q True s') \<Longrightarrow> wp (publish msg) Q E s"
  by (simp add: wp_def publish_def calm_defs)

subsection \<open>One tick\<close>

definition without_ids where
  "without_ids ids d = d\<lparr>outbox := filter (\<lambda>r. o_id r \<notin> ids) (outbox d)\<rparr>"

lemma calm_process_row:
  assumes "calm T U d s" and "\<And>s'. calm T U (without_ids {o_id row} d) s' \<Longrightarrow> Q () s'"
  shows "wp (process_row exch row) Q E s"
  unfolding process_row_def wp_bind wp_try
  by (rule calm_publish [OF assms(1)], simp, erule calm_autocommit)
    (simp add: delete_outbox_def without_ids_def [symmetric, of "{o_id row}", simplified] assms(2))

lemma calm_process_rows:
  assumes "calm T U d s" and "\<And>s'. calm T U (without_ids (o_id ` set rows) d) s' \<Longrightarrow> Q () s'"
  shows "wp (forM rows (process_row exch)) Q E s"
  using assms
proof (induction rows arbitrary: d s)
  case Nil
  then show ?case by (simp add: wp_ret without_ids_def)
next
  case (Cons row rows)
  have eq: "without_ids (o_id ` set rows) (without_ids {o_id row} d) = without_ids (o_id ` set (row # rows)) d"
    by (simp add: without_ids_def conj_commute)
  show ?case
    unfolding forM.simps wp_bind
    by (rule calm_process_row [OF Cons.prems(1)], rule Cons.IH, assumption) (simp only: eq Cons.prems(2))
qed

text \<open>What a tick leaves: the rows after recovery at one instant, without the batch due at another.\<close>

definition batch :: "instant \<Rightarrow> outbox_row list \<Rightarrow> outbox_row list" where
  "batch now rows =
     take 100 (sort_key o_next_attempt_at (filter (\<lambda>r. o_state r = PENDING \<and> o_next_attempt_at r \<le> now) rows))"

definition recovered :: "instant \<Rightarrow> outbox_row list \<Rightarrow> outbox_row list" where
  "recovered now = upd_where (\<lambda>r. o_state r = PROCESSING \<and> o_next_attempt_at r < now - 300000)
     (\<lambda>r. r\<lparr>o_state := PENDING, o_next_attempt_at := now\<rparr>)"

definition ticked :: "instant \<Rightarrow> instant \<Rightarrow> outbox_row list \<Rightarrow> outbox_row list \<Rightarrow> bool" where
  "ticked T U rows rows' \<longleftrightarrow>
     (\<exists>c now. T \<le> c \<and> c \<le> U \<and> T \<le> now \<and> now \<le> U \<and>
        rows' = filter (\<lambda>r. o_id r \<notin> o_id ` set (batch now (recovered c rows))) (recovered c rows))"

lemma outbox_without_marked:
  "outbox (without_ids ids (d\<lparr>outbox := upd_where (\<lambda>r. o_id r \<in> ids) (\<lambda>r. r\<lparr>o_state := PROCESSING\<rparr>) (outbox d)\<rparr>)) =
     filter (\<lambda>r. o_id r \<notin> ids) (outbox d)"
proof -
  have "filter (\<lambda>r. o_id r \<notin> ids) (upd_where (\<lambda>r. o_id r \<in> ids) (\<lambda>r. r\<lparr>o_state := PROCESSING\<rparr>) rows) =
      filter (\<lambda>r. o_id r \<notin> ids) rows" for rows
    by (induction rows) (auto simp: upd_where_def)
  then show ?thesis by (simp add: without_ids_def)
qed

text \<open>The part of the tick from BEGIN on.\<close>

abbreviation tick_tx where
  "tick_tx exch \<equiv>
     bindM begin_tx (\<lambda>_. bindM (query (select_pending (\<lambda>_. False))) (\<lambda>rows.
        if rows = [] then rollback_tx
        else bindM (query (mark_processing (map o_id rows))) (\<lambda>_. bindM commit_tx (\<lambda>_.
          forM rows (process_row exch)))))"

lemma calm_tick_tx:
  fixes s :: "('m outbox_db_scheme, 'x outbox_proc_ext) conn_scheme"
  assumes "calm T U d s"
    and Q: "\<And>now d' s'. T \<le> now \<Longrightarrow> now \<le> U \<Longrightarrow> calm T U d' s' \<Longrightarrow>
      outbox d' = filter (\<lambda>r. o_id r \<notin> o_id ` set (batch now (outbox d))) (outbox d) \<Longrightarrow> Q () s'"
  shows "wp (tick_tx exch) Q E s"
  unfolding wp_bind
proof (rule calm_begin [OF assms(1)], rule calm_query_tx, assumption, intro exI conjI allI impI)
  fix now and s' :: "('m outbox_db_scheme, 'x outbox_proc_ext) conn_scheme"
  assume now: "T \<le> now" "now \<le> U"
  let ?rows = "batch now (outbox d)" and ?ids = "o_id ` set (batch now (outbox d))"
  show "select_pending (\<lambda>_. False) now d = Inr (?rows, d)" by (simp add: select_pending_def batch_def)
  assume tx: "calm_tx T U d d s'"
  let ?d2 = "d\<lparr>outbox := upd_where (\<lambda>r. o_id r \<in> ?ids) (\<lambda>r. r\<lparr>o_state := PROCESSING\<rparr>) (outbox d)\<rparr>"
  have "wp rollback_tx Q E s'" if "?rows = []"
    by (rule calm_rollback [OF tx], rule Q [OF now], assumption) (simp add: that)
  moreover have "wp (query (mark_processing (map o_id ?rows)))
      (\<lambda>a. wp commit_tx (\<lambda>a. wp (forM ?rows (process_row exch)) Q E) E) E s'"
  proof (rule calm_query_tx [OF tx], intro exI conjI allI impI)
    show "mark_processing (map o_id ?rows) now' d = Inr ((), ?d2)" for now'
      by (simp add: mark_processing_def update_outbox_def)
    show "wp commit_tx (\<lambda>a. wp (forM ?rows (process_row exch)) Q E) E s2" if "calm_tx T U d ?d2 s2"
      for s2 :: "('m outbox_db_scheme, 'x outbox_proc_ext) conn_scheme"
      by (rule calm_commit [OF that], rule calm_process_rows, assumption, rule Q [OF now], assumption)
        (rule outbox_without_marked)
  qed
  ultimately show "wp (if ?rows = [] then rollback_tx
      else bindM (query (mark_processing (map o_id ?rows))) (\<lambda>_. bindM commit_tx (\<lambda>_.
        forM ?rows (process_row exch)))) Q E s'"
    unfolding wp_if wp_bind by simp
qed

lemma calm_tick:
  fixes s :: "('m outbox_db_scheme, 'x outbox_proc_ext) conn_scheme"
  assumes "calm T U d s" and "\<not> w_running s" and "outbox_tick exch (\<lambda>_. False) s = (r, s')"
  shows "ticked T U (outbox d) (outbox (committed s')) \<and> tx s' = None \<and> pub_fates s' = [] \<and> \<not> w_running s'"
proof -
  let ?Q = "\<lambda>s'. ticked T U (outbox d) (outbox (committed s')) \<and> tx s' = None \<and> pub_fates s' = [] \<and> \<not> w_running s'"
  have c: "calm T U d (s\<lparr>w_running := True\<rparr>)" using assms(1) by (simp add: calm_defs)
  have body: "wp (bindM (query recover_stuck) (\<lambda>_. tick_tx exch))
      (\<lambda>_ s'. ?Q ((release s')\<lparr>w_running := False\<rparr>)) (\<lambda>_ _. False) s1"
    if "calm T U d s1" for s1 :: "('m outbox_db_scheme, 'x outbox_proc_ext) conn_scheme"
    unfolding wp_bind [of "query recover_stuck"]
  proof (rule calm_autocommit [OF that], intro exI conjI allI impI)
    fix c and s2 :: "('m outbox_db_scheme, 'x outbox_proc_ext) conn_scheme"
    assume now: "T \<le> c" "c \<le> U"
    show "recover_stuck c d = Inr ((), d\<lparr>outbox := recovered c (outbox d)\<rparr>)"
      by (simp add: recover_stuck_def update_outbox_def recovered_def)
    assume "calm T U (d\<lparr>outbox := recovered c (outbox d)\<rparr>) s2"
    then show "wp (tick_tx exch)
      (\<lambda>_ s'. ?Q ((release s')\<lparr>w_running := False\<rparr>)) (\<lambda>_ _. False) s2"
      by (rule calm_tick_tx) (use now in \<open>auto simp: ticked_def release_def calm_def\<close>)
  qed
  have "wp (outbox_tick exch (\<lambda>_. False)) (\<lambda>_. ?Q) (\<lambda>_ _. False) s"
    unfolding outbox_tick_def with_conn_def wp_bind [of "getsM w_running"]
      wp_bind [of "modifyM _"] wp_bind [of connect] wp_gets wp_modify wp_finally wp_if
    by (simp only: assms(2) if_False) (rule calm_connect [OF c], erule body)
  from wpD [OF this assms(3)] show ?thesis by (simp split: sum.splits)
qed

subsection \<open>What a tick does for the rows that are due\<close>

definition due_by :: "instant \<Rightarrow> outbox_row \<Rightarrow> bool" where
  "due_by T r \<longleftrightarrow>
     o_state r = PENDING \<and> o_next_attempt_at r \<le> T \<or>
     o_state r = PROCESSING \<and> o_next_attempt_at r < T - 300000"

definition waiting :: "instant \<Rightarrow> nat set \<Rightarrow> outbox_row list \<Rightarrow> bool" where
  "waiting T ids rows \<longleftrightarrow>
     (\<forall>r \<in> set rows. o_id r \<in> ids \<longrightarrow> o_state r = PENDING \<and> o_next_attempt_at r \<le> T)"

lemma recovered_ids [simp]: "map o_id (recovered c rows) = map o_id rows"
  unfolding recovered_def by (rule map_upd_where_key) simp

lemma in_recovered:
  "r \<in> set (recovered c rows) \<Longrightarrow> \<exists>r0 \<in> set rows. o_id r = o_id r0 \<and>
     (if o_state r0 = PROCESSING \<and> o_next_attempt_at r0 < c - 300000
      then o_state r = PENDING \<and> o_next_attempt_at r = c else r = r0)"
  by (auto simp: recovered_def in_upd_where)

lemma waiting_recovered:
  assumes "waiting T ids rows"
  shows "waiting T ids (recovered c rows)"
  unfolding waiting_def
proof (intro ballI impI)
  fix r assume "r \<in> set (recovered c rows)" and "o_id r \<in> ids"
  then obtain r0 where r0: "r0 \<in> set rows" "o_id r = o_id r0"
    "if o_state r0 = PROCESSING \<and> o_next_attempt_at r0 < c - 300000
      then o_state r = PENDING \<and> o_next_attempt_at r = c else r = r0" using in_recovered by blast
  then have "o_state r0 = PENDING \<and> o_next_attempt_at r0 \<le> T"
    using assms \<open>o_id r \<in> ids\<close> by (simp add: waiting_def)
  then show "o_state r = PENDING \<and> o_next_attempt_at r \<le> T" using r0(3) by simp
qed

lemma length_without:
  assumes "distinct (map o_id rows)" and "set bs \<subseteq> set rows" and "distinct bs"
  shows "length (filter (\<lambda>r. o_id r \<notin> o_id ` set bs) rows) + length bs \<le> length rows"
proof -
  have "length bs = card (set bs)" using assms(3) by (simp add: distinct_card)
  also have "\<dots> \<le> card (set (filter (\<lambda>r. o_id r \<in> o_id ` set bs) rows))"
    using assms(2) by (intro card_mono) auto
  also have "\<dots> \<le> length (filter (\<lambda>r. o_id r \<in> o_id ` set bs) rows)" by (rule card_length)
  finally show ?thesis
    using sum_length_filter_compl [of "\<lambda>r. o_id r \<in> o_id ` set bs" rows] by simp
qed

lemma batch_rows: "set (batch now rows) \<subseteq> set rows" "distinct rows \<Longrightarrow> distinct (batch now rows)"
  by (auto simp: batch_def dest: in_set_takeD)

text \<open>Either all waiting rows are gone, or a full batch is.\<close>

lemma ticked_waiting:
  assumes "ticked T U rows rows'" and "waiting T ids rows" and "distinct (map o_id rows)"
  shows "waiting T ids rows' \<and> distinct (map o_id rows') \<and> o_id ` set rows' \<subseteq> o_id ` set rows \<and>
    ((\<forall>r \<in> set rows'. o_id r \<notin> ids) \<or> length rows' + 100 \<le> length rows)"
proof -
  obtain c now where c: "T \<le> now"
    and rows': "rows' = filter (\<lambda>r. o_id r \<notin> o_id ` set (batch now (recovered c rows))) (recovered c rows)"
    using assms(1) by (auto simp: ticked_def)
  let ?R = "recovered c rows"
  let ?D = "filter (\<lambda>r. o_state r = PENDING \<and> o_next_attempt_at r \<le> now) ?R"
  have w: "waiting T ids ?R" using assms(2) by (rule waiting_recovered)
  have d: "distinct (map o_id ?R)" using assms(3) by simp
  have "(\<forall>r \<in> set rows'. o_id r \<notin> ids) \<or> length rows' + 100 \<le> length rows"
  proof (cases "length ?D \<le> 100")
    case True
    then have "set (batch now ?R) = set ?D" by (simp add: batch_def)
    then have "o_id r \<notin> ids" if "r \<in> set rows'" for r
      using that w c by (fastforce simp: rows' waiting_def)
    then show ?thesis by blast
  next
    case False
    then have "length (batch now ?R) = 100" by (simp add: batch_def)
    moreover have "length ?R = length rows" using recovered_ids by (metis length_map)
    moreover have "distinct (batch now ?R)" using d batch_rows(2) distinct_map by blast
    ultimately have "length rows' + 100 \<le> length rows"
      using length_without [OF d batch_rows(1) [of now]] by (simp add: rows')
    then show ?thesis ..
  qed
  moreover have "o_id ` set ?R = o_id ` set rows" using recovered_ids by (metis list.set_map)
  moreover have "waiting T ids rows'" using w by (simp add: rows' waiting_def)
  moreover have "distinct (map o_id rows')" using d by (simp add: rows' distinct_map_filter)
  ultimately show ?thesis by (auto simp: rows')
qed

text \<open>After one tick the rows that were due are gone or wait as PENDING.\<close>

lemma ticked_due:
  assumes "ticked T U rows rows'" and "distinct (map o_id rows)"
  shows "waiting U (o_id ` {r \<in> set rows. due_by T r}) rows' \<and> distinct (map o_id rows') \<and>
    o_id ` set rows' \<subseteq> o_id ` set rows \<and> length rows' \<le> length rows"
proof -
  obtain c now where c: "T \<le> c" "c \<le> U"
    and rows': "rows' = filter (\<lambda>r. o_id r \<notin> o_id ` set (batch now (recovered c rows))) (recovered c rows)"
    using assms(1) by (auto simp: ticked_def)
  have "waiting U (o_id ` {r \<in> set rows. due_by T r}) (recovered c rows)"
    unfolding waiting_def
  proof (intro ballI impI)
    fix r assume "r \<in> set (recovered c rows)" and "o_id r \<in> o_id ` {r \<in> set rows. due_by T r}"
    then obtain r0 r1 where r0: "r0 \<in> set rows" "o_id r = o_id r0"
      "if o_state r0 = PROCESSING \<and> o_next_attempt_at r0 < c - 300000
       then o_state r = PENDING \<and> o_next_attempt_at r = c else r = r0"
      and r1: "r1 \<in> set rows" "due_by T r1" "o_id r = o_id r1" using in_recovered by fastforce
    have "r1 = r0" using assms(2) r0(1,2) r1(1,3) by (auto simp: distinct_map dest: inj_onD)
    then show "o_state r = PENDING \<and> o_next_attempt_at r \<le> U"
      using r0(3) r1(2) c by (auto simp: due_by_def split: if_splits)
  qed
  moreover have "o_id ` set (recovered c rows) = o_id ` set rows" using recovered_ids by (metis list.set_map)
  moreover have "length rows' \<le> length rows"
    unfolding rows' using length_filter_le recovered_ids by (metis length_map)
  ultimately show ?thesis
    using assms(2) by (auto simp: rows' waiting_def distinct_map_filter)
qed

subsection \<open>A run of ticks\<close>

text \<open>A round: the server's clock when the tick starts, and the script of its calls.\<close>

type_synonym 'd round = "instant \<times> 'd tick list"

fun outbox_ticks where
  "outbox_ticks exch [] s = s"
| "outbox_ticks exch ((c, sc) # rest) s =
     outbox_ticks exch rest (snd (outbox_tick exch (\<lambda>_. False) (s\<lparr>tx_now := c, script := sc\<rparr>)))"

text \<open>Nobody disturbs a round, its calls succeed, and the clock is never behind the rounds before.\<close>

fun calm_rounds :: "instant \<Rightarrow> 'd round list \<Rightarrow> bool" where
  "calm_rounds T [] = True"
| "calm_rounds T ((c, sc) # rest) =
     ((\<forall>t \<in> set sc. others t = id \<and> fate t = Runs) \<and> (\<forall>x \<in> set (c # map clock sc). T \<le> x) \<and>
      calm_rounds (Max (set (c # map clock sc))) rest)"

definition ready where
  "ready d0 msgs0 exch s \<longleftrightarrow> tx s = None \<and> pub_fates s = [] \<and> \<not> w_running s \<and>
     distinct (map o_id (outbox (committed s))) \<and> carrying exch {} d0 msgs0 {} (committed s) (sent s)"

lemma round_calm:
  assumes "calm_rounds T ((c, sc) # rest)" and "tx s = None" "pub_fates s = []"
  shows "calm T (Max (set (c # map clock sc))) (committed s) (s\<lparr>tx_now := c, script := sc\<rparr>)"
proof -
  have "x \<le> Max (set (c # map clock sc))" if "x \<in> set (c # map clock sc)" for x
    using that by (intro Max_ge) simp_all
  then show ?thesis using assms by (simp add: calm_def steady_def)
qed

lemma round_step:
  fixes s :: "('m outbox_db_scheme, 'x outbox_proc_ext) conn_scheme"
  assumes r: "calm_rounds T ((c, sc) # rest)" and s: "ready d0 msgs0 exch s"
    and s1: "s1 = snd (outbox_tick exch (\<lambda>_. False) (s\<lparr>tx_now := c, script := sc\<rparr>))"
  shows "ticked T (Max (set (c # map clock sc))) (outbox (committed s)) (outbox (committed s1)) \<and> ready d0 msgs0 exch s1"
proof -
  let ?s = "s\<lparr>tx_now := c, script := sc\<rparr>"
  obtain a where a: "outbox_tick exch (\<lambda>_. False) ?s = (a, s1)" using s1 by (metis prod.collapse)
  have s': "tx s = None" "pub_fates s = []" "\<not> w_running ?s" "distinct (map o_id (outbox (committed s)))"
    "carrying exch {} d0 msgs0 {} (committed s) (sent ?s)" using s by (simp_all add: ready_def)
  have t: "ticked T (Max (set (c # map clock sc))) (outbox (committed s)) (outbox (committed s1))"
    "tx s1 = None" "pub_fates s1 = []" "\<not> w_running s1"
    using calm_tick [OF round_calm [OF r s'(1,2)] s'(3) a] by simp_all
  have "idle (appending {}) (committed s) (checked_out s) (conn.more ?s) ?s"
    using r s'(1) appending_preorder [of "{}"] by (auto simp: conn_state_defs)
  from carry.tick_run [OF this s'(5,3) a] have "carrying exch {} d0 msgs0 {} (committed s1) (sent s1)" by simp
  moreover have "distinct (map o_id (outbox (committed s1)))" using ticked_due [OF t(1) s'(4)] by simp
  ultimately show ?thesis using t by (simp add: ready_def)
qed

lemma rounds_waiting:
  fixes s :: "('m outbox_db_scheme, 'x outbox_proc_ext) conn_scheme"
  assumes "calm_rounds T ws" and "ready d0 msgs0 exch s" and "waiting T ids (outbox (committed s))"
    and "length (outbox (committed s)) \<le> 100 * length ws \<or> (\<forall>r \<in> set (outbox (committed s)). o_id r \<notin> ids)"
  shows "ready d0 msgs0 exch (outbox_ticks exch ws s) \<and> (\<forall>r \<in> set (outbox (committed (outbox_ticks exch ws s))). o_id r \<notin> ids)"
  using assms
proof (induction ws arbitrary: T s)
  case Nil
  then show ?case by auto
next
  case (Cons w ws)
  obtain c sc where w: "w = (c, sc)" by (cases w)
  define U where "U = Max (set (c # map clock sc))"
  define s1 where "s1 = snd (outbox_tick exch (\<lambda>_. False) (s\<lparr>tx_now := c, script := sc\<rparr>))"
  have 1: "ticked T U (outbox (committed s)) (outbox (committed s1))" "ready d0 msgs0 exch s1"
    using round_step [OF Cons.prems(1) [unfolded w] Cons.prems(2) s1_def] by (simp_all add: U_def)
  have d: "distinct (map o_id (outbox (committed s)))" using Cons.prems(2) by (simp add: ready_def)
  note 2 = ticked_waiting [OF 1(1) Cons.prems(3) d]
  have "T \<le> U" using Cons.prems(1) by (auto simp: w U_def Max_ge_iff)
  then have "waiting U ids (outbox (committed s1))" using 2 by (fastforce simp: waiting_def)
  moreover have "calm_rounds U ws" using Cons.prems(1) by (simp add: w U_def)
  moreover have "length (outbox (committed s1)) \<le> 100 * length ws \<or> (\<forall>r \<in> set (outbox (committed s1)). o_id r \<notin> ids)"
    using 2 Cons.prems(4) by force
  ultimately show ?case using Cons.IH [OF _ 1(2)] by (simp add: w s1_def)
qed

subsection \<open>The outbox drains\<close>

text \<open>C22: The outbox drains. Let the worker tick again and again while its database and the broker answer,
  no other session commits and the server's clock does not go backwards. A row of the table that is
  due when the run starts, or has been PROCESSING for more than five minutes, has been published in
  the run and deleted when one tick more has been run than there are hundreds of rows in the table.\<close>

theorem outbox_drains:
  fixes s :: "('m outbox_db_scheme, 'x outbox_proc_ext) conn_scheme"
  assumes "outbox_ok (committed s)" and "tx s = None" and "\<not> w_running s" and "pub_fates s = []"
    and "calm_rounds T (w # ws)" and "length (outbox (committed s)) \<le> 100 * length ws"
    and "row \<in> set (outbox (committed s))" and "due_by T row"
  shows "message_of exch row \<in> set (drop (length (sent s)) (sent (outbox_ticks exch (w # ws) s))) \<and>
    (\<forall>r \<in> set (outbox (committed (outbox_ticks exch (w # ws) s))). o_id r \<noteq> o_id row)"
proof -
  obtain c sc where w: "w = (c, sc)" by (cases w)
  define U where "U = Max (set (c # map clock sc))"
  define s1 where "s1 = snd (outbox_tick exch (\<lambda>_. False) (s\<lparr>tx_now := c, script := sc\<rparr>))"
  define s2 where "s2 = outbox_ticks exch ws s1"
  let ?ids = "o_id ` {r \<in> set (outbox (committed s)). due_by T r}"
  have d: "distinct (map o_id (outbox (committed s)))" using assms(1) by (simp add: outbox_ok_def)
  have "ready (committed s) (sent s) exch s"
    using assms(1-4) d by (simp add: ready_def carrying_def carried_refl)
  note 1 = round_step [OF assms(5) [unfolded w] this s1_def, folded U_def]
  note 2 = ticked_due [OF 1 [THEN conjunct1] d]
  have "calm_rounds U ws" using assms(5) by (simp add: w U_def)
  then have "ready (committed s) (sent s) exch s2" "\<forall>r \<in> set (outbox (committed s2)). o_id r \<notin> ?ids"
    using rounds_waiting [of U ws "committed s" "sent s" exch s1 ?ids] 1 2 assms(6) by (auto simp: s2_def)
  moreover have "o_id row \<in> ?ids" using assms(7,8) by blast
  ultimately have "carrying exch {} (committed s) (sent s) {} (committed s2) (sent s2)"
    and gone: "\<forall>r \<in> set (outbox (committed s2)). o_id r \<noteq> o_id row"
    by (simp add: ready_def, metis)
  then obtain ms where ms: "sent s2 = sent s @ ms" and c2: "carried exch (committed s) (committed s2) ms"
    by (auto simp: carrying_def)
  have "ev_of row \<in> evs (committed s)" using assms(7) by (simp add: evs_def)
  moreover have "ev_of row \<notin> evs (committed s2)"
    using gone by (auto simp: evs_def ev_of_def)
  ultimately have "message_ev exch (ev_of row) \<in> set ms" using c2 by (auto simp: carried_def)
  then show ?thesis using gone by (simp add: ms w s1_def [symmetric] s2_def [symmetric] message_ev_of)
qed

theorem outbox_drains_witness:
  "message_of seat_exchange (demo_row 1 0 0) \<in>
     set (sent (outbox_ticks seat_exchange [(1000, []), (2000, [])] (demo_worker [demo_row 1 0 0] [] [])))"
proof -
  have "outbox_ok (committed (demo_worker [demo_row 1 0 0] [] []))" by (simp add: outbox_ok_def demo_row_def)
  moreover have "due_by 1000 (demo_row 1 0 0)" by code_simp
  ultimately have "message_of seat_exchange (demo_row 1 0 0) \<in>
     set (drop (length (sent (demo_worker [demo_row 1 0 0] [] [])))
       (sent (outbox_ticks seat_exchange [(1000, []), (2000, [])] (demo_worker [demo_row 1 0 0] [] []))))"
    by (intro outbox_drains [where T = 1000, THEN conjunct1]) simp_all
  then show ?thesis by simp
qed

end
