(* ===== verification/Js_Number.thy ===== *)
theory Js_Number
  imports Psp
begin

text \<open>
  \<open>Number(text)\<close> of ECMAScript, which \<open>z.coerce.number()\<close> applies to the process environment: the
  grammar of StringNumericLiteral on Latin-1 text and rounding to the nearest double, ties to even.
\<close>

subsection \<open>Doubles\<close>

text \<open>\<open>Finite neg m e\<close> is the number of magnitude m * 2^e.\<close>

datatype js_num = NaN | Infinite bool | Finite bool int int

text \<open>The length of a number in binary.\<close>

function bits :: "int \<Rightarrow> int" where
  "bits n = (if n \<le> 0 then 0 else 1 + bits (n div 2))"
  by pat_completeness auto
termination
  by (relation "measure nat") auto

declare bits.simps [simp del]

text \<open>n / d rounded to an integer, ties to even.\<close>

definition round_div :: "int \<Rightarrow> int \<Rightarrow> int" where
  "round_div n d =
     (let q = n div d; r = n mod d in
      if d < 2 * r \<or> 2 * r = d \<and> odd q then q + 1 else q)"

text \<open>The double nearest to n / d: 53 significant bits, exponent at least -1074; None is overflow.\<close>

definition to_double :: "int \<Rightarrow> int \<Rightarrow> (int \<times> int) option" where
  "to_double n d =
     (if n = 0 then Some (0, 0)
      else
        let e0 = bits n - bits d - 53;
            e1 = (if 2 ^ 53 \<le> (n * 2 ^ nat (- e0)) div (d * 2 ^ nat e0) then e0 + 1 else e0);
            e = max e1 (- 1074);
            m = round_div (n * 2 ^ nat (- e)) (d * 2 ^ nat e)
        in if 1024 < bits m + e then None else Some (m, e))"

text \<open>\<open>Number.isInteger\<close>, and the integer.\<close>

definition integral :: "int \<Rightarrow> int \<Rightarrow> int option" where
  "integral m e =
     (if 0 \<le> e then Some (m * 2 ^ nat e)
      else if 2 ^ nat (- e) dvd m then Some (m div 2 ^ nat (- e)) else None)"

subsection \<open>The grammar\<close>

definition radix_value :: "int \<Rightarrow> string \<Rightarrow> int" where
  "radix_value b ds = foldl (\<lambda>n c. b * n + int (hex_val c)) 0 ds"

definition signed :: "string \<Rightarrow> bool \<times> string" where
  "signed s = (case s of [] \<Rightarrow> (False, [])
     | c # r \<Rightarrow> if c = CHR ''-'' then (True, r) else if c = CHR ''+'' then (False, r) else (False, s))"

text \<open>StrUnsignedDecimalLiteral but Infinity: digits and power of ten.\<close>

definition parse_decimal :: "string \<Rightarrow> (int \<times> int) option" where
  "parse_decimal s =
     (let ip = takeWhile is_digit s; rest = dropWhile is_digit s;
          fp = (case rest of [] \<Rightarrow> [] | c # r \<Rightarrow> if c = CHR ''.'' then takeWhile is_digit r else []);
          ep = (case rest of [] \<Rightarrow> [] | c # r \<Rightarrow> if c = CHR ''.'' then dropWhile is_digit r else rest)
      in
      if ip = [] \<and> fp = [] then None
      else
        case ep of
          [] \<Rightarrow> Some (radix_value 10 (ip @ fp), - int (length fp))
        | c # r \<Rightarrow>
            (case signed r of (neg, ds) \<Rightarrow>
               if c \<in> {CHR ''e'', CHR ''E''} \<and> ds \<noteq> [] \<and> list_all is_digit ds
               then Some (radix_value 10 (ip @ fp),
                     (if neg then - radix_value 10 ds else radix_value 10 ds) - int (length fp))
               else None))"

definition finite_num :: "bool \<Rightarrow> int \<Rightarrow> int \<Rightarrow> js_num" where
  "finite_num neg n d = (case to_double n d of None \<Rightarrow> Infinite neg | Some (m, e) \<Rightarrow> Finite neg m e)"

definition parse_radix :: "int \<Rightarrow> (char \<Rightarrow> bool) \<Rightarrow> string \<Rightarrow> js_num" where
  "parse_radix b ok ds =
     (if ds \<noteq> [] \<and> list_all ok ds then finite_num False (radix_value b ds) 1 else NaN)"

definition js_Number :: "string \<Rightarrow> js_num" where
  "js_Number s =
     (let t = trim s; p = take 2 t; ds = drop 2 t in
      if t = [] then Finite False 0 0
      else if p \<in> {''0x'', ''0X''} then parse_radix 16 is_hex ds
      else if p \<in> {''0o'', ''0O''} then parse_radix 8 (\<lambda>c. c \<in> set ''01234567'') ds
      else if p \<in> {''0b'', ''0B''} then parse_radix 2 (\<lambda>c. c \<in> set ''01'') ds
      else
        (case signed t of (neg, u) \<Rightarrow>
           if u = ''Infinity'' then Infinite neg
           else
             (case parse_decimal u of
                None \<Rightarrow> NaN
              | Some (m, k) \<Rightarrow> finite_num neg (m * 10 ^ nat k) (10 ^ nat (- k)))))"

lemma js_Number_ex:
  "js_Number ''42'' = Finite False 5910974510923776 (-47)" "js_Number [] = Finite False 0 0"
  "js_Number ''12px'' = NaN" "js_Number ''-Infinity'' = Infinite True"
  "js_Number ''0.5'' = Finite False 4503599627370496 (-53)" "js_Number '' 0x10 '' = js_Number ''1.6e1''"
  "js_Number ''9007199254740993'' = js_Number ''9007199254740992''"
  by code_simp+

subsection \<open>Natural numbers below 2^53 are read exactly\<close>

lemma bits_one [simp]: "bits 1 = 1" "bits 0 = 0"
  by code_simp+

lemma bits_nonneg: "0 \<le> bits n"
  by (induction n rule: bits.induct) (subst bits.simps, simp)

lemma bits_bound: "n < 2 ^ k \<Longrightarrow> bits n \<le> int k"
proof (induction k arbitrary: n)
  case 0
  then show ?case by (subst bits.simps) simp
next
  case (Suc k)
  have "n div 2 < 2 ^ k" using Suc.prems by simp
  from Suc.IH [OF this] show ?case by (subst bits.simps) simp
qed

lemma round_div_one [simp]: "round_div n 1 = n"
  by (simp add: round_div_def)

lemma to_double_exact:
  assumes "0 < n" and "n < 2 ^ 53"
  shows "\<exists>m e. to_double n 1 = Some (m, e) \<and> integral m e = Some n"
proof -
  let ?e0 = "bits n - bits 1 - 53"
  let ?e = "max (if 2 ^ 53 \<le> (n * 2 ^ nat (- ?e0)) div (1 * 2 ^ nat ?e0) then ?e0 + 1 else ?e0) (- 1074)"
  have b: "bits n \<le> 53" "0 \<le> bits n" using bits_bound [of n 53] assms(2) bits_nonneg by simp_all
  then have e: "?e \<le> 0" "- ?e \<le> 54" by (auto simp: max_def)
  then have m: "round_div (n * 2 ^ nat (- ?e)) (1 * 2 ^ nat ?e) = n * 2 ^ nat (- ?e)" by simp
  have "n * 2 ^ nat (- ?e) < 2 ^ 53 * 2 ^ 54"
    using assms e(2) by (intro mult_less_le_imp_less power_increasing) simp_all
  then have "bits (n * 2 ^ nat (- ?e)) \<le> int 107"
    by (intro bits_bound) (simp only: power_add [symmetric], simp)
  then have "\<not> 1024 < bits (n * 2 ^ nat (- ?e)) + ?e" using e(1) by linarith
  then have "to_double n 1 = Some (n * 2 ^ nat (- ?e), ?e)"
    using assms(1) by (simp only: to_double_def Let_def m if_False) simp
  moreover have "integral (n * 2 ^ nat (- ?e)) ?e = Some n"
    using e(1) by (cases "?e = 0") (simp_all add: integral_def)
  ultimately show ?thesis by blast
qed

text \<open>The text \<open>String(n)\<close> gives is read back.\<close>

lemma digit_cases: "n < 10 \<Longrightarrow> n \<in> {0, 1, 2, 3, 4, 5, 6, 7, 8, 9 :: nat}"
  by auto

lemma digit_char_is: "is_digit (digit_char n)" "int (hex_val (digit_char n)) = n mod 10"
proof -
  have "nat (n mod 10) < 10" by simp
  from digit_cases [OF this] have "is_digit (digit_char n) \<and> hex_val (digit_char n) = nat (n mod 10)"
    unfolding digit_char_def by (elim insertE emptyE) (simp_all add: is_digit_def hex_val_def)
  then show "is_digit (digit_char n)" "int (hex_val (digit_char n)) = n mod 10" by simp_all
qed

declare digits.simps [simp del]

lemma digits_step: "digits n = (if n < 10 then [] else digits (n div 10)) @ [digit_char (int n)]"
  by (rule digits.simps)

lemma digits_all: "list_all is_digit (digits n)" "digits n \<noteq> []"
  by (induction n rule: digits.induct) (subst digits_step, simp add: digit_char_is)+

lemma radix_digits: "radix_value 10 (digits n) = int n"
proof (induction n rule: digits.induct)
  case (1 n)
  then show ?case
    by (subst digits_step) (auto simp: radix_value_def digit_char_is zdiv_int zmod_int)
qed

lemma trim_digits:
  assumes "list_all is_digit s" and "s \<noteq> []"
  shows "trim s = s"
proof -
  have ws: "\<not> is_ws c" if "is_digit c" for c using that by (auto simp: is_digit_def is_ws_def)
  then have "\<not> is_ws (hd s)" "\<not> is_ws (hd (rev s))"
    using assms by (simp_all add: list_all_iff hd_rev)
  then have "dropWhile is_ws s = s" "dropWhile is_ws (rev s) = rev s"
    by (simp_all add: dropWhile_eq_self_iff)
  then show ?thesis by (simp add: trim_def)
qed

lemma js_Number_digits:
  assumes "list_all is_digit s" and "s \<noteq> []"
  shows "js_Number s = finite_num False (radix_value 10 s) 1"
proof -
  have d: "is_digit c" if "c \<in> set s" for c using assms(1) that by (simp add: list_all_iff)
  obtain c r where s: "s = c # r" using assms(2) by (cases s) auto
  have "take 2 s \<notin> {''0x'', ''0X'', ''0o'', ''0O'', ''0b'', ''0B''}"
    using d by (cases r) (auto simp: s is_digit_def)
  moreover have "signed s = (False, s)" "s \<noteq> ''Infinity''"
    using d [of c] by (auto simp: s signed_def is_digit_def)
  moreover have "parse_decimal s = Some (radix_value 10 s, 0)"
  proof -
    have "takeWhile is_digit s = s" "dropWhile is_digit s = []"
      using d by (simp_all add: takeWhile_eq_all_conv dropWhile_eq_Nil_conv)
    then show ?thesis using assms(2) by (simp only: parse_decimal_def Let_def) simp
  qed
  ultimately show ?thesis
    by (simp add: js_Number_def Let_def trim_digits [OF assms] assms(2))
qed

lemma js_Number_int_string:
  assumes "0 < n" and "n < 2 ^ 53"
  shows "\<exists>m e. js_Number (int_string n) = Finite False m e \<and> integral m e = Some n"
proof -
  have "js_Number (int_string n) = finite_num False n 1"
    using assms(1) js_Number_digits [OF digits_all] by (simp add: int_string_def radix_digits)
  then show ?thesis using to_double_exact [OF assms] by (auto simp: finite_num_def)
qed

end
