(* ===== verification/Rabbit.thy ===== *)
theory Rabbit
  imports Outbox_Worker Contracts
begin

text \<open>
  RabbitService of the seat and payment services (events/rabbit.service.ts): connecting with retries,
  the exchanges, queues and bindings each service declares, the memoised \<open>connecting\<close> promise, and
  the wrapper around a consumer's handler. The broker is what the declarations make of it; topic
  patterns are the two the code uses, a literal key and \<open>#\<close>.
\<close>

subsection \<open>The broker\<close>

record broker =
  b_exchanges :: "string list"
  b_queues :: "(string \<times> string option) list"
  b_bindings :: "(string \<times> string \<times> string) list"

datatype amqp_op =
    Create_Confirm_Channel
  | Assert_Exchange string
  | Create_Channel
  | Assert_Queue string "string option"
  | Bind_Queue string string string
  | Close_Channel

text \<open>A declaration that agrees with what is there changes nothing; one that does not is an error, and
  so is a binding to something that does not exist.\<close>

definition amqp_exec :: "amqp_op \<Rightarrow> broker \<Rightarrow> exn + broker" where
  "amqp_exec op b =
     (case op of
        Assert_Exchange x \<Rightarrow> Inr (if x \<in> set (b_exchanges b) then b else b\<lparr>b_exchanges := b_exchanges b @ [x]\<rparr>)
      | Assert_Queue q dlx \<Rightarrow>
          (case map_of (b_queues b) q of
             None \<Rightarrow> Inr (b\<lparr>b_queues := b_queues b @ [(q, dlx)]\<rparr>)
           | Some dlx' \<Rightarrow> if dlx' = dlx then Inr b else Inl (Js_Error ''PRECONDITION_FAILED''))
      | Bind_Queue q x k \<Rightarrow>
          if map_of (b_queues b) q = None \<or> x \<notin> set (b_exchanges b) then Inl (Js_Error ''NOT_FOUND'')
          else Inr (if (q, x, k) \<in> set (b_bindings b) then b else b\<lparr>b_bindings := b_bindings b @ [(q, x, k)]\<rparr>)
      | _ \<Rightarrow> Inr b)"

definition topic_matches :: "string \<Rightarrow> string \<Rightarrow> bool" where
  "topic_matches pattern key \<longleftrightarrow> pattern = ''#'' \<or> pattern = key"

definition route :: "broker \<Rightarrow> string \<Rightarrow> string \<Rightarrow> string list" where
  "route b x key = map fst (filter (\<lambda>(q, x', k). x' = x \<and> topic_matches k key) (b_bindings b))"

text \<open>Where a message of queue \<open>q\<close> goes when it is rejected without requeue.\<close>

definition dead_letters :: "broker \<Rightarrow> string \<Rightarrow> string \<Rightarrow> string list" where
  "dead_letters b q key =
     (case map_of (b_queues b) q of Some (Some dlx) \<Rightarrow> route b dlx key | _ \<Rightarrow> [])"

subsection \<open>What each service declares\<close>

definition dlx_of :: "string \<Rightarrow> string" where "dlx_of exchange = exchange @ ''.dlx''"

definition dlq_of :: "string \<Rightarrow> string" where "dlq_of queue = queue @ ''.dlq''"

definition routing_key :: "string \<Rightarrow> string" where
  "routing_key name = the (map_of ROUTING_KEYS name)"

definition seat_topology :: "amqp_op list" where
  "seat_topology =
     [Create_Confirm_Channel,
      Assert_Exchange SEAT_EVENTS,
      Assert_Exchange PAYMENT_EVENTS,
      Assert_Exchange (dlx_of PAYMENT_EVENTS),
      Create_Channel,
      Assert_Queue SEAT_PAYMENT_EVENTS (Some (dlx_of PAYMENT_EVENTS)),
      Bind_Queue SEAT_PAYMENT_EVENTS PAYMENT_EVENTS (routing_key ''PAYMENT_SUCCEEDED''),
      Bind_Queue SEAT_PAYMENT_EVENTS PAYMENT_EVENTS (routing_key ''PAYMENT_FAILED''),
      Assert_Queue (dlq_of SEAT_PAYMENT_EVENTS) None,
      Bind_Queue (dlq_of SEAT_PAYMENT_EVENTS) (dlx_of PAYMENT_EVENTS) ''#'',
      Close_Channel]"

definition payment_topology :: "amqp_op list" where
  "payment_topology =
     [Create_Confirm_Channel,
      Assert_Exchange SEAT_EVENTS,
      Assert_Exchange PAYMENT_EVENTS,
      Assert_Exchange (dlx_of SEAT_EVENTS),
      Create_Channel,
      Assert_Queue PAYMENT_SEAT_EVENTS (Some (dlx_of SEAT_EVENTS)),
      Bind_Queue PAYMENT_SEAT_EVENTS SEAT_EVENTS (routing_key ''SEAT_RELEASED''),
      Assert_Queue (dlq_of PAYMENT_SEAT_EVENTS) None,
      Bind_Queue (dlq_of PAYMENT_SEAT_EVENTS) (dlx_of SEAT_EVENTS) ''#'',
      Close_Channel]"

subsection \<open>connect\<close>

text \<open>
  The service's fields: is there a connection, is there a publishing channel, and the outcome of the
  promise \<open>connecting\<close> (None inside: it was fulfilled). Calls that overlap await the same promise, so
  a call sees its outcome.
\<close>

record rabbit =
  rb_conn :: bool
  rb_pubChannel :: bool
  rb_connecting :: "exn option option"
  rb_broker :: broker

text \<open>\<open>for (let attempt = 1; ; attempt++)\<close>: \<open>tries n\<close> is the outcome of the n-th \<open>amqp.connect\<close>; the result
  is the error of the last attempt, if it failed, and the milliseconds waited.\<close>

function try_connect :: "nat \<Rightarrow> (nat \<Rightarrow> exn option) \<Rightarrow> exn option \<times> int" where
  "try_connect attempt tries =
     (case tries attempt of
        None \<Rightarrow> (None, 0)
      | Some e \<Rightarrow>
          if 10 \<le> attempt then (Some e, 0)
          else (case try_connect (attempt + 1) tries of (r, waited) \<Rightarrow> (r, 2000 * int attempt + waited)))"
  by pat_completeness auto

termination
  by (relation "measure (\<lambda>(attempt, tries). 10 - attempt)") auto

declare try_connect.simps [simp del]

text \<open>The declarations one after the other; \<open>faults\<close> gives the error of each call, if it fails.\<close>

fun declare_all :: "amqp_op list \<Rightarrow> exn option list \<Rightarrow> rabbit \<Rightarrow> (exn + unit) \<times> rabbit" where
  "declare_all [] faults rb = (Inr (), rb)"
| "declare_all (op # ops) faults rb =
     (case (case faults of Some e # fs \<Rightarrow> Inl e | _ \<Rightarrow> amqp_exec op (rb_broker rb)) of
        Inl e \<Rightarrow> (Inl e, rb)
      | Inr b \<Rightarrow> declare_all ops (tl faults)
          (rb\<lparr>rb_broker := b, rb_pubChannel := rb_pubChannel rb \<or> op = Create_Confirm_Channel\<rparr>))"

definition doConnect ::
    "amqp_op list \<Rightarrow> (nat \<Rightarrow> exn option) \<Rightarrow> exn option list \<Rightarrow> rabbit \<Rightarrow> (exn + unit) \<times> rabbit" where
  "doConnect topology tries faults rb =
     (case fst (try_connect 1 tries) of
        Some e \<Rightarrow> (Inl e, rb)
      | None \<Rightarrow> declare_all topology faults (rb\<lparr>rb_conn := True\<rparr>))"

definition rabbit_connect ::
    "amqp_op list \<Rightarrow> (nat \<Rightarrow> exn option) \<Rightarrow> exn option list \<Rightarrow> rabbit \<Rightarrow> (exn + unit) \<times> rabbit" where
  "rabbit_connect topology tries faults rb =
     (if rb_conn rb then (Inr (), rb)
      else
        (case rb_connecting rb of
           Some None \<Rightarrow> (Inr (), rb)
         | Some (Some e) \<Rightarrow> (Inl e, rb)
         | None \<Rightarrow>
             (case doConnect topology tries faults rb of
                (Inl e, rb') \<Rightarrow> (Inl e, rb'\<lparr>rb_connecting := Some (Some e)\<rparr>)
              | (Inr u, rb') \<Rightarrow> (Inr (), rb'\<lparr>rb_connecting := Some None\<rparr>))))"

definition seat_doConnect where "seat_doConnect = doConnect seat_topology"

definition payment_doConnect where "payment_doConnect = doConnect payment_topology"

text \<open>The start of \<open>publish\<close>: connect if there is no channel, then use it; using a channel that is still
  null throws a TypeError.\<close>

definition publish_channel ::
    "amqp_op list \<Rightarrow> (nat \<Rightarrow> exn option) \<Rightarrow> exn option list \<Rightarrow> rabbit \<Rightarrow> (exn + unit) \<times> rabbit" where
  "publish_channel topology tries faults rb =
     (case (if rb_pubChannel rb then (Inr (), rb) else rabbit_connect topology tries faults rb) of
        (Inl e, rb') \<Rightarrow> (Inl e, rb')
      | (Inr u, rb') \<Rightarrow> (if rb_pubChannel rb' then Inr () else Inl (Js_Error ''TypeError''), rb'))"

definition new_rabbit :: "broker \<Rightarrow> rabbit" where
  "new_rabbit b = \<lparr>rb_conn = False, rb_pubChannel = False, rb_connecting = None, rb_broker = b\<rparr>"

definition empty_broker :: broker where
  "empty_broker = \<lparr>b_exchanges = [], b_queues = [], b_bindings = []\<rparr>"

text \<open>The callback of \<open>consume\<close>: a cancelled consumer's null message is ignored, an exception of the
  handler puts the message back.\<close>

definition consume_message ::
    "(string \<Rightarrow> ('d, 'x, settle) dbm) \<Rightarrow> string option \<Rightarrow> ('d, 'x, settle option) dbm" where
  "consume_message handler msg =
     (case msg of
        None \<Rightarrow> retM None
      | Some content \<Rightarrow>
          try_catch (bindM (handler content) (\<lambda>v. retM (Some v))) (\<lambda>e. retM (Some (Nack True))))"

text \<open>
  \<open>onModuleDestroy\<close>: what it closes. \<open>pub_close\<close> and \<open>conn_close\<close> are the errors of the two calls; the first
  one ends the \<open>try\<close>, and nothing is thrown.
\<close>

datatype rabbit_part = Pub_Channel | Connection

definition rabbit_destroy :: "exn option \<Rightarrow> exn option \<Rightarrow> rabbit \<Rightarrow> rabbit_part list" where
  "rabbit_destroy pub_close conn_close rb =
     (let conn = (if rb_conn rb \<and> conn_close = None then [Connection] else []) in
      if \<not> rb_pubChannel rb then conn
      else if pub_close = None then Pub_Channel # conn
      else [])"

text \<open>The copy of the payment service: its own topology, the rest the same.\<close>

definition payment_rabbit_connect ::
    "(nat \<Rightarrow> exn option) \<Rightarrow> exn option list \<Rightarrow> rabbit \<Rightarrow> (exn + unit) \<times> rabbit" where
  "payment_rabbit_connect = rabbit_connect payment_topology"

definition payment_publish :: "pub_msg \<Rightarrow> ('d, 'x outbox_proc_ext, bool) dbm" where
  "payment_publish = publish"

definition payment_consume_message ::
    "(string \<Rightarrow> ('d, 'x, settle) dbm) \<Rightarrow> string option \<Rightarrow> ('d, 'x, settle option) dbm" where
  "payment_consume_message = consume_message"

definition payment_rabbit_destroy :: "exn option \<Rightarrow> exn option \<Rightarrow> rabbit \<Rightarrow> rabbit_part list" where
  "payment_rabbit_destroy = rabbit_destroy"

subsection \<open>Properties\<close>

lemma try_connect_all_fail:
  assumes "\<forall>n \<in> {attempt..10}. tries n \<noteq> None" and "1 \<le> attempt" and "attempt \<le> 10"
  shows "try_connect attempt tries = (tries 10, (\<Sum>k = attempt..<10. 2000 * int k))"
  using assms
proof (induction attempt tries rule: try_connect.induct)
  case (1 attempt tries)
  obtain e where e: "tries attempt = Some e" using 1(2,4) by force
  show ?case
  proof (cases "attempt = 10")
    case True
    then show ?thesis using e by (simp add: try_connect.simps)
  next
    case False
    then have "try_connect (attempt + 1) tries = (tries 10, (\<Sum>k = attempt + 1..<10. 2000 * int k))"
      using 1 e by simp
    moreover have "(\<Sum>k = attempt..<10. 2000 * int k) = 2000 * int attempt + (\<Sum>k = attempt + 1..<10. 2000 * int k)"
      using False 1(4) by (simp add: sum.atLeast_Suc_lessThan)
    ultimately show ?thesis using False 1(4) e by (subst try_connect.simps) simp
  qed
qed

lemma try_connect_succeeds:
  assumes "tries n = None" and "\<forall>k \<in> {attempt..<n}. tries k \<noteq> None" and "attempt \<le> n" and "n \<le> 10"
  shows "try_connect attempt tries = (None, (\<Sum>k = attempt..<n. 2000 * int k))"
  using assms
proof (induction attempt tries rule: try_connect.induct)
  case (1 attempt tries)
  show ?case
  proof (cases "attempt = n")
    case True
    then show ?thesis using 1(2) by (simp add: try_connect.simps)
  next
    case False
    then obtain e where e: "tries attempt = Some e" using 1(3,4) by force
    have "try_connect (attempt + 1) tries = (None, (\<Sum>k = attempt + 1..<n. 2000 * int k))"
      using 1 e False by simp
    moreover have "(\<Sum>k = attempt..<n. 2000 * int k) = 2000 * int attempt + (\<Sum>k = attempt + 1..<n. 2000 * int k)"
      using False 1(4) by (simp add: sum.atLeast_Suc_lessThan)
    ultimately show ?thesis using False 1(4,5) e by (subst try_connect.simps) simp
  qed
qed

lemma try_connect_ends:
  "if \<exists>n \<in> {1..10}. tries n = None
   then (\<exists>n \<in> {1..10}. tries n = None \<and> filter (\<lambda>k. tries k = None) [1..<n] = [] \<and>
          try_connect 1 tries = (None, 1000 * int n * (int n - 1)))
   else tries 10 \<noteq> None \<and> try_connect 1 tries = (tries 10, 90000)"
proof (cases "\<exists>n \<in> {1..10}. tries n = None")
  case True
  define n where "n = (LEAST n. 1 \<le> n \<and> tries n = None)"
  obtain m where m: "1 \<le> m \<and> tries m = None" "m \<le> 10" using True by auto
  have n: "1 \<le> n \<and> tries n = None" using LeastI [of "\<lambda>n. 1 \<le> n \<and> tries n = None", OF m(1)] by (simp add: n_def)
  have le: "n \<le> 10" using Least_le [of "\<lambda>n. 1 \<le> n \<and> tries n = None", OF m(1)] m(2) by (simp add: n_def)
  have before: "tries k \<noteq> None" if "1 \<le> k" "k < n" for k
    using not_less_Least [of k "\<lambda>n. 1 \<le> n \<and> tries n = None"] that by (auto simp: n_def)
  have "(\<Sum>k = 1..<j. 2000 * int k) = 1000 * int j * (int j - 1)" if "1 \<le> j" for j
    using that by (induction j rule: nat_induct_at_least) (simp_all add: algebra_simps)
  from this [of n] n have "try_connect 1 tries = (None, 1000 * int n * (int n - 1))"
    using try_connect_succeeds [of tries n 1] n le before by simp
  then show ?thesis using True n le before by (auto simp: filter_empty_conv intro!: bexI [of _ n])
next
  case False
  then have "try_connect 1 tries = (tries 10, (\<Sum>k = 1..<10. 2000 * int k))"
    by (intro try_connect_all_fail) auto
  moreover have "(\<Sum>k = 1..<10. 2000 * int k) = 90000" by code_simp
  moreover have "tries 10 \<noteq> None" using False by auto
  ultimately show ?thesis unfolding if_not_P [OF False] by simp
qed

lemma try_connect_up: "fst (try_connect 1 tries) = None \<longleftrightarrow> (\<exists>n \<in> {1..10}. tries n = None)"
proof (cases "\<exists>n \<in> {1..10}. tries n = None")
  case True
  then show ?thesis using try_connect_ends [of tries] by auto
next
  case False
  then have "tries 10 \<noteq> None" "try_connect 1 tries = (tries 10, 90000)"
    using try_connect_ends [of tries] by (simp_all only: if_False simp_thms)
  then show ?thesis using False by (simp only: fst_conv simp_thms)
qed

text \<open>C34: Connecting ends. It takes at most ten attempts, whatever the broker does: the first attempt
  that succeeds ends it, after waits of 2, 4, 6 and so on seconds, and when the first ten fail it
  gives up with the tenth error after waiting 90 seconds in all.\<close>

theorem connect_ends:
  "if \<exists>n \<in> {1..10}. tries n = None
   then (\<exists>n \<in> {1..10}. tries n = None \<and> filter (\<lambda>k. tries k = None) [1..<n] = [] \<and>
          try_connect 1 tries = (None, 1000 * int n * (int n - 1)))
   else tries 10 \<noteq> None \<and> try_connect 1 tries = (tries 10, 90000)"
  by (rule try_connect_ends)

text \<open>Connecting is tried once in the life of a process: whatever came of the first call, every later one
  attempts nothing and changes nothing. It reports success exactly if one of the first ten attempts
  succeeded, even if a declaration failed then.\<close>

lemma connect_repeats:
  assumes "rabbit_connect topology tries faults (new_rabbit b) = (r, rb)"
  shows "rabbit_connect topology tries2 faults2 rb =
    (case fst (try_connect 1 tries) of None \<Rightarrow> Inr () | Some e \<Rightarrow> Inl e, rb)"
proof -
  have conn: "declare_all ops fs rb0 = (r0, rb1) \<Longrightarrow> rb_conn rb1 = rb_conn rb0" for ops fs rb0 r0 rb1
    by (induction ops fs rb0 rule: declare_all.induct) (auto split: sum.splits)
  show ?thesis
    using assms
    by (cases "fst (try_connect 1 tries)")
      (auto simp: rabbit_connect_def doConnect_def new_rabbit_def dest!: conn split: prod.splits sum.splits)
qed

lemma failed_declaration:
  "\<exists>e rb. rabbit_connect seat_topology (\<lambda>_. None) [None, None, Some (Js_Error ''boom'')] (new_rabbit empty_broker) = (Inl e, rb) \<and>
     b_queues (rb_broker rb) = []"
  by (simp add: rabbit_connect_def doConnect_def new_rabbit_def try_connect.simps seat_topology_def
      amqp_exec_def empty_broker_def)

definition both_declared :: broker where
  "both_declared = rb_broker (snd (declare_all payment_topology []
     (snd (declare_all seat_topology [] (new_rabbit empty_broker)))))"

text \<open>C32: The events of the contracts reach their consumers. Once both services have declared what they
  need, an event published by either outbox worker is routed to exactly the queue of its consumer:
  payment events to the seat service, released seats to the payment service; held and reserved seats
  go nowhere. A message a consumer rejects ends in the dead-letter queue of its own queue. Declaring
  everything again, as every replica and every restart does, succeeds and changes nothing.\<close>

theorem events_reach_their_consumers:
  "route both_declared (seat_exchange (event_schema ev)) (strip_version (event_schema ev)) =
     (case ev of
        SeatHeld _ _ _ _ _ _ _ \<Rightarrow> []
      | SeatReleased _ _ _ _ \<Rightarrow> [PAYMENT_SEAT_EVENTS]
      | SeatReserved _ _ _ _ \<Rightarrow> []
      | PaymentSucceeded _ _ _ _ _ _ _ _ \<Rightarrow> [SEAT_PAYMENT_EVENTS]
      | PaymentFailed _ _ _ _ _ _ \<Rightarrow> [SEAT_PAYMENT_EVENTS]) \<and>
   payment_exchange (event_schema ev) = seat_exchange (event_schema ev) \<and>
   dead_letters both_declared SEAT_PAYMENT_EVENTS key = [dlq_of SEAT_PAYMENT_EVENTS] \<and>
   dead_letters both_declared PAYMENT_SEAT_EVENTS key = [dlq_of PAYMENT_SEAT_EVENTS] \<and>
   fst (declare_all seat_topology [] (new_rabbit both_declared)) = Inr () \<and>
   rb_broker (snd (declare_all seat_topology [] (new_rabbit both_declared))) = both_declared \<and>
   fst (declare_all payment_topology [] (new_rabbit both_declared)) = Inr () \<and>
   rb_broker (snd (declare_all payment_topology [] (new_rabbit both_declared))) = both_declared"
proof -
  have keys: "strip_version ''seat.held.v1'' = ''seat.held''" "strip_version ''seat.released.v1'' = ''seat.released''"
    "strip_version ''seat.reserved.v1'' = ''seat.reserved''" "strip_version ''payment.succeeded.v1'' = ''payment.succeeded''"
    "strip_version ''payment.failed.v1'' = ''payment.failed''"
    by code_simp+
  have b: "both_declared =
     \<lparr>b_exchanges = [''seat.events'', ''payment.events'', ''payment.events.dlx'', ''seat.events.dlx''],
      b_queues = [(''seat.payment-events'', Some ''payment.events.dlx''), (''seat.payment-events.dlq'', None),
        (''payment.seat-events'', Some ''seat.events.dlx''), (''payment.seat-events.dlq'', None)],
      b_bindings = [(''seat.payment-events'', ''payment.events'', ''payment.succeeded''),
        (''seat.payment-events'', ''payment.events'', ''payment.failed''),
        (''seat.payment-events.dlq'', ''payment.events.dlx'', ''#''),
        (''payment.seat-events'', ''seat.events'', ''seat.released''),
        (''payment.seat-events.dlq'', ''seat.events.dlx'', ''#'')]\<rparr>"
    by code_simp
  have again: "fst (declare_all seat_topology [] (new_rabbit both_declared)) = Inr () \<and>
    rb_broker (snd (declare_all seat_topology [] (new_rabbit both_declared))) = both_declared"
    "fst (declare_all payment_topology [] (new_rabbit both_declared)) = Inr () \<and>
    rb_broker (snd (declare_all payment_topology [] (new_rabbit both_declared))) = both_declared"
    by code_simp+
  show ?thesis
    using again
    by (cases ev) (simp_all add: b keys route_def dead_letters_def topic_matches_def seat_exchange_def
      payment_exchange_def starts_with_def SEAT_EVENTS_def PAYMENT_EVENTS_def SEAT_PAYMENT_EVENTS_def
      PAYMENT_SEAT_EVENTS_def dlq_of_def)
qed

end
