(* ===== verification/Migrations.thy ===== *)
theory Migrations
  imports Guarantee Psp "HOL-Library.List_Lexorder" "HOL-Library.Char_ord"
begin

text \<open>
  The migration runner that the three services share (migrations/run.ts, the same file in each):
  which files it applies, in which order, how it splits a file into statements, and one transaction
  per file. What PostgreSQL does with the text of a statement is the parameter \<open>ex\<close>, a function on
  the schema \<open>'s\<close>; the directory and the contents of its files are parameters too.
\<close>

subsection \<open>The files\<close>

definition ends_with :: "string \<Rightarrow> string \<Rightarrow> bool" where
  "ends_with p s \<longleftrightarrow> length p \<le> length s \<and> drop (length s - length p) s = p"

definition migration_files :: "string list \<Rightarrow> string list" where
  "migration_files dir = sort (filter (ends_with ''.sql'') dir)"

text \<open>\<open>sql.split(/;\\s*\\n/g)\<close>: a semicolon and the white space after it, up to its last line feed.\<close>

abbreviation lf :: char where "lf \<equiv> char_of (10 :: nat)"

definition after_lf :: "string \<Rightarrow> string" where
  "after_lf ws = rev (takeWhile (\<lambda>c. c \<noteq> lf) (rev ws))"

lemma length_after_lf: "length (after_lf ws) \<le> length ws"
  using length_takeWhile_le [of "\<lambda>c. c \<noteq> lf" "rev ws"] by (simp add: after_lf_def)

function split_sql :: "string \<Rightarrow> string list" where
  "split_sql [] = [[]]"
| "split_sql (c # s) =
     (if c = CHR '';'' \<and> lf \<in> set (takeWhile is_ws s)
      then [] # split_sql (after_lf (takeWhile is_ws s) @ dropWhile is_ws s)
      else (case split_sql s of [] \<Rightarrow> [[c]] | w # ws \<Rightarrow> (c # w) # ws))"
  by pat_completeness auto

termination
proof (relation "measure length", goal_cases)
  case (2 c s)
  have "length (after_lf (takeWhile is_ws s)) + length (dropWhile is_ws s) \<le> length s"
    using length_after_lf [of "takeWhile is_ws s"]
    by (metis add_le_mono1 length_append takeWhile_dropWhile_id)
  then show ?case by simp
qed simp_all

definition sql_statements :: "string \<Rightarrow> string list" where
  "sql_statements sql = filter (\<lambda>s. s \<noteq> []) (map trim (split_sql sql))"

lemma sql_statements_ex:
  "sql_statements (''CREATE a;'' @ [lf, lf] @ ''  INSERT b; c'' @ '';'' @ [lf]) = [''CREATE a'', ''INSERT b; c'']"
  by code_simp

subsection \<open>The database\<close>

record 's mig_db =
  applied :: "string list option"
  schema :: 's

definition create_migrations :: "('s mig_db, unit) stmt" where
  "create_migrations now d =
     Inr ((), case applied d of None \<Rightarrow> d\<lparr>applied := Some []\<rparr> | Some fs \<Rightarrow> d)"

definition select_applied :: "('s mig_db, string list) stmt" where
  "select_applied now d =
     (case applied d of None \<Rightarrow> Inl (Db_Error ''42P01'' []) | Some fs \<Rightarrow> Inr (fs, d))"

definition exec_sql :: "(string \<Rightarrow> 's \<Rightarrow> exn + 's) \<Rightarrow> string \<Rightarrow> ('s mig_db, unit) stmt" where
  "exec_sql ex sql now d =
     (case ex sql (schema d) of Inl e \<Rightarrow> Inl e | Inr sc \<Rightarrow> Inr ((), d\<lparr>schema := sc\<rparr>))"

definition insert_applied :: "string \<Rightarrow> ('s mig_db, unit) stmt" where
  "insert_applied filename now d =
     (case applied d of
        None \<Rightarrow> Inl (Db_Error ''42P01'' [])
      | Some fs \<Rightarrow>
          if filename \<in> set fs then Inl (unique_violation ''_migrations_pkey'')
          else Inr ((), d\<lparr>applied := Some (fs @ [filename])\<rparr>))"

subsection \<open>The runner\<close>

definition runSqlBlock :: "(string \<Rightarrow> 's \<Rightarrow> exn + 's) \<Rightarrow> string \<Rightarrow> ('s mig_db, 'x, unit) dbm" where
  "runSqlBlock ex sql = forM (sql_statements sql) (\<lambda>stmt. query (exec_sql ex stmt))"

definition migrate_file :: "(string \<Rightarrow> 's \<Rightarrow> exn + 's) \<Rightarrow> string \<Rightarrow> string \<Rightarrow> ('s mig_db, 'x, unit) dbm" where
  "migrate_file ex filename sql =
     bindM begin_tx (\<lambda>_.
     try_catch
       (bindM (runSqlBlock ex sql) (\<lambda>_.
        bindM (query (insert_applied filename)) (\<lambda>_.
        commit_tx)))
       (\<lambda>e. bindM rollback_tx (\<lambda>_. throwM e)))"

definition runMigrations ::
    "(string \<Rightarrow> 's \<Rightarrow> exn + 's) \<Rightarrow> string list \<Rightarrow> (string \<Rightarrow> exn + string) \<Rightarrow> ('s mig_db, 'x, unit) dbm" where
  "runMigrations ex dir read =
     with_conn
       (bindM (query create_migrations) (\<lambda>_.
        bindM (query select_applied) (\<lambda>prior.
        forM (migration_files dir) (\<lambda>filename.
          if filename \<in> set prior then retM ()
          else bindM (liftM (read filename)) (\<lambda>sql. migrate_file ex filename sql)))))"

text \<open>The copies of the other services.\<close>

definition auth_runMigrations ::
    "(string \<Rightarrow> 's \<Rightarrow> exn + 's) \<Rightarrow> string list \<Rightarrow> (string \<Rightarrow> exn + string) \<Rightarrow> ('s mig_db, 'x, unit) dbm" where
  "auth_runMigrations = runMigrations"

definition payment_runMigrations ::
    "(string \<Rightarrow> 's \<Rightarrow> exn + 's) \<Rightarrow> string list \<Rightarrow> (string \<Rightarrow> exn + string) \<Rightarrow> ('s mig_db, 'x, unit) dbm" where
  "payment_runMigrations = runMigrations"

definition auth_runSqlBlock :: "(string \<Rightarrow> 's \<Rightarrow> exn + 's) \<Rightarrow> string \<Rightarrow> ('s mig_db, 'x, unit) dbm" where
  "auth_runSqlBlock = runSqlBlock"

definition payment_runSqlBlock :: "(string \<Rightarrow> 's \<Rightarrow> exn + 's) \<Rightarrow> string \<Rightarrow> ('s mig_db, 'x, unit) dbm" where
  "payment_runSqlBlock = runSqlBlock"

subsection \<open>What a file and a list of files do\<close>

fun exec_all :: "(string \<Rightarrow> 's \<Rightarrow> exn + 's) \<Rightarrow> string list \<Rightarrow> 's \<Rightarrow> exn + 's" where
  "exec_all ex [] sc = Inr sc"
| "exec_all ex (stmt # stmts) sc = (case ex stmt sc of Inl e \<Rightarrow> Inl e | Inr sc' \<Rightarrow> exec_all ex stmts sc')"

definition file_spec :: "(string \<Rightarrow> 's \<Rightarrow> exn + 's) \<Rightarrow> string \<Rightarrow> string \<Rightarrow> ('s mig_db, unit) stmt" where
  "file_spec ex filename sql now d =
     (case exec_all ex (sql_statements sql) (schema d) of
        Inl e \<Rightarrow> Inl e
      | Inr sc \<Rightarrow> insert_applied filename now (d\<lparr>schema := sc\<rparr>))"

fun migrate_all :: "(string \<Rightarrow> 's \<Rightarrow> exn + 's) \<Rightarrow> (string \<Rightarrow> exn + string) \<Rightarrow> string list \<Rightarrow> 's mig_db \<Rightarrow> exn + 's mig_db" where
  "migrate_all ex read [] d = Inr d"
| "migrate_all ex read (f # fs) d =
     (case read f of
        Inl e \<Rightarrow> Inl e
      | Inr sql \<Rightarrow> (case file_spec ex f sql 0 d of Inl e \<Rightarrow> Inl e | Inr (u, d') \<Rightarrow> migrate_all ex read fs d'))"

lemma file_spec_now: "file_spec ex f sql now d = file_spec ex f sql 0 d"
  by (simp add: file_spec_def insert_applied_def split: sum.split option.split)

lemma wp_block:
  assumes "open_tx G d now w n m s"
    and "\<And>sc s'. exec_all ex stmts (schema w) = Inr sc \<Longrightarrow> open_tx G d now (w\<lparr>schema := sc\<rparr>) n m s' \<Longrightarrow> Q () s'"
    and "\<And>e s'. exec_all ex stmts (schema w) = Inl e \<Longrightarrow> pending G d n m s' \<Longrightarrow> E e s'"
    and "\<And>f s'. faulty G \<Longrightarrow> pending G d n m s' \<Longrightarrow> E (fault_exn f) s'"
  shows "wp (forM stmts (\<lambda>stmt. query (exec_sql ex stmt))) Q E s"
  using assms
proof (induction stmts arbitrary: w s)
  case Nil
  then show ?case by (auto simp: wp_ret)
next
  case (Cons stmt stmts)
  show ?case
    unfolding forM.simps wp_bind
  proof (rule wp_query [OF Cons.prems(1)])
    fix a w' s' assume a: "exec_sql ex stmt now w = Inr (a, w')" "open_tx G d now w' n m s'"
    then obtain sc where sc: "ex stmt (schema w) = Inr sc" "w' = w\<lparr>schema := sc\<rparr>"
      by (auto simp: exec_sql_def split: sum.splits)
    show "wp (forM stmts (\<lambda>stmt. query (exec_sql ex stmt))) Q E s'"
      by (rule Cons.IH [OF a(2)]) (use Cons.prems(2-4) sc in auto)
  next
    fix e s' assume "exec_sql ex stmt now w = Inl e" "pending G d n m s'"
    then show "E e s'" using Cons.prems(3) by (simp add: exec_sql_def split: sum.splits)
  qed (use Cons.prems(4) in auto)
qed

text \<open>A file is applied as one statement.\<close>

lemma migrate_file_atomic:
  assumes "idle G d n m s"
  shows "wp (migrate_file ex filename sql) (atomic_ok G (file_spec ex filename sql) d n m)
    (atomic_err G (file_spec ex filename sql) d n m) s"
  unfolding migrate_file_def runSqlBlock_def wp_simps
proof (rule wp_begin [OF assms])
  fix d0 now s1 assume b: "rel G d d0" "open_tx G d0 now d0 n m s1"
  let ?E = "\<lambda>e. wp rollback_tx (\<lambda>_. atomic_err G (file_spec ex filename sql) d n m e)
    (atomic_err G (file_spec ex filename sql) d n m)"
  have undo: "?E e s'" if "pending G d0 n m s'" "file_spec ex filename sql now d0 = Inl e \<or> faulty G \<and> (\<exists>f. e = fault_exn f)"
    for e s'
    by (rule wp_rollback [OF that(1)]) (use that(2) b(1) in \<open>auto intro: atomic_errI_stmt atomic_errI_none\<close>)
  show "wp (forM (sql_statements sql) (\<lambda>stmt. query (exec_sql ex stmt)))
      (\<lambda>_. wp (query (insert_applied filename)) (\<lambda>_. wp commit_tx (atomic_ok G (file_spec ex filename sql) d n m) ?E) ?E) ?E s1"
  proof (rule wp_block [OF b(2)])
    fix sc s2 assume sc: "exec_all ex (sql_statements sql) (schema d0) = Inr sc" "open_tx G d0 now (d0\<lparr>schema := sc\<rparr>) n m s2"
    show "wp (query (insert_applied filename)) (\<lambda>_. wp commit_tx (atomic_ok G (file_spec ex filename sql) d n m) ?E) ?E s2"
    proof (rule wp_query [OF sc(2)])
      fix a w s3 assume i: "insert_applied filename now (d0\<lparr>schema := sc\<rparr>) = Inr (a, w)" "open_tx G d0 now w n m s3"
      have st: "file_spec ex filename sql now d0 = Inr (a, w)" using sc(1) i(1) by (simp add: file_spec_def)
      show "wp commit_tx (atomic_ok G (file_spec ex filename sql) d n m) ?E s3"
      proof (rule wp_commit [OF i(2)])
        show "atomic_ok G (file_spec ex filename sql) d n m () s'" if "idle G w n m s'" for s'
          by (rule atomic_okI [where now = now, OF b(1) _ that]) (simp add: st)
        show "?E (fault_exn f) s'" if "faulty G" "idle G d0 n m s'" for f s'
          using that by (intro undo) auto
        show "?E (fault_exn f) s'" if "faulty G" "idle G w n m s'" for f s'
          by (rule wp_rollback [OF idle_pending [OF that(2)]]) (use that(1) b(1) st in \<open>auto intro: atomic_errI_lost\<close>)
      qed
    next
      fix e s3 assume "insert_applied filename now (d0\<lparr>schema := sc\<rparr>) = Inl e" "pending G d0 n m s3"
      then show "?E e s3" using sc(1) by (intro undo) (simp_all add: file_spec_def)
    qed (auto intro: undo)
  next
    fix e s2 assume "exec_all ex (sql_statements sql) (schema d0) = Inl e" "pending G d0 n m s2"
    then show "?E e s2" by (intro undo) (simp_all add: file_spec_def)
  qed (auto intro: undo)
qed (auto intro: atomic_errI_none)

interpretation migration: atomic_op "migrate_file ex filename sql" "file_spec ex filename sql" for ex filename sql
  by unfold_locales (rule migrate_file_atomic)

lemma migrate_all_append:
  "migrate_all ex read (fs @ gs) d = (case migrate_all ex read fs d of Inl e \<Rightarrow> Inl e | Inr d' \<Rightarrow> migrate_all ex read gs d')"
  by (induction fs arbitrary: d) (simp_all split: sum.split prod.split)

lemma migrate_all_applied:
  "migrate_all ex read fs d = Inr d' \<Longrightarrow> applied d = Some prior \<Longrightarrow> applied d' = Some (prior @ fs)"
  by (induction fs arbitrary: d prior)
    (fastforce simp: file_spec_def insert_applied_def split: sum.splits option.splits if_splits)+

text \<open>A run over the files, with nobody else migrating: a prefix of the pending ones is applied.\<close>

definition prefix_applied where
  "prefix_applied ex read fs d n m complete s' \<longleftrightarrow>
     (\<exists>k d'. k \<le> length fs \<and> migrate_all ex read (take k fs) d = Inr d' \<and> idle (alone True) d' n m s' \<and>
        (complete \<longrightarrow> k = length fs))"

lemma prefix_applied_none: "idle (alone True) d n m s' \<Longrightarrow> prefix_applied ex read fs d n m False s'"
  unfolding prefix_applied_def by (intro exI [of _ 0] exI [of _ d]) simp

lemma prefix_applied_Cons:
  assumes "read f = Inr sql" and "file_spec ex f sql now d = Inr (u, d1)" and "prefix_applied ex read fs d1 n m c s'"
  shows "prefix_applied ex read (f # fs) d n m c s'"
proof -
  obtain k d' where "k \<le> length fs" "migrate_all ex read (take k fs) d1 = Inr d'"
    "idle (alone True) d' n m s'" "c \<longrightarrow> k = length fs"
    using assms(3) by (auto simp: prefix_applied_def)
  then show ?thesis
    unfolding prefix_applied_def
    using assms(1,2) by (intro exI [of _ "Suc k"] exI [of _ d']) (simp add: file_spec_now [of _ _ _ now])
qed

lemma wp_files:
  assumes "idle (alone True) d n m s"
  shows "wp (forM fs (\<lambda>f. if f \<in> set prior then retM () else bindM (liftM (read f)) (migrate_file ex f)))
    (\<lambda>_. prefix_applied ex read (filter (\<lambda>f. f \<notin> set prior) fs) d n m True)
    (\<lambda>_. prefix_applied ex read (filter (\<lambda>f. f \<notin> set prior) fs) d n m False) s"
  using assms
proof (induction fs arbitrary: d s)
  case Nil
  then show ?case by (auto simp: wp_ret prefix_applied_def)
next
  case (Cons f fs)
  let ?pend = "filter (\<lambda>f. f \<notin> set prior)"
  consider (old) "f \<in> set prior" | (unread) e where "f \<notin> set prior" "read f = Inl e"
    | (new) sql where "f \<notin> set prior" "read f = Inr sql" by (cases "read f") auto
  then show ?case
  proof cases
    case old
    then show ?thesis using Cons.IH [OF Cons.prems] by (simp add: wp_bind wp_ret)
  next
    case unread
    then show ?thesis using prefix_applied_none [OF Cons.prems] by (simp add: wp_bind wp_liftM)
  next
    case new
    have more: "prefix_applied ex read (?pend (f # fs)) d n m c s'"
      if "file_spec ex f sql now d = Inr (u, d1)" "prefix_applied ex read (?pend fs) d1 n m c s'" for now u d1 c s'
      using prefix_applied_Cons [of read f sql, OF new(2) that] new(1) by simp
    show ?thesis
      unfolding forM.simps wp_bind if_not_P [OF new(1)] wp_liftM new(2) sum.case
    proof (rule migration.wp_run [OF Cons.prems])
      fix d0 now u d1 s1
      assume a: "rel (alone True) d d0" "file_spec ex f sql now d0 = Inr (u, d1)" "idle (alone True) d1 n m s1"
      then have st: "file_spec ex f sql now d = Inr (u, d1)" by simp
      show "wp (forM fs (\<lambda>f. if f \<in> set prior then retM () else bindM (liftM (read f)) (migrate_file ex f)))
          (\<lambda>_. prefix_applied ex read (?pend (f # fs)) d n m True)
          (\<lambda>_. prefix_applied ex read (?pend (f # fs)) d n m False) s1"
        by (rule wp_mono [OF Cons.IH [OF a(3)]]) (use more [OF st] in blast)+
    next
      fix d0 now u d1 f' s1
      assume a: "rel (alone True) d d0" "file_spec ex f sql now d0 = Inr (u, d1)" "idle (alone True) d1 n m s1"
      then have st: "file_spec ex f sql now d = Inr (u, d1)" by simp
      show "prefix_applied ex read (?pend (f # fs)) d n m False s1" by (rule more [OF st prefix_applied_none [OF a(3)]])
    qed (use prefix_applied_none in auto)
  qed
qed

subsection \<open>Properties\<close>

text \<open>What a run leaves behind when nobody else migrates at the same time.\<close>

definition migrated ::
    "(string \<Rightarrow> 's \<Rightarrow> exn + 's) \<Rightarrow> string list \<Rightarrow> (string \<Rightarrow> exn + string) \<Rightarrow> 's mig_db \<Rightarrow> bool \<Rightarrow> 's mig_db \<Rightarrow> bool" where
  "migrated ex dir read d complete d' \<longleftrightarrow>
     (let prior = (case applied d of None \<Rightarrow> [] | Some fs \<Rightarrow> fs);
          pend = filter (\<lambda>f. f \<notin> set prior) (migration_files dir) in
      \<exists>k \<le> length pend. migrate_all ex read (take k pend) (d\<lparr>applied := Some prior\<rparr>) = Inr d' \<and>
        (complete \<longrightarrow> k = length pend))"

lemma prefix_applied_migrated:
  fixes d
  defines "prior \<equiv> (case applied d of None \<Rightarrow> [] | Some fs \<Rightarrow> fs)"
  assumes "prefix_applied ex read (filter (\<lambda>f. f \<notin> set prior) (migration_files dir)) (d\<lparr>applied := Some prior\<rparr>)
    (Suc n) m c s'"
  shows "\<exists>d'. migrated ex dir read d c d' \<and> idle (alone True) d' n m (release s')"
proof -
  let ?pend = "filter (\<lambda>f. f \<notin> set prior) (migration_files dir)"
  obtain k d' where "k \<le> length ?pend" "migrate_all ex read (take k ?pend) (d\<lparr>applied := Some prior\<rparr>) = Inr d'"
    "idle (alone True) d' (Suc n) m s'" "c \<longrightarrow> k = length ?pend"
    using assms(2) unfolding prefix_applied_def by blast
  then show ?thesis
    unfolding migrated_def Let_def prior_def by (intro exI [of _ d'] conjI release_idle exI [of _ k])
qed

lemma wp_runMigrations:
  assumes i: "idle (alone True) d n m s"
  shows "wp (runMigrations ex dir read)
    (\<lambda>_ s'. \<exists>d'. migrated ex dir read d True d' \<and> idle (alone True) d' n m s')
    (\<lambda>_ s'. \<exists>d'. (d' = d \<or> migrated ex dir read d False d') \<and> idle (alone True) d' n m s') s"
  unfolding runMigrations_def with_conn_def wp_simps
proof (rule wp_connect [OF i])
  fix s1 assume s1: "idle (alone True) d (Suc n) m s1"
  define prior where "prior = (case applied d of None \<Rightarrow> [] | Some fs \<Rightarrow> fs)"
  let ?d1 = "d\<lparr>applied := Some prior\<rparr>" and ?pend = "filter (\<lambda>f. f \<notin> set prior) (migration_files dir)"
  let ?Q = "\<lambda>_ s'. \<exists>d'. migrated ex dir read d True d' \<and> idle (alone True) d' n m (release s')"
  let ?E = "\<lambda>_ s'. \<exists>d'. (d' = d \<or> migrated ex dir read d False d') \<and> idle (alone True) d' n m (release s')"
  have created: "d' = ?d1" if "create_migrations now d = Inr (u, d')" for now u d'
    using that by (auto simp: create_migrations_def prior_def split: option.splits)
  note ends = prefix_applied_migrated [where d = d, folded prior_def]
  have part: "?E e s'" if "prefix_applied ex read ?pend ?d1 (Suc n) m False s'" for e s'
    using ends [OF that] by blast
  have whole: "?Q u s'" if "prefix_applied ex read ?pend ?d1 (Suc n) m True s'" for u s'
    by (rule ends [OF that])
  have unchanged: "?E e s'" if "idle (alone True) ?d1 (Suc n) m s'" for e s'
    by (rule part [OF prefix_applied_none [OF that]])
  show "wp (query create_migrations) (\<lambda>_. wp (query select_applied) (\<lambda>pr. wp (forM (migration_files dir) (\<lambda>f.
      if f \<in> set pr then retM () else bindM (liftM (read f)) (migrate_file ex f))) ?Q ?E) ?E) ?E s1"
  proof (rule wp_query_auto [OF s1])
    fix d0 now u d' s2 assume c: "rel (alone True) d d0" "create_migrations now d0 = Inr (u, d')" "idle (alone True) d' (Suc n) m s2"
    then have s2: "idle (alone True) ?d1 (Suc n) m s2" using created by simp
    show "wp (query select_applied) (\<lambda>pr. wp (forM (migration_files dir) (\<lambda>f.
      if f \<in> set pr then retM () else bindM (liftM (read f)) (migrate_file ex f))) ?Q ?E) ?E s2"
    proof (rule wp_query_auto [OF s2])
      fix d0 now pr d' s3 assume p: "rel (alone True) ?d1 d0" "select_applied now d0 = Inr (pr, d')" "idle (alone True) d' (Suc n) m s3"
      then have "pr = prior" "d' = ?d1" by (auto simp: select_applied_def)
      then show "wp (forM (migration_files dir) (\<lambda>f. if f \<in> set pr then retM () else bindM (liftM (read f)) (migrate_file ex f))) ?Q ?E s3"
        using p(3) by (simp only:) (rule wp_mono [OF wp_files whole part])
    next
      fix d0 e s3 assume "rel (alone True) ?d1 d0" "idle (alone True) d0 (Suc n) m s3"
      then show "?E e s3" using unchanged [of s3] by simp
    next
      fix d0 f s3 assume "rel (alone True) ?d1 d0" "idle (alone True) d0 (Suc n) m s3"
      then show "?E (fault_exn f) s3" using unchanged [of s3] by simp
    next
      fix d0 now pr d' f s3 assume "rel (alone True) ?d1 d0" "select_applied now d0 = Inr (pr, d')" "idle (alone True) d' (Suc n) m s3"
      then show "?E (fault_exn f) s3" using unchanged [of s3] by (auto simp: select_applied_def)
    qed
  next
    fix d0 now e s2 assume "rel (alone True) d d0" "create_migrations now d0 = Inl e"
    then show "?E e s2" by (simp add: create_migrations_def)
  next
    fix d0 f s2 assume "rel (alone True) d d0" "idle (alone True) d0 (Suc n) m s2"
    then show "?E (fault_exn f) s2" by (auto intro: exI [of _ d])
  next
    fix d0 now u d' f s2 assume "rel (alone True) d d0" "create_migrations now d0 = Inr (u, d')" "idle (alone True) d' (Suc n) m s2"
    then show "?E (fault_exn f) s2" using created unchanged by simp
  qed
qed auto

lemma runMigrations_outcome:
  assumes "quiet s" and "tx s = None" and "runMigrations ex dir read s = (r, s')"
  shows "tx s' = None \<and> checked_out s' = checked_out s \<and>
    (case r of
       Inr u \<Rightarrow> migrated ex dir read (committed s) True (committed s')
     | Inl e \<Rightarrow> committed s' = committed s \<or> migrated ex dir read (committed s) False (committed s'))"
  using wpD [OF wp_runMigrations [OF quiet_idle [OF assms(1,2)]] assms(3)]
  by (auto dest: idleD split: sum.splits)

text \<open>C25: Migrations are applied whole, in order and once. Whatever calls fail, a run of the migration
  runner with no other runner at work leaves the database as the first so many pending files make it,
  in the order of their names, each of them with all its statements and its record or not at all, also
  when a file cannot be read; when the run returns, all pending files are applied. The connection is given back idle.\<close>

theorem migrations_prefix:
  assumes "quiet s" and "tx s = None" and "runMigrations ex dir read s = (r, s')"
  shows "tx s' = None \<and> checked_out s' = checked_out s \<and>
    (case r of
       Inr u \<Rightarrow> migrated ex dir read (committed s) True (committed s')
     | Inl e \<Rightarrow> committed s' = committed s \<or> migrated ex dir read (committed s) False (committed s'))"
  using assms by (rule runMigrations_outcome)

text \<open>The second run of the same files has nothing left to do, even if calls of it fail.\<close>

lemma migrations_idempotent:
  assumes "quiet s" and "tx s = None" and "runMigrations ex dir read s = (Inr u, s')"
    and "quiet s2" and "tx s2 = None" and "committed s2 = committed s'" and "runMigrations ex dir read s2 = (r, s3)"
  shows "committed s3 = committed s'"
proof -
  let ?prior = "case applied (committed s) of None \<Rightarrow> [] | Some fs \<Rightarrow> fs"
  let ?pend = "filter (\<lambda>f. f \<notin> set ?prior) (migration_files dir)"
  have "migrated ex dir read (committed s) True (committed s')"
    using wpD [OF wp_runMigrations [OF quiet_idle [OF assms(1,2)]] assms(3)] by (auto dest: idleD)
  then have "migrate_all ex read ?pend ((committed s)\<lparr>applied := Some ?prior\<rparr>) = Inr (committed s')"
    by (auto simp: migrated_def Let_def)
  then have a: "applied (committed s') = Some (?prior @ ?pend)" by (rule migrate_all_applied) simp
  then have "filter (\<lambda>f. f \<notin> set (?prior @ ?pend)) (migration_files dir) = []"
    by (auto simp: filter_empty_conv)
  then have "d' = committed s'" if "migrated ex dir read (committed s') c d'" for c d'
    using that a by (auto simp: migrated_def Let_def)
  moreover obtain d' where "(d' = committed s' \<or> (\<exists>c. migrated ex dir read (committed s') c d')) \<and> committed s3 = d'"
    using wpD [OF wp_runMigrations [OF quiet_idle [OF assms(4,5)]] assms(7)] assms(6)
    by (auto dest!: idleD split: sum.splits)
  ultimately show ?thesis by metis
qed

text \<open>A run in which the answer to the second file's COMMIT is lost.\<close>

definition mig_start :: "string list mig_db conn" where
  "mig_start = \<lparr>committed = \<lparr>applied = None, schema = []\<rparr>, tx = None, tx_failed = False, tx_now = 0,
     script = replicate 10 \<lparr>others = id, clock = 0, fate = Runs\<rparr> @ [\<lparr>others = id, clock = 0, fate = Fails_after Conn_Lost\<rparr>],
     checked_out = 0\<rparr>"

definition mig_files :: "string list" where "mig_files = [''2.sql'', ''run.ts'', ''1.sql'']"

definition record_sql :: "string \<Rightarrow> string list \<Rightarrow> exn + string list" where
  "record_sql sql sc = Inr (sc @ [sql])"

theorem migrations_prefix_witness:
  "\<exists>e. fst (runMigrations record_sql mig_files Inr mig_start) = Inl e \<and>
     (committed (snd (runMigrations record_sql mig_files Inr mig_start)) = committed mig_start \<or>
      migrated record_sql mig_files Inr (committed mig_start) False
        (committed (snd (runMigrations record_sql mig_files Inr mig_start)))) \<and>
     schema (committed (snd (runMigrations record_sql mig_files Inr mig_start))) = [''1.sql'', ''2.sql'']"
proof -
  let ?op = "runMigrations record_sql mig_files Inr mig_start"
  have e: "fst ?op = Inl (fault_exn Conn_Lost)" "schema (committed (snd ?op)) = [''1.sql'', ''2.sql'']"
    by code_simp+
  have "quiet mig_start" "tx mig_start = None" by (auto simp: quiet_def mig_start_def)
  from migrations_prefix [OF this run_pair [OF e(1)]] e show ?thesis by simp
qed

end
