(* ===== verification/Probes.thy ===== *)
theory Probes
  imports Seats Guards Rabbit Migrations
begin

text \<open>
  What surrounds the handlers: the event bus of the seat service with the SSE stream that fans it out
  (seats/seat-event.bus.ts and \<open>stream\<close> of seats/seats.controller.ts), the readiness probes
  (health/health.controller.ts of the three services) and the order in which main.ts starts a
  service.
\<close>

subsection \<open>The event bus and the SSE stream\<close>

text \<open>
  A client of the stream is known by the listener its subscription registers; \<open>listeners\<close> is the
  emitter's list for the channel, in registration order, \<open>delivered c\<close> what the stream of \<open>c\<close> has
  sent. The heartbeat timer of a stream runs from its subscription to its teardown.
\<close>

datatype frame = Hello instant | Ping instant | Payload bus_msg

datatype bus_op = Subscribe nat instant | Teardown nat | Heartbeat nat instant | Emit bus_msg

record event_bus =
  listeners :: "nat list"
  delivered :: "nat \<Rightarrow> frame list"

definition deliver :: "frame \<Rightarrow> nat \<Rightarrow> event_bus \<Rightarrow> event_bus" where
  "deliver f c b = b\<lparr>delivered := (delivered b)(c := delivered b c @ [f])\<rparr>"

text \<open>\<open>emitter.emit\<close> calls the listeners one after the other.\<close>

definition bus_emit :: "bus_msg \<Rightarrow> event_bus \<Rightarrow> event_bus" where
  "bus_emit p b = fold (deliver (Payload p)) (listeners b) b"

text \<open>\<open>on\<close> and the function it returns.\<close>

definition bus_on :: "nat \<Rightarrow> event_bus \<Rightarrow> event_bus" where
  "bus_on c b = b\<lparr>listeners := listeners b @ [c]\<rparr>"

definition bus_off :: "nat \<Rightarrow> event_bus \<Rightarrow> event_bus" where
  "bus_off c b = b\<lparr>listeners := filter (\<lambda>x. x \<noteq> c) (listeners b)\<rparr>"

definition stream_step :: "bus_op \<Rightarrow> event_bus \<Rightarrow> event_bus" where
  "stream_step op b =
     (case op of
        Subscribe c now \<Rightarrow> bus_on c (deliver (Hello now) c b)
      | Teardown c \<Rightarrow> bus_off c b
      | Heartbeat c now \<Rightarrow> if c \<in> set (listeners b) then deliver (Ping now) c b else b
      | Emit p \<Rightarrow> bus_emit p b)"

definition new_bus :: event_bus where
  "new_bus = \<lparr>listeners = [], delivered = (\<lambda>_. [])\<rparr>"

definition run_bus :: "bus_op list \<Rightarrow> event_bus" where
  "run_bus ops = fold stream_step ops new_bus"

text \<open>What a client that is subscribed sees of an operation.\<close>

fun seen_by :: "nat \<Rightarrow> bus_op \<Rightarrow> frame list" where
  "seen_by c (Emit p) = [Payload p]"
| "seen_by c (Heartbeat c' now) = (if c' = c then [Ping now] else [])"
| "seen_by c _ = []"

text \<open>The operations of the life of client \<open>c\<close>'s own subscription.\<close>

fun concerns :: "nat \<Rightarrow> bus_op \<Rightarrow> bool" where
  "concerns c (Subscribe c' _) = (c' = c)"
| "concerns c (Teardown c') = (c' = c)"
| "concerns c _ = False"

lemma deliver_sel [simp]:
  "listeners (deliver f c b) = listeners b"
  "delivered (deliver f c b) x = (if x = c then delivered b x @ [f] else delivered b x)"
  by (simp_all add: deliver_def)

lemma bus_emit_sel:
  "listeners (bus_emit p b) = listeners b"
  "distinct (listeners b) \<Longrightarrow>
     delivered (bus_emit p b) c = (if c \<in> set (listeners b) then delivered b c @ [Payload p] else delivered b c)"
proof -
  have "listeners (fold (deliver (Payload p)) cs b') = listeners b'" for cs b'
    by (induction cs arbitrary: b') simp_all
  then show "listeners (bus_emit p b) = listeners b" by (simp add: bus_emit_def)
  have "distinct cs \<Longrightarrow> delivered (fold (deliver (Payload p)) cs b') c =
      (if c \<in> set cs then delivered b' c @ [Payload p] else delivered b' c)" for cs b'
    by (induction cs arbitrary: b') auto
  then show "distinct (listeners b) \<Longrightarrow>
     delivered (bus_emit p b) c = (if c \<in> set (listeners b) then delivered b c @ [Payload p] else delivered b c)"
    by (simp add: bus_emit_def)
qed

text \<open>Every subscription registers a listener of its own.\<close>

fun subscribed :: "bus_op list \<Rightarrow> nat list" where
  "subscribed [] = []"
| "subscribed (Subscribe c _ # ops) = c # subscribed ops"
| "subscribed (_ # ops) = subscribed ops"

lemma subscribed_append: "subscribed (xs @ ys) = subscribed xs @ subscribed ys"
  by (induction xs rule: subscribed.induct) simp_all

definition own_listeners :: "event_bus \<Rightarrow> bus_op list \<Rightarrow> bool" where
  "own_listeners b ops \<longleftrightarrow> distinct (listeners b @ subscribed ops)"

lemma own_listeners_step:
  "own_listeners b (op # ops) \<Longrightarrow> own_listeners (stream_step op b) ops"
  by (cases op) (auto simp: own_listeners_def stream_step_def bus_on_def bus_off_def bus_emit_sel)

lemma stream_step_other:
  assumes "own_listeners b (op # ops)" and "\<not> concerns c op"
  shows "c \<in> set (listeners (stream_step op b)) \<longleftrightarrow> c \<in> set (listeners b)"
    and "delivered (stream_step op b) c =
      delivered b c @ (if c \<in> set (listeners b) then seen_by c op else [])"
  using assms
  by (cases op; auto simp: own_listeners_def stream_step_def bus_on_def bus_off_def bus_emit_sel)+

lemma stream_run_other:
  assumes "own_listeners b (ops @ ops')" and "\<forall>op \<in> set ops. \<not> concerns c op"
  shows "own_listeners (fold stream_step ops b) ops' \<and>
    (c \<in> set (listeners (fold stream_step ops b)) \<longleftrightarrow> c \<in> set (listeners b)) \<and>
    delivered (fold stream_step ops b) c =
      delivered b c @ (if c \<in> set (listeners b) then concat (map (seen_by c) ops) else [])"
  using assms
proof (induction ops arbitrary: b)
  case (Cons op ops)
  then have "own_listeners b (op # (ops @ ops'))" "\<not> concerns c op" by simp_all
  from stream_step_other [OF this] Cons.IH [OF own_listeners_step [OF this(1)]] Cons.prems(2)
  show ?case by simp
qed simp

text \<open>C37: The stream of a client. It starts with hello; then, until the client closes it, it gets every
  message the bus emits, each once and in the order of the emissions, with its own pings in between,
  whatever other clients come and go; before it and after it nothing.\<close>

theorem stream_complete:
  assumes "distinct (subscribed (pre @ Subscribe c now # mid @ rest))"
    and "\<forall>op \<in> set (pre @ mid). \<not> concerns c op"
    and "rest = [] \<or> (\<exists>post. rest = Teardown c # post \<and> (\<forall>op \<in> set post. \<not> concerns c op))"
  shows "delivered (run_bus (pre @ Subscribe c now # mid @ rest)) c = Hello now # concat (map (seen_by c) mid)"
proof -
  let ?b = "fold stream_step pre new_bus" and ?s = "Subscribe c now # mid @ rest"
  have "own_listeners new_bus (pre @ ?s)" using assms(1) by (simp add: own_listeners_def new_bus_def)
  from stream_run_other [OF this, of c] assms(2)
  have b: "own_listeners ?b ?s" "c \<notin> set (listeners ?b)" "delivered ?b c = []" by (simp_all add: new_bus_def)
  let ?b1 = "stream_step (Subscribe c now) ?b"
  have b1: "own_listeners ?b1 (mid @ rest)" "c \<in> set (listeners ?b1)" "delivered ?b1 c = [Hello now]"
    using own_listeners_step [OF b(1)] b(3) by (simp_all add: stream_step_def bus_on_def)
  let ?b2 = "fold stream_step mid ?b1"
  have b2: "own_listeners ?b2 rest" "delivered ?b2 c = Hello now # concat (map (seen_by c) mid)"
    using stream_run_other [OF b1(1), of c] assms(2) b1(2,3) by simp_all
  have "delivered (fold stream_step rest ?b2) c = delivered ?b2 c"
    using assms(3)
  proof (elim disjE exE conjE)
    fix post assume rest: "rest = Teardown c # post" and post: "\<forall>op \<in> set post. \<not> concerns c op"
    let ?b3 = "stream_step (Teardown c) ?b2"
    have "own_listeners ?b3 (post @ [])" using own_listeners_step b2(1) rest by simp
    from stream_run_other [OF this post] show ?thesis by (simp add: rest stream_step_def bus_off_def)
  qed simp
  then show ?thesis using b2(2) by (simp add: run_bus_def)
qed

theorem stream_complete_witness:
  "delivered (run_bus [Subscribe 1 5, Emit (Bus_Released None), Subscribe 2 7, Heartbeat 1 8, Heartbeat 2 9,
     Emit (Bus_Released (Some ''s1'')), Teardown 2, Emit (Bus_Released None), Heartbeat 2 30]) 2 =
   [Hello 7, Ping 9, Payload (Bus_Released (Some ''s1''))]"
  using stream_complete [of "[Subscribe 1 5, Emit (Bus_Released None)]" 2 7
    "[Heartbeat 1 8, Heartbeat 2 9, Emit (Bus_Released (Some ''s1''))]"
    "[Teardown 2, Emit (Bus_Released None), Heartbeat 2 30]"]
  by simp

subsection \<open>Liveness and readiness\<close>

text \<open>The live probe: \<open>startedAt\<close> is the clock when the module was loaded, \<open>version\<close> the variable
  \<open>npm_package_version\<close>.\<close>

record live_report =
  lv_status :: string
  lv_uptime :: int
  lv_version :: string

definition live :: "string option \<Rightarrow> instant \<Rightarrow> instant \<Rightarrow> live_report" where
  "live version startedAt now =
     \<lparr>lv_status = ''ok'', lv_uptime = (now - startedAt) div 1000,
      lv_version = (case version of None \<Rightarrow> ''1.0.0'' | Some v \<Rightarrow> v)\<rparr>"

text \<open>\<open>checks\<close> with 'ok' or 'fail' per dependency, the status text and the HTTP status.\<close>

record ready_report =
  rd_checks :: "(string \<times> string) list"
  rd_status :: string
  rd_http :: nat

definition check_of :: "exn + 'a \<Rightarrow> string" where
  "check_of r = (case r of Inl e \<Rightarrow> ''fail'' | Inr a \<Rightarrow> ''ok'')"

text \<open>\<open>SELECT 1\<close>\<close>

definition select_one :: "('d, int) stmt" where
  "select_one now d = Inr (1, d)"

definition report_of :: "(string \<times> string) list \<Rightarrow> bool \<Rightarrow> ready_report" where
  "report_of checks ok = \<lparr>rd_checks = checks, rd_status = (if ok then ''ok'' else ''degraded''),
     rd_http = (if ok then 200 else 503)\<rparr>"

text \<open>The probe of the seat and payment services: the database and RabbitService.connect.\<close>

definition rabbit_ready ::
    "amqp_op list \<Rightarrow> (nat \<Rightarrow> exn option) \<Rightarrow> exn option list \<Rightarrow> ('d, 'x) conn_scheme \<Rightarrow> rabbit \<Rightarrow>
     ready_report \<times> ('d, 'x) conn_scheme \<times> rabbit" where
  "rabbit_ready topology tries faults s rb =
     (case query select_one s of (db, s') \<Rightarrow>
      case rabbit_connect topology tries faults rb of (mq, rb') \<Rightarrow>
        let checks = [(''db'', check_of db), (''rabbit'', check_of mq)] in
        (report_of checks (\<forall>c \<in> set checks. snd c = ''ok''), s', rb'))"

definition seat_ready where
  "seat_ready tries faults = rabbit_ready seat_topology tries faults"

definition payment_ready where
  "payment_ready tries faults = rabbit_ready payment_topology tries faults"

text \<open>That of the auth service: the database and a PING of Redis, whose outcome is \<open>ping\<close>.\<close>

definition auth_ready ::
    "exn + unit \<Rightarrow> ('d, 'x) conn_scheme \<Rightarrow> ready_report \<times> ('d, 'x) conn_scheme" where
  "auth_ready ping s =
     (case query select_one s of (db, s') \<Rightarrow>
        (report_of [(''db'', check_of db), (''redis'', check_of ping), (''rabbit'', ''skip'')]
           (check_of db = ''ok'' \<and> check_of ping = ''ok''), s'))"

lemma query_one:
  assumes "quiet s" and "tx s = None" and "query select_one s = (r, s')"
  shows "committed s' = committed s \<and> tx s' = None \<and> (r = Inr 1 \<or> (\<exists>e. r = Inl e))"
proof -
  note run = autocommit.run_atomic [OF assms]
  show ?thesis
    using run by (auto simp: all_or_nothing_def select_one_def split: sum.splits)
qed

text \<open>Readiness is what it was when the probe's RabbitService first connected. A probe answers 200 exactly if SELECT 1
  runs and an attempt of the first connect succeeded: the broker is not asked again, so the probe
  stays at 503 for ever when the first ten attempts failed, and stays at 200 when a declaration of
  the topology failed or the connection is long gone. It changes neither the database nor the
  service. The auth service's probe answers 200 exactly if SELECT 1 and PING succeed.\<close>

theorem readiness_of_the_first_connect:
  fixes s :: "('d, 'x) conn_scheme"
  assumes "quiet s" and "tx s = None"
    and "rabbit_connect topology tries faults (new_rabbit b) = (r, rb)"
    and "rabbit_ready topology tries2 faults2 s rb = (rep, s', rb')"
    and "auth_ready ping s = (rep2, s2)"
  shows "(rd_http rep = 200 \<longleftrightarrow> fst (query select_one s) = Inr 1 \<and> (\<exists>n \<in> {1..10}. tries n = None)) \<and>
    rd_http rep \<in> {200, 503} \<and> committed s' = committed s \<and> tx s' = None \<and> rb' = rb \<and>
    (rd_http rep2 = 200 \<longleftrightarrow> fst (query select_one s) = Inr 1 \<and> ping = Inr ()) \<and>
    rd_http rep2 \<in> {200, 503} \<and> committed s2 = committed s"
proof -
  obtain db s1 where q: "query select_one s = (db, s1)" by fastforce
  note one = query_one [OF assms(1,2) q]
  have up: "fst (try_connect 1 tries) = None \<longleftrightarrow> (\<exists>n \<in> {1..10}. tries n = None)"
    by (rule try_connect_up)
  have mq: "rabbit_connect topology tries2 faults2 rb =
      (case fst (try_connect 1 tries) of None \<Rightarrow> Inr () | Some e \<Rightarrow> Inl e, rb)"
    by (rule connect_repeats [OF assms(3)])
  show ?thesis
    unfolding up [symmetric] using assms(4,5) one
    by (auto simp: rabbit_ready_def auth_ready_def q mq report_of_def check_of_def Let_def
        split: option.splits sum.splits)
qed

theorem readiness_of_the_first_connect_witness:
  "rd_http (fst (rabbit_ready seat_topology (\<lambda>_. None) [] mig_start
     (snd (rabbit_connect seat_topology (\<lambda>_. None) [None, None, Some (Js_Error ''boom'')] (new_rabbit empty_broker))))) = 200 \<and>
   b_queues (rb_broker (snd (rabbit_connect seat_topology (\<lambda>_. None) [None, None, Some (Js_Error ''boom'')]
     (new_rabbit empty_broker)))) = []"
proof -
  let ?c = "rabbit_connect seat_topology (\<lambda>_. None) [None, None, Some (Js_Error ''boom'')] (new_rabbit empty_broker)"
  let ?r = "rabbit_ready seat_topology (\<lambda>_. None) [] mig_start (snd ?c)"
  let ?a = "auth_ready (Inr ()) mig_start"
  have 1: "quiet mig_start" "tx mig_start = None" by (auto simp: quiet_def mig_start_def)
  have 2: "fst (query select_one mig_start) = Inr 1" by code_simp
  have 3: "\<exists>n \<in> {1..10 :: nat}. (\<lambda>_. None :: exn option) n = None" by (auto intro: exI [of _ 1])
  have "rd_http (fst ?r) = 200"
    using readiness_of_the_first_connect [OF 1 surjective_pairing [of ?c], of "\<lambda>_. None" "[]"
      "fst ?r" "fst (snd ?r)" "snd (snd ?r)" "Inr ()" "fst ?a" "snd ?a", THEN conjunct1, THEN iffD2,
      OF _ _ conjI [OF 2 3]] by simp
  moreover have "b_queues (rb_broker (snd ?c)) = []" using failed_declaration by (metis snd_conv)
  ultimately show ?thesis ..
qed

subsection \<open>Starting a service\<close>

text \<open>
  main.ts: the environment, the migrations with the pool that \<open>finally\<close> ends, the dummy hash, the application, the
  background workers, the consumer, then listening; the first failure ends the process with status 1.
  \<open>boot_world\<close> gives the outcome of the calls that go outside: Some e is the error thrown.
\<close>

record boot_env =
  be_port :: int
  be_cors :: string

record boot_world =
  bw_env :: "exn + boot_env"
  bw_pool_end :: "exn option"
  bw_dummy :: "exn option"
  bw_create :: "exn option"
  bw_tries :: "nat \<Rightarrow> exn option"
  bw_faults :: "exn option list"
  bw_consume :: "exn option"
  bw_listen :: "exn option"

datatype boot_step =
    Migrations_Run
  | Dummy_Hash_Made
  | App_Created "string list"
  | Sweeper_Started
  | Outbox_Started
  | Reprocessor_Started
  | Connected
  | Consuming
  | Listening int

text \<open>\<open>env.CORS_ORIGINS.split(',').map((s) => s.trim())\<close>\<close>

definition cors_origins :: "string \<Rightarrow> string list" where
  "cors_origins s = map trim (split_on (CHR '','') s)"

text \<open>Awaiting one call after the other until one throws: what was reached, and the error.\<close>

fun run_steps :: "('a \<times> exn option) list \<Rightarrow> 'a list \<times> exn option" where
  "run_steps [] = ([], None)"
| "run_steps ((a, None) # rest) = (case run_steps rest of (reached, e) \<Rightarrow> (a # reached, e))"
| "run_steps ((a, Some e) # rest) = ([], Some e)"

fun thrown :: "exn + 'a \<Rightarrow> exn option" where
  "thrown (Inl e) = Some e"
| "thrown (Inr a) = None"

definition first_outcome :: "boot_world \<Rightarrow> boot_step \<Rightarrow> exn option" where
  "first_outcome w x = (if x = Dummy_Hash_Made then bw_dummy w else None)"

text \<open>The whole start: the steps reached, the error that ended the process, the database after the
  migrations. \<open>first\<close> is what a service does before it creates the application, \<open>workers\<close> the timers
  it starts, \<open>topology\<close> the declarations of its broker connection (None: it has none).\<close>

definition boot ::
    "boot_step list \<Rightarrow> boot_step list \<Rightarrow> amqp_op list option \<Rightarrow> boot_world \<Rightarrow>
     (string \<Rightarrow> 's \<Rightarrow> exn + 's) \<Rightarrow> string list \<Rightarrow> (string \<Rightarrow> exn + string) \<Rightarrow> ('s mig_db, 'x) conn_scheme \<Rightarrow>
     (boot_step list \<times> exn option) \<times> ('s mig_db, 'x) conn_scheme" where
  "boot first workers topology w ex dir read s =
     (case bw_env w of
        Inl e \<Rightarrow> (([], Some e), s)
      | Inr env \<Rightarrow>
          (case runMigrations ex dir read s of (r, s') \<Rightarrow>
             (run_steps
               ([(Migrations_Run, case bw_pool_end w of Some e \<Rightarrow> Some e | None \<Rightarrow> thrown r)] @
                map (\<lambda>x. (x, first_outcome w x)) first @
                [(App_Created (cors_origins (be_cors env)), bw_create w)] @
                map (\<lambda>x. (x, None)) workers @
                (case topology of
                   None \<Rightarrow> []
                 | Some ops \<Rightarrow>
                     [(Connected, thrown (fst (rabbit_connect ops (bw_tries w) (bw_faults w) (new_rabbit empty_broker)))),
                      (Consuming, bw_consume w)]) @
                [(Listening (be_port env), bw_listen w)]), s')))"

definition seat_boot where
  "seat_boot = boot [] [Sweeper_Started, Outbox_Started] (Some seat_topology)"

definition payment_boot where
  "payment_boot = boot [] [Outbox_Started, Reprocessor_Started] (Some payment_topology)"

definition auth_boot where
  "auth_boot = boot [Dummy_Hash_Made] [] None"

lemma run_steps_prefix:
  "run_steps xs = (ys, e) \<Longrightarrow> \<exists>rest. map fst xs = ys @ rest \<and> (e = None \<longleftrightarrow> rest = [])"
  by (induction xs arbitrary: ys rule: run_steps.induct) (fastforce split: prod.splits)+

lemma run_steps_reached:
  "run_steps xs = (ys, e) \<Longrightarrow> a \<in> set ys \<Longrightarrow> (a, None) \<in> set xs"
  by (induction xs arbitrary: ys rule: run_steps.induct) (auto split: prod.splits)

lemma thrown_None: "thrown r = None \<longleftrightarrow> (\<exists>a. r = Inr a)"
  by (cases r) simp_all

lemma connect_ok:
  "fst (rabbit_connect topology tries faults (new_rabbit b)) = Inr u \<Longrightarrow> \<exists>n \<in> {1..10}. tries n = None"
  unfolding try_connect_up [symmetric]
  by (auto simp: rabbit_connect_def doConnect_def new_rabbit_def split: option.splits)

lemma boot_runs:
  fixes s :: "('s mig_db, 'x) conn_scheme"
  assumes "quiet s" and "tx s = None" and env: "bw_env w = Inr env"
    and run: "boot first workers topology w ex dir read s = ((steps, e), s')"
    and labels: "Migrations_Run \<notin> set (first @ workers)" "Connected \<notin> set (first @ workers)"
  shows "(\<exists>rest. Migrations_Run # first @ App_Created (cors_origins (be_cors env)) # workers @
        (case topology of None \<Rightarrow> [] | Some _ \<Rightarrow> [Connected, Consuming]) @ [Listening (be_port env)] = steps @ rest \<and>
      (e = None \<longleftrightarrow> rest = [])) \<and>
    (steps \<noteq> [] \<longrightarrow> migrated ex dir read (committed s) True (committed s')) \<and>
    (Connected \<in> set steps \<longrightarrow> (\<exists>n \<in> {1..10}. bw_tries w n = None)) \<and>
    tx s' = None \<and> checked_out s' = checked_out s"
proof -
  obtain r s1 where m: "runMigrations ex dir read s = (r, s1)" by fastforce
  define xs where "xs = [(Migrations_Run, case bw_pool_end w of Some e \<Rightarrow> Some e | None \<Rightarrow> thrown r)] @
    map (\<lambda>x. (x, first_outcome w x)) first @ [(App_Created (cors_origins (be_cors env)), bw_create w)] @
    map (\<lambda>x. (x, None)) workers @
    (case topology of
       None \<Rightarrow> []
     | Some ops \<Rightarrow> [(Connected, thrown (fst (rabbit_connect ops (bw_tries w) (bw_faults w) (new_rabbit empty_broker)))),
         (Consuming, bw_consume w)]) @ [(Listening (be_port env), bw_listen w)]"
  have xs: "run_steps xs = (steps, e)" and s': "s' = s1"
    using run by (simp_all add: boot_def env m xs_def)
  have "map fst xs = Migrations_Run # first @ App_Created (cors_origins (be_cors env)) # workers @
      (case topology of None \<Rightarrow> [] | Some _ \<Rightarrow> [Connected, Consuming]) @ [Listening (be_port env)]"
    by (simp add: xs_def comp_def split: option.split)
  then have 1: "\<exists>rest. Migrations_Run # first @ App_Created (cors_origins (be_cors env)) # workers @
        (case topology of None \<Rightarrow> [] | Some _ \<Rightarrow> [Connected, Consuming]) @ [Listening (be_port env)] = steps @ rest \<and>
      (e = None \<longleftrightarrow> rest = [])"
    using run_steps_prefix [OF xs] by simp
  have "r = Inr ()" if "steps \<noteq> []"
  proof -
    have "Migrations_Run \<in> set steps" using 1 that by (cases steps) auto
    from run_steps_reached [OF xs this] labels have "thrown r = None"
      by (auto simp: xs_def split: option.splits)
    then show ?thesis by (simp add: thrown_None)
  qed
  moreover have "\<exists>n \<in> {1..10}. bw_tries w n = None" if "Connected \<in> set steps"
    using run_steps_reached [OF xs that] labels
    by (auto simp: xs_def thrown_None eq_commute [of None] dest!: connect_ok split: option.splits)
  ultimately show ?thesis
    using 1 runMigrations_outcome [OF assms(1,2) m] unfolding s' by (auto split: sum.splits)
qed

text \<open>C38: A service starts in order or not at all. The steps it reaches are an initial part of its start
  sequence, and all of it exactly if no call threw; so it listens only after its migrations, its
  workers and its consumer. Once the first step is passed all pending migrations are applied, and the
  consumer is connected only if one of ten attempts at the broker succeeded. Whatever happens the
  migrations leave no transaction open and no connection checked out.\<close>

theorem boot_in_order:
  fixes s :: "('s mig_db, 'x) conn_scheme"
  assumes "quiet s" and "tx s = None" and "bw_env w = Inr env"
    and "(b, full) \<in>
      {(seat_boot, [Migrations_Run, App_Created (cors_origins (be_cors env)), Sweeper_Started, Outbox_Started,
          Connected, Consuming, Listening (be_port env)]),
       (payment_boot, [Migrations_Run, App_Created (cors_origins (be_cors env)), Outbox_Started, Reprocessor_Started,
          Connected, Consuming, Listening (be_port env)]),
       (auth_boot, [Migrations_Run, Dummy_Hash_Made, App_Created (cors_origins (be_cors env)), Listening (be_port env)])}"
    and "b w ex dir read s = ((steps, e), s')"
  shows "(\<exists>rest. full = steps @ rest \<and> (e = None \<longleftrightarrow> rest = [])) \<and>
    (steps \<noteq> [] \<longrightarrow> migrated ex dir read (committed s) True (committed s')) \<and>
    (Connected \<in> set steps \<longrightarrow> (\<exists>n \<in> {1..10}. bw_tries w n = None)) \<and>
    tx s' = None \<and> checked_out s' = checked_out s"
proof -
  have steps: "Migrations_Run \<notin> set ([] @ [Sweeper_Started, Outbox_Started])" "Connected \<notin> set ([] @ [Sweeper_Started, Outbox_Started])"
    "Migrations_Run \<notin> set ([] @ [Outbox_Started, Reprocessor_Started])" "Connected \<notin> set ([] @ [Outbox_Started, Reprocessor_Started])"
    "Migrations_Run \<notin> set ([Dummy_Hash_Made] @ [])" "Connected \<notin> set ([Dummy_Hash_Made] @ [])"
    by simp_all
  note runs = boot_runs [OF assms(1-3)]
  from assms(4) consider
      "b = seat_boot" "full = [Migrations_Run, App_Created (cors_origins (be_cors env)), Sweeper_Started,
        Outbox_Started, Connected, Consuming, Listening (be_port env)]"
    | "b = payment_boot" "full = [Migrations_Run, App_Created (cors_origins (be_cors env)), Outbox_Started,
        Reprocessor_Started, Connected, Consuming, Listening (be_port env)]"
    | "b = auth_boot" "full = [Migrations_Run, Dummy_Hash_Made, App_Created (cors_origins (be_cors env)),
        Listening (be_port env)]" by auto
  then show ?thesis
  proof cases
    case 1
    then have "boot [] [Sweeper_Started, Outbox_Started] (Some seat_topology) w ex dir read s = ((steps, e), s')"
      using assms(5) by (simp add: seat_boot_def)
    from runs [OF this steps(1,2)] show ?thesis by (simp add: 1(2))
  next
    case 2
    then have "boot [] [Outbox_Started, Reprocessor_Started] (Some payment_topology) w ex dir read s = ((steps, e), s')"
      using assms(5) by (simp add: payment_boot_def)
    from runs [OF this steps(3,4)] show ?thesis by (simp add: 2(2))
  next
    case 3
    then have "boot [Dummy_Hash_Made] [] None w ex dir read s = ((steps, e), s')"
      using assms(5) by (simp add: auth_boot_def)
    from runs [OF this steps(5,6)] show ?thesis by (simp add: 3(2))
  qed
qed

text \<open>The seat service against a broker that never comes up: migrated, but not listening.\<close>

definition lost_broker :: boot_world where
  "lost_broker = \<lparr>bw_env = Inr \<lparr>be_port = 4002, be_cors = ''http://a, http://b''\<rparr>, bw_pool_end = None,
     bw_dummy = None, bw_create = None, bw_tries = (\<lambda>_. Some (Js_Error ''ECONNREFUSED'')), bw_faults = [], bw_consume = None,
     bw_listen = None\<rparr>"

theorem boot_in_order_witness:
  "\<exists>rest. rest \<noteq> [] \<and> [Migrations_Run, App_Created [''http://a'', ''http://b''], Sweeper_Started, Outbox_Started,
      Connected, Consuming, Listening 4002] =
    fst (fst (seat_boot lost_broker record_sql [] Inr mig_start)) @ rest"
proof -
  let ?b = "seat_boot lost_broker record_sql [] Inr mig_start"
  have 1: "quiet mig_start" "tx mig_start = None" by (auto simp: quiet_def mig_start_def)
  have 2: "bw_env lost_broker = Inr \<lparr>be_port = 4002, be_cors = ''http://a, http://b''\<rparr>"
    by (simp add: lost_broker_def)
  have 3: "snd (fst ?b) = Some (Js_Error ''ECONNREFUSED'')" "cors_origins ''http://a, http://b'' = [''http://a'', ''http://b'']"
    by code_simp+
  have 4: "?b = ((fst (fst ?b), snd (fst ?b)), snd ?b)" by simp
  note run = boot_in_order [where b = seat_boot, OF 1 2 insertI1 4, THEN conjunct1,
    unfolded boot_env.select_convs 3(2)]
  then obtain rest where "[Migrations_Run, App_Created [''http://a'', ''http://b''], Sweeper_Started,
      Outbox_Started, Connected, Consuming, Listening 4002] = fst (fst ?b) @ rest"
    and "snd (fst ?b) = None \<longleftrightarrow> rest = []" by (elim exE conjE) (rule that)
  then show ?thesis unfolding 3(1) by (intro exI [of _ rest] conjI) simp_all
qed

end
