(* ===== verification/Timers.thy ===== *)
theory Timers
  imports Webhooks Outbox_Worker Env
begin

text \<open>
  The background workers between their ticks: HoldSweeper, the OutboxWorker of both services and
  WebhookReprocessor, each with \<open>start\<close>, the callback of \<open>setInterval\<close>, the \<open>running\<close> flag three of them
  have, and \<open>onModuleDestroy\<close>. A tick awaits the database, so a timer may fire while one is in
  progress; what a tick does is modelled in \<open>Hold_Sweeper\<close>, \<open>Outbox_Worker\<close> and \<open>Webhooks\<close>.
\<close>

subsection \<open>Intervals\<close>

text \<open>
  The fields of a worker and its part of the event loop: the intervals that are not cleared, the
  number of handles given out, and the ticks in progress.
\<close>

record interval =
  iv_handle :: nat
  iv_delay :: int

record worker =
  wk_timer :: "nat option"
  wk_running :: bool
  wk_intervals :: "interval list"
  wk_handles :: nat
  wk_ticks :: nat

definition new_worker :: worker where
  "new_worker = \<lparr>wk_timer = None, wk_running = False, wk_intervals = [], wk_handles = 0, wk_ticks = 0\<rparr>"

definition set_interval :: "int \<Rightarrow> worker \<Rightarrow> worker" where
  "set_interval ms w =
     w\<lparr>wk_timer := Some (wk_handles w),
       wk_intervals := wk_intervals w @ [\<lparr>iv_handle = wk_handles w, iv_delay = timer_delay ms\<rparr>],
       wk_handles := Suc (wk_handles w)\<rparr>"

definition clear_interval :: "nat \<Rightarrow> worker \<Rightarrow> worker" where
  "clear_interval h w = w\<lparr>wk_intervals := filter (\<lambda>i. iv_handle i \<noteq> h) (wk_intervals w)\<rparr>"

subsection \<open>The workers\<close>

datatype worker_kind = Hold_Sweeper | Seat_Outbox | Payment_Outbox | Webhook_Reprocessor

definition sweeper_start :: "seat_vars \<Rightarrow> worker \<Rightarrow> worker" where
  "sweeper_start v = set_interval (v_SWEEP_INTERVAL_MS v)"

definition seat_outbox_start :: "seat_vars \<Rightarrow> worker \<Rightarrow> worker" where
  "seat_outbox_start v = set_interval (v_SWEEP_INTERVAL_MS v)"

definition payment_outbox_start :: "worker \<Rightarrow> worker" where
  "payment_outbox_start = set_interval 15000"

definition reprocessor_start :: "worker \<Rightarrow> worker" where
  "reprocessor_start = set_interval 30000"

fun start_worker :: "worker_kind \<Rightarrow> seat_vars \<Rightarrow> worker \<Rightarrow> worker" where
  "start_worker Hold_Sweeper v = sweeper_start v"
| "start_worker Seat_Outbox v = seat_outbox_start v"
| "start_worker Payment_Outbox v = payment_outbox_start"
| "start_worker Webhook_Reprocessor v = reprocessor_start"

text \<open>The start of \<open>tick\<close>, up to its first await, and its end. The sweeper has no flag.\<close>

definition flagged :: "worker_kind \<Rightarrow> bool" where
  "flagged kind \<longleftrightarrow> kind \<noteq> Hold_Sweeper"

definition tick_enter :: "worker_kind \<Rightarrow> worker \<Rightarrow> worker" where
  "tick_enter kind w =
     (if flagged kind then
        if wk_running w then w else w\<lparr>wk_running := True, wk_ticks := Suc (wk_ticks w)\<rparr>
      else w\<lparr>wk_ticks := Suc (wk_ticks w)\<rparr>)"

definition tick_leave :: "worker_kind \<Rightarrow> worker \<Rightarrow> worker" where
  "tick_leave kind w =
     (let w' = w\<lparr>wk_ticks := wk_ticks w - 1\<rparr> in if flagged kind then w'\<lparr>wk_running := False\<rparr> else w')"

text \<open>\<open>if (this.timer) clearInterval(this.timer);\<close>\<close>

definition worker_destroy :: "worker \<Rightarrow> worker" where
  "worker_destroy w = (case wk_timer w of None \<Rightarrow> w | Some h \<Rightarrow> clear_interval h w)"

text \<open>What may happen next: a turn of the event loop, if it can happen.\<close>

datatype turn = Start | Fire nat | Finish | Destroy

fun take_turn :: "worker_kind \<Rightarrow> seat_vars \<Rightarrow> turn \<Rightarrow> worker \<Rightarrow> worker option" where
  "take_turn kind v Start w = Some (start_worker kind v w)"
| "take_turn kind v (Fire h) w = (if h \<in> iv_handle ` set (wk_intervals w) then Some (tick_enter kind w) else None)"
| "take_turn kind v Finish w = (if 0 < wk_ticks w then Some (tick_leave kind w) else None)"
| "take_turn kind v Destroy w = Some (worker_destroy w)"

fun take_turns :: "worker_kind \<Rightarrow> seat_vars \<Rightarrow> turn list \<Rightarrow> worker \<Rightarrow> worker option" where
  "take_turns kind v [] w = Some w"
| "take_turns kind v (t # ts) w = Option.bind (take_turn kind v t w) (take_turns kind v ts)"

subsection \<open>The flag of the model's ticks\<close>

text \<open>A tick that finds the flag set does nothing; otherwise it clears the flag at its end, however it ends.\<close>

lemma outbox_tick_flag:
  "w_running s \<Longrightarrow> outbox_tick exch locked s = (Inr (), s)"
  "\<not> w_running s \<Longrightarrow> \<not> w_running (snd (outbox_tick exch locked s))"
  by (auto simp: outbox_tick_def bindM_def getsM_def retM_def modifyM_def finallyM_def split: prod.split)

lemma reprocessor_tick_flag:
  "reproc_running s \<Longrightarrow> reprocessor_tick pg_text fresh s = (Inr (), s)"
  "\<not> reproc_running s \<Longrightarrow> \<not> reproc_running (snd (reprocessor_tick pg_text fresh s))"
  by (auto simp: reprocessor_tick_def bindM_def getsM_def retM_def modifyM_def finallyM_def set_running_def
      split: prod.split)

subsection \<open>Ticks and shutdown\<close>

lemma take_turns_append:
  "take_turns kind v (ts @ us) w = Option.bind (take_turns kind v ts w) (take_turns kind v us)"
  by (induction ts arbitrary: w) (auto simp: bind_assoc split: Option.bind_split)

text \<open>The flag says whether a tick is in progress, and there is at most one.\<close>

definition single_tick :: "worker \<Rightarrow> bool" where
  "single_tick w \<longleftrightarrow> wk_ticks w = (if wk_running w then 1 else 0)"

lemmas turn_defs = sweeper_start_def seat_outbox_start_def payment_outbox_start_def reprocessor_start_def
  set_interval_def clear_interval_def tick_enter_def tick_leave_def worker_destroy_def

lemma start_worker_sel:
  "\<exists>ms. start_worker kind v = set_interval ms"
  by (cases kind) (auto simp: turn_defs)

lemma single_tick_turn:
  assumes "flagged kind" and "single_tick w" and "take_turn kind v t w = Some w'"
  shows "single_tick w'"
  using assms start_worker_sel [of kind v]
  by (cases t) (auto simp: single_tick_def turn_defs Let_def split: if_splits option.splits)

lemma single_tick_turns:
  "take_turns kind v ts w = Some w' \<Longrightarrow> flagged kind \<Longrightarrow> single_tick w \<Longrightarrow> single_tick w'"
  by (induction ts arbitrary: w) (auto simp: bind_eq_Some_conv intro: single_tick_turn)

text \<open>A worker that is started once has one interval, the one it remembers, until it is destroyed.\<close>

definition started_once :: "worker \<Rightarrow> bool" where
  "started_once w \<longleftrightarrow> (\<forall>i \<in> set (wk_intervals w). wk_timer w = Some (iv_handle i))"

lemma started_once_turn:
  assumes "take_turn kind v t w = Some w'" and "started_once w" and "t = Start \<longrightarrow> wk_intervals w = []"
  shows "started_once w'"
  using assms start_worker_sel [of kind v]
  by (cases t) (auto simp: started_once_def turn_defs Let_def split: if_splits option.splits)

lemma intervals_turn:
  "take_turn kind v t w = Some w' \<Longrightarrow> t \<noteq> Start \<Longrightarrow> set (wk_intervals w') \<subseteq> set (wk_intervals w)"
  by (cases t) (auto simp: turn_defs Let_def split: if_splits option.splits)

lemma started_once_turns:
  "take_turns kind v ts w = Some w' \<Longrightarrow> started_once w \<Longrightarrow>
     count_list ts Start = 0 \<or> count_list ts Start = 1 \<and> wk_intervals w = [] \<Longrightarrow> started_once w'"
proof (induction ts arbitrary: w)
  case (Cons t ts)
  obtain w1 where w1: "take_turn kind v t w = Some w1" "take_turns kind v ts w1 = Some w'"
    using Cons.prems(1) by (auto simp: bind_eq_Some_conv)
  have "started_once w1" by (rule started_once_turn [OF w1(1) Cons.prems(2)]) (use Cons.prems(3) in auto)
  moreover have "wk_intervals w1 = []" if "t \<noteq> Start" "wk_intervals w = []"
    using intervals_turn [OF w1(1) that(1)] that(2) by simp
  ultimately show ?case using Cons.IH [OF w1(2)] Cons.prems(3) by (auto split: if_splits)
qed simp

lemma no_intervals_no_tick:
  "take_turns kind v ts w = Some w' \<Longrightarrow> wk_intervals w = [] \<Longrightarrow> Start \<notin> set ts \<Longrightarrow>
     Fire h \<notin> set ts \<and> wk_ticks w' \<le> wk_ticks w"
proof (induction ts arbitrary: w)
  case (Cons t ts)
  obtain w1 where w1: "take_turn kind v t w = Some w1" "take_turns kind v ts w1 = Some w'"
    using Cons.prems(1) by (auto simp: bind_eq_Some_conv)
  have "wk_intervals w1 = []" "t \<noteq> Fire h" "wk_ticks w1 \<le> wk_ticks w"
    using w1(1) Cons.prems(2,3) by (cases t; auto simp: turn_defs Let_def split: if_splits option.splits)+
  then show ?case using Cons.IH [OF w1(2)] Cons.prems(3) by fastforce
qed simp

lemma destroyed_intervals: "started_once w \<Longrightarrow> wk_intervals (worker_destroy w) = []"
  by (cases "wk_timer w") (auto simp: started_once_def turn_defs filter_empty_conv)

text \<open>C40: The life of a background worker. Whatever the order of timers, ticks, starts and shutdown, the
  outbox workers and the webhook reprocessor never have two ticks in progress, and their flag is set
  exactly while they have one, so no tick is locked out for good. And if a worker is started once, as
  main.ts does, then after \<open>onModuleDestroy\<close> its timer never fires again and only the ticks in
  progress then are still finished.\<close>

theorem worker_life:
  assumes "take_turns kind v ts new_worker = Some w"
  shows "(kind \<noteq> Hold_Sweeper \<longrightarrow> wk_ticks w \<le> 1 \<and> (wk_running w \<longleftrightarrow> wk_ticks w = 1)) \<and>
    (\<forall>before after. ts = before @ Destroy # after \<and> count_list ts Start \<le> 1 \<and> Start \<notin> set after \<longrightarrow>
       (\<forall>h. Fire h \<notin> set after) \<and> (\<exists>w1. take_turns kind v before new_worker = Some w1 \<and> wk_ticks w \<le> wk_ticks w1))"
proof (intro conjI impI allI)
  assume "kind \<noteq> Hold_Sweeper"
  from single_tick_turns [OF assms] this have "single_tick w" by (simp add: flagged_def single_tick_def new_worker_def)
  then show "wk_ticks w \<le> 1" "wk_running w \<longleftrightarrow> wk_ticks w = 1" by (auto simp: single_tick_def)
next
  fix before after h
  assume ts: "ts = before @ Destroy # after \<and> count_list ts Start \<le> 1 \<and> Start \<notin> set after"
  obtain w1 where w1: "take_turns kind v before new_worker = Some w1"
    "take_turns kind v after (worker_destroy w1) = Some w"
    using assms ts by (auto simp: take_turns_append bind_eq_Some_conv)
  have "started_once w1"
    by (rule started_once_turns [OF w1(1)]) (use ts in \<open>auto simp: started_once_def new_worker_def\<close>)
  note rest = no_intervals_no_tick [OF w1(2) destroyed_intervals [OF this]]
  have ticks: "wk_ticks (worker_destroy w1) = wk_ticks w1" by (simp add: turn_defs split: option.split)
  show "Fire h \<notin> set after" using rest ts by blast
  show "\<exists>w1. take_turns kind v before new_worker = Some w1 \<and> wk_ticks w \<le> wk_ticks w1"
    using rest ts w1(1) ticks by auto
qed

definition example_vars :: seat_vars where
  "example_vars = the (seatEnvSchema example_env)"

theorem worker_life_witness:
  "wk_ticks (the (take_turns Seat_Outbox example_vars [Start, Fire 0, Fire 0, Destroy, Finish] new_worker)) \<le> 1 \<and>
   (\<exists>w1. take_turns Seat_Outbox example_vars [Start, Fire 0, Fire 0] new_worker = Some w1 \<and>
     wk_ticks (the (take_turns Seat_Outbox example_vars [Start, Fire 0, Fire 0, Destroy, Finish] new_worker)) \<le> wk_ticks w1)"
proof -
  let ?r = "take_turns Seat_Outbox example_vars [Start, Fire 0, Fire 0, Destroy, Finish] new_worker"
  have 1: "?r = Some (the ?r)"
    by (simp add: new_worker_def turn_defs flagged_def)
  have 2: "[Start, Fire 0, Fire 0, Destroy, Finish] = [Start, Fire 0, Fire 0] @ Destroy # [Finish] \<and>
      count_list [Start, Fire 0, Fire 0, Destroy, Finish] Start \<le> 1 \<and> Start \<notin> set [Finish]" by simp
  note life = worker_life [OF 1]
  from life [THEN conjunct2, THEN spec, THEN spec, THEN mp, OF 2]
    life [THEN conjunct1, THEN mp] show ?thesis by simp
qed

text \<open>The sweeper has no flag: its ticks overlap when one takes longer than the interval.\<close>

lemma sweeps_may_overlap:
  "map_option wk_ticks (take_turns Hold_Sweeper example_vars [Start, Fire 0, Fire 0] new_worker) = Some 2"
  by (simp add: new_worker_def turn_defs flagged_def)

text \<open>A second start would leave the first interval running for ever.\<close>

lemma second_start_leaks:
  "map_option (map iv_handle \<circ> wk_intervals) (take_turns kind v [Start, Start, Destroy] new_worker) = Some [0]"
  by (cases kind) (simp_all add: new_worker_def turn_defs)

text \<open>
  The interval of the seat service is the configured one only up to 2147483647 ms. The schema has no
  upper bound, and beyond it the sweeper and the outbox worker tick every millisecond.
\<close>

lemma seat_interval:
  assumes "seat_loadEnv p None = (Inr v, c)"
  shows "map iv_delay (wk_intervals (sweeper_start v new_worker)) =
    [if v_SWEEP_INTERVAL_MS v \<le> 2147483647 then v_SWEEP_INTERVAL_MS v else 1]"
proof -
  have "seatEnvSchema p = Some v" using assms by (simp add: loadEnv_defs load_env_first split: option.splits)
  then have "0 < v_SWEEP_INTERVAL_MS v" using seatEnvSchema_typed by blast
  then show ?thesis by (simp add: turn_defs timer_delay_def new_worker_def)
qed

lemma sweep_interval_wraps:
  "map_option (\<lambda>v. map iv_delay (wk_intervals (seat_outbox_start v new_worker)))
     (seatEnvSchema (example_env(''SWEEP_INTERVAL_MS'' \<mapsto> ''2147483648''))) = Some [1]"
  by code_simp

end
