(* ===== verification/Seeding.thy ===== *)
theory Seeding
  imports Seat_Properties Payment_Properties Auth_Properties
begin

text \<open>
  The data the system starts with: scripts/seed.ts, which puts three seats into the seat database and
  can register a demo user, and the payment service's migration 20240101000001_seed_seat_prices.sql,
  which puts the prices of the same seats into the payment database. The two tables are never
  compared at run time, so that a customer pays the price he was shown rests on their contents.
\<close>

subsection \<open>The script\<close>

definition seed_id :: "char \<Rightarrow> uuid" where
  "seed_id c = ''00000000-0000-0000-0000-00000000000'' @ [c]"

definition seed_seat :: "char \<Rightarrow> string \<Rightarrow> int \<Rightarrow> seat_row" where
  "seed_seat c label cents =
     \<lparr>s_id = seed_id c, s_label = label, s_price_cents = cents, s_currency = ''USD'', s_status = SEAT_AVAILABLE\<rparr>"

definition seed_rows :: "seat_row list" where
  "seed_rows = [seed_seat (CHR ''1'') ''A1'' 1900, seed_seat (CHR ''2'') ''A2'' 2900, seed_seat (CHR ''3'') ''A3'' 3900]"

text \<open>\<open>INSERT INTO seats .. VALUES .. ON CONFLICT (id) DO NOTHING\<close>, with its row count.\<close>

definition insert_seed_seats :: "(seat_db, nat) stmt" where
  "insert_seed_seats now d =
     (let new = filter (\<lambda>r. s_id r \<notin> s_id ` set (seats d)) seed_rows
      in Inr (length new, d\<lparr>seats := seats d @ new\<rparr>))"

text \<open>
  \<open>main\<close>: what it prints, the last line of it or the error that ends the process with status 1.
  \<open>pool_end\<close> is the error of \<open>seatPool.end()\<close> in the \<open>finally\<close>, \<open>SEED_DEMO_USER\<close> the variable of the
  environment, \<open>post\<close> sends the body to POST /api/auth/register and gives the status of the answer or
  the error of \<open>fetch\<close>.
\<close>

datatype seed_report =
    Demo_Registered
  | Demo_Exists
  | Register_Failed nat
  | Demo_Skipped

definition demo_body :: json where
  "demo_body = JObj [(''email'', JStr ''demo@example.com''), (''password'', JStr ''password123'')]"

definition seed_demo_user :: "string option \<Rightarrow> (json \<Rightarrow> exn + nat) \<Rightarrow> (seat_db, 'x, seed_report) dbm" where
  "seed_demo_user SEED_DEMO_USER post =
     (if SEED_DEMO_USER = Some ''1'' then
        (case post demo_body of
           Inl e \<Rightarrow> throwM e
         | Inr status \<Rightarrow>
             retM (if 200 \<le> status \<and> status \<le> 299 then Demo_Registered
                   else if status = 400 then Demo_Exists
                   else Register_Failed status))
      else retM Demo_Skipped)"

definition seed_main ::
    "exn option \<Rightarrow> string option \<Rightarrow> (json \<Rightarrow> exn + nat) \<Rightarrow> (seat_db, 'x, seed_report) dbm" where
  "seed_main pool_end SEED_DEMO_USER post =
     bindM (\<lambda>s. case query insert_seed_seats s of (r, s') \<Rightarrow>
              ((case pool_end of Some e \<Rightarrow> Inl e | None \<Rightarrow> r), s'))
       (\<lambda>_. seed_demo_user SEED_DEMO_USER post)"

subsection \<open>The migration of the payment service\<close>

definition seed_price :: "char \<Rightarrow> int \<Rightarrow> string \<Rightarrow> price_row" where
  "seed_price c cents label =
     \<lparr>sp_seat_id = seed_id c, sp_price_cents = cents, sp_currency = ''USD'', sp_label = label\<rparr>"

definition seed_price_rows :: "price_row list" where
  "seed_price_rows =
     [seed_price (CHR ''1'') 1900 ''A1'', seed_price (CHR ''2'') 2900 ''A2'', seed_price (CHR ''3'') 3900 ''A3'']"

definition insert_seed_prices :: "(payment_db, nat) stmt" where
  "insert_seed_prices now d =
     (let new = filter (\<lambda>p. sp_seat_id p \<notin> sp_seat_id ` set (seat_prices d)) seed_price_rows
      in Inr (length new, d\<lparr>seat_prices := seat_prices d @ new\<rparr>))"

subsection \<open>Seeding a database\<close>

lemma seed_rows_sel:
  "distinct (map s_id seed_rows)" "\<forall>s \<in> set seed_rows. s_status s = SEAT_AVAILABLE"
  by code_simp+

lemma seeds_present:
  "insert_seed_seats now d = Inr (n, d') \<Longrightarrow> s_id ` set seed_rows \<subseteq> s_id ` set (seats d')"
  by (clarsimp simp: insert_seed_seats_def Let_def) (metis (mono_tags, lifting) UnI1 UnI2 image_eqI mem_Collect_eq image_Un)

text \<open>The script may run on a database in use: it only adds free seats, and none twice.\<close>

lemma seeds_keep_ok:
  assumes "seat_db_ok d" and "insert_seed_seats now d = Inr (n, d')"
  shows "seat_db_ok d' \<and> holds d' = holds d \<and> evolves d d'"
proof -
  define new where "new = filter (\<lambda>r. s_id r \<notin> s_id ` set (seats d)) seed_rows"
  have d': "d' = d\<lparr>seats := seats d @ new\<rparr>" "n = length new"
    using assms(2) by (simp_all add: insert_seed_seats_def new_def Let_def)
  have ok: "seat_schema_ok d" "seat_status_ok d" using assms(1) by (simp_all add: seat_db_ok_def)
  have "distinct (map s_id new)" "s_id ` set new \<inter> s_id ` set (seats d) = {}"
    using seed_rows_sel(1) by (auto simp: new_def intro: distinct_map_filter)
  then have "seat_schema_ok d'" using ok(1) by (auto simp: seat_schema_ok_def outbox_ok_def d')
  moreover have "shown_ok (holds d) s" if "s \<in> set new" for s
  proof -
    have "s_id s \<notin> h_seat_id ` set (holds d)" "s_status s = SEAT_AVAILABLE"
      using that ok(1) seed_rows_sel(2) by (auto simp: new_def seat_schema_ok_def)
    then show ?thesis by (auto simp: shown_ok_def has_hold_def image_iff)
  qed
  then have "seat_status_ok d'" using ok(2) by (auto simp: seat_status_ok_def d')
  moreover have "evolves d d'"
    unfolding evolves_def d' by (intro conjI exI [of _ "holds d"] exI [of _ "[]"]) (simp_all add: list_all2_same)
  ultimately show ?thesis by (simp add: seat_db_ok_def d')
qed

lemma seeds_once:
  assumes "insert_seed_seats now d = Inr (n, d')"
  shows "insert_seed_seats now2 d' = Inr (0, d')"
proof -
  have "filter (\<lambda>r. s_id r \<notin> s_id ` set (seats d')) seed_rows = []"
    using seeds_present [OF assms] by (auto simp: filter_empty_conv)
  then show ?thesis by (simp add: insert_seed_seats_def)
qed

text \<open>A run of the script: the three seats are all there when it gets past them, however often and
  beside whatever seats it runs; if it fails they were added together or not at all.\<close>

lemma seed_main_run:
  assumes "quiet s" and "tx s = None" and "seed_main pool_end flag post s = (r, s')"
  shows "(committed s' = committed s \<or> (\<exists>now n. insert_seed_seats now (committed s) = Inr (n, committed s'))) \<and>
    (\<forall>v. r = Inr v \<longrightarrow> (\<exists>now n. insert_seed_seats now (committed s) = Inr (n, committed s'))) \<and> tx s' = None"
proof -
  obtain q s1 where q: "query insert_seed_seats s = (q, s1)" by fastforce
  have s': "s' = s1" "r = Inr v \<Longrightarrow> \<exists>n. q = Inr n" for v
    using assms(3) q by (auto simp: seed_main_def bindM_def seed_demo_user_def throwM_def retM_def
        split: option.splits sum.splits if_splits)
  show ?thesis
    using autocommit.run_atomic [OF assms(1,2) q] s'(2) unfolding all_or_nothing_def s'(1)
    by (cases q) auto
qed

text \<open>
  What the script says of the demo user is true: the registration handler answers 400 exactly when the
  address is taken. The status is the one NestJS gives: 201, the exception's own, or 500.
\<close>

fun register_status :: "exn + 'a \<Rightarrow> nat" where
  "register_status (Inr u) = 201"
| "register_status (Inl (Http_Error n e)) = n"
| "register_status (Inl e) = 500"

lemma demo_report_true:
  fixes a :: auth_proc
  assumes "quiet a" and "reliable a" and "tx a = None" and "argon2_documented (x_crypto x)"
    and "af_userId fr \<notin> u_id ` set (users (committed a))" and "x_email x ''demo@example.com''"
    and "register x fr req demo_body a = (r, a')"
    and "seed_demo_user (Some ''1'') (\<lambda>b. Inr (register_status r)) s = (Inr report, s')"
  shows "report = (if ''demo@example.com'' \<in> u_email ` set (users (committed a)) then Demo_Exists else Demo_Registered)"
proof -
  have "RegisterDto (x_email x) demo_body = Some \<lparr>cr_email = ''demo@example.com'', cr_password = ''password123''\<rparr>"
    using assms(6) by (simp add: RegisterDto_def demo_body_def str_field_def)
  moreover have "toLowerCase ''demo@example.com'' = ''demo@example.com''" by code_simp
  ultimately show ?thesis
    using register_outcome [OF assms(1-5,7)] assms(8)
    by (auto simp: seed_demo_user_def retM_def split: if_splits)
qed

subsection \<open>The prices of a seat\<close>

lemma price_lookup:
  "map_option (\<lambda>s. (s_price_cents s, s_currency s)) (find (\<lambda>s. s_id s = k) ss) = map_of (map seat_price ss) k"
  by (induction ss) (simp_all add: seat_price_def)

lemma map_of_prefix: "prefix xs ys \<Longrightarrow> map_of xs k = Some v \<Longrightarrow> map_of ys k = Some v"
  by (auto simp: prefix_def map_add_Some_iff)

lemma price_evolves:
  "evolves d d' \<Longrightarrow> map_of (map seat_price (seats d)) k = Some v \<Longrightarrow> map_of (map seat_price (seats d')) k = Some v"
  by (auto simp: evolves_def intro: map_of_prefix)

text \<open>Whatever the other replicas do meanwhile, a hold that is granted tells the price the seat had.\<close>

lemma wp_hold_tells_price:
  fixes s :: "(seat_db, 'x seat_proc_ext) conn_scheme"
  assumes i: "idle replicas d n m s" and ok: "seat_db_ok d"
    and v: "map_of (map seat_price (seats d)) seatId = Some v"
  shows "wp (seats_hold env fr seatId body userId header)
    (\<lambda>resp _. hr_priceCents resp = Some (fst v) \<and> hr_seatId resp = seatId) (\<lambda>_ _. True) s"
proof -
  have price: "wp (getPrice seatId) (\<lambda>p _. map_option fst p = Some (fst v)) (\<lambda>_ _. True) s1"
    if "idle replicas d1 n m1 s1" "seat_rel d d1" for d1 m1 and s1 :: "(seat_db, 'x seat_proc_ext) conn_scheme"
    unfolding getPrice_def
  proof (rule wp_query_auto [OF that(1)])
    fix d2 now p d' and s' :: "(seat_db, 'x seat_proc_ext) conn_scheme"
    assume a: "rel replicas d1 d2" "select_price seatId now d2 = Inr (p, d')"
    have "seat_rel d d2" using seat_rel_preorder(2) that(2) a(1) by (simp add: transpD [of seat_rel d d1])
    then have "map_of (map seat_price (seats d2)) seatId = Some v" using ok price_evolves [OF _ v] by (simp add: seat_rel_def)
    moreover have "p = map_of (map seat_price (seats d2)) seatId"
      using a(2) by (auto simp: select_price_def price_lookup)
    ultimately show "map_option fst p = Some (fst v)" by simp
  qed simp_all
  have "wp (case r of
        Hold_Conflict reason \<Rightarrow>
          bindM inc_conflicts (\<lambda>_.
          bindM (set_header ''Retry-After'' (int_string (RETRY_AFTER_SECONDS env))) (\<lambda>_.
          throwM (Http_Error 409 (conflict_error reason))))
      | Hold_Ok hold \<Rightarrow>
          bindM inc_held (\<lambda>_.
          bindM (emit (Bus_Held seatId userId (h_held_until hold))) (\<lambda>_.
          bindM (getPrice seatId) (\<lambda>p.
          retM \<lparr>hr_holdId = h_id hold, hr_seatId = seatId, hr_heldUntil = toISOString (h_held_until hold),
            hr_priceCents = map_option fst p\<rparr>))))
      (\<lambda>resp _. hr_priceCents resp = Some (fst v) \<and> hr_seatId resp = seatId) (\<lambda>_ _. True) s1"
    if "settled replicas d n s1" for r and s1 :: "(seat_db, 'x seat_proc_ext) conn_scheme"
  proof (cases r)
    case (Hold_Ok h)
    from that obtain d1 m1 where d1: "seat_rel d d1" "idle replicas d1 n m1 s1" by (auto simp: settled_def)
    let ?s2 = "s1\<lparr>seatsHeldTotal := Suc (seatsHeldTotal s1), bus := bus s1 @ [Bus_Held seatId userId (h_held_until h)]\<rparr>"
    have "idle replicas d1 n (conn.more ?s2) ?s2" using d1(2) by (simp add: conn_state_defs)
    from price [OF this d1(1)] show ?thesis by (simp add: Hold_Ok wp_simps proc_defs)
  qed (simp add: wp_simps proc_defs)
  then show ?thesis
    unfolding seats_hold_def wp_if wp_bind wp_throw
    using wp_mono [OF guaranteesD [OF replica.guarantees_insert i]] by simp
qed

text \<open>The two lists of seeds name the same seats and the same prices.\<close>

lemma seeds_agree:
  "map seat_price seed_rows = map (\<lambda>p. (sp_seat_id p, sp_price_cents p, sp_currency p)) seed_price_rows"
  by code_simp

lemma seed_price_listed:
  assumes "p \<in> set seed_price_rows"
  shows "map_of (map seat_price seed_rows) (sp_seat_id p) = Some (sp_price_cents p, sp_currency p) \<and>
    sp_currency p = ''USD''"
proof -
  have "distinct (map fst (map seat_price seed_rows))" "\<forall>p \<in> set seed_price_rows. sp_currency p = ''USD''"
    by code_simp+
  then show ?thesis using assms unfolding seeds_agree by (auto intro!: map_of_is_SomeI)
qed

lemma fresh_seeds:
  "seats d = [] \<Longrightarrow> insert_seed_seats now d = Inr (n, d') \<Longrightarrow> seats d' = seed_rows"
  "seat_prices e = [] \<Longrightarrow> insert_seed_prices now e = Inr (n, e') \<Longrightarrow> seat_prices e' = seed_price_rows"
  "insert_seed_prices now e = Inr (n, e') \<Longrightarrow> pay_inv e' = pay_inv e"
  by (auto simp: insert_seed_seats_def insert_seed_prices_def Let_def pay_inv_def payment_db_ok_def
      outbox_agrees_def outbox_ok_def)

lemma seat_prices_kept:
  assumes "payment_reach env z psp x p0 p" and "tx p0 = None" and "pay_inv (committed p0)"
  shows "seat_prices (committed p) = seat_prices (committed p0) \<and> pay_inv (committed p) \<and> tx p = None"
proof -
  have "pay_steps (committed p0) (committed p)" "tx p = None"
    using payment_reach_settled [OF assms(1,2)] by (simp_all add: pay_settled_def)
  then show ?thesis using pay_steps_ok [OF _ assms(3)] by blast
qed

text \<open>C33: A customer pays the price he was shown. Start from fresh databases, the seat service's filled
  by scripts/seed.ts, the payment service's by its migration, and let both services run, with any
  faults, replicas and interleaving (other seats may be added). If then POST /api/seats/:id/hold
  grants a hold, and POST /api/payment/checkout opens an intent for the same seat, then the seat is
  one of the seeded ones and the amount of the intent is the price of the hold's answer.\<close>

theorem held_price_is_charged:
  fixes s0 s s' :: seat_proc and p0 p p' :: payment_proc
  assumes seeded: "seed_main pool_end flag post q = (Inr report, q')" "committed s0 = committed q'"
      "quiet q" "tx q = None" "seats (committed q) = []" "seat_db_ok (committed q)" "tx s0 = None"
    and seat_run: "seat_reach env z json_parse s0 s"
    and hold: "obeys replicas sc"
      "seats_hold env fr seatId body userId header (s\<lparr>script := sc\<rparr>) = (Inr resp, s')"
    and priced: "insert_seed_prices now e = Inr (k, committed p0)" "seat_prices e = []" "pay_inv e" "tx p0 = None"
    and payment_run: "payment_reach penv z psp x p0 p"
    and pay: "abides sc2" "checkout penv z psp cf payer header2 cbody (p\<lparr>script := sc2\<rparr>) = (Inr co, p')"
      "CheckoutDto z cbody = Some dto" "dto_seatId dto = seatId" "\<not> co_idempotent co"
  shows "seatId \<in> s_id ` set seed_rows \<and> hr_priceCents resp = Some (co_amountCents co) \<and> co_currency co = ''USD''"
proof -
  obtain now n where "insert_seed_seats now (committed q) = Inr (n, committed s0)"
    using seed_main_run [OF seeded(3,4,1)] seeded(2) by auto
  then have s0: "seats (committed s0) = seed_rows" "seat_db_ok (committed s0)"
    using fresh_seeds(1) seeded(5,6) seeds_keep_ok by blast+
  have s: "seat_db_ok (committed s)" "evolves (committed s0) (committed s)" "tx s = None"
    using seat_reach_settled [OF seat_run seeded(7)] s0(2) by (auto simp: settled_at_def seat_rel_def)
  have p0: "seat_prices (committed p0) = seed_price_rows" "pay_inv (committed p0)"
    using fresh_seeds(2,3) priced(1-3) by blast+
  note p = seat_prices_kept [OF payment_run priced(4) p0(2)]
  have "idle sessions (committed p) (checked_out p) (conn.more p) (p\<lparr>script := sc2\<rparr>)"
    using abides_idle [OF pay(1)] p by blast
  from wpD [OF wp_checkout [OF this p [THEN conjunct2, THEN conjunct1]] pay(2)]
  obtain d' where "checkout_ok dto payer (committed p) d' co" using pay(3) by auto
  then obtain i r where "co = checkout_response_of False i" "r \<in> set (seat_prices (committed p))"
    "sp_seat_id r = seatId" "i_amount_cents i = sp_price_cents r" "i_currency i = sp_currency r"
    using pay(4,5) unfolding checkout_ok_def by auto
  then have r: "r \<in> set seed_price_rows" "sp_seat_id r = seatId"
    "co_amountCents co = sp_price_cents r" "co_currency co = sp_currency r"
    using p p0(1) by (simp_all add: checkout_response_of_def)
  have listed: "map_of (map seat_price seed_rows) seatId = Some (sp_price_cents r, sp_currency r)"
    "sp_currency r = ''USD''" using seed_price_listed [OF r(1)] r(2) by auto
  have "idle replicas (committed s) (checked_out s) (conn.more s) (s\<lparr>script := sc\<rparr>)"
    using replica.preorder hold(1) s(3) by (simp add: conn_state_defs obeys_def)
  from wpD [OF wp_hold_tells_price [OF this s(1) price_evolves [OF s(2)]] hold(2)] listed s0(1)
  have "hr_priceCents resp = Some (sp_price_cents r)" by simp
  moreover have "seatId \<in> s_id ` set seed_rows"
    using map_of_SomeD [OF listed(1)] by (auto simp: seat_price_def)
  ultimately show ?thesis using r(3,4) listed(2) by simp
qed

definition bare_seats :: "seat_db tick list \<Rightarrow> seat_proc" where
  "bare_seats sc = (demo sc)\<lparr>committed := \<lparr>outbox = [], outbox_seq = 0, seats = [], holds = [], consumed_events = []\<rparr>\<rparr>"

definition bare_payments :: payment_db where
  "bare_payments = \<lparr>outbox = [], outbox_seq = 0, intents = [], inbox = [], seat_prices = []\<rparr>"

definition seeded_seats :: seat_proc where
  "seeded_seats = snd (seed_main None None (\<lambda>_. Inl Zod_Error) (bare_seats []))"

definition seeded_payments :: payment_proc where
  "seeded_payments = (pay [])\<lparr>committed := bare_payments\<lparr>seat_prices := seed_price_rows\<rparr>\<rparr>"

definition seed_body :: json where
  "seed_body = JObj [(''seatId'', JStr (seed_id (CHR ''2''))), (''holdId'', JStr (uid (CHR ''b''))),
     (''idempotencyKey'', JStr (uid (CHR ''5'')))]"

theorem held_price_is_charged_witness:
  "hr_priceCents (projr (fst (seats_hold demo_env demo_fresh (seed_id (CHR ''2'')) (Some (JObj [])) ''u3'' None
     (seeded_seats\<lparr>script := []\<rparr>)))) =
   Some (co_amountCents (projr (fst (checkout pay_env zod_shapes (mock_psp ''r'') pay_fresh (uid (CHR ''a'')) None
     seed_body (seeded_payments\<lparr>script := []\<rparr>)))))"
proof -
  let ?h = "seats_hold demo_env demo_fresh (seed_id (CHR ''2'')) (Some (JObj [])) ''u3'' None (seeded_seats\<lparr>script := []\<rparr>)"
  let ?c = "checkout pay_env zod_shapes (mock_psp ''r'') pay_fresh (uid (CHR ''a'')) None
     seed_body (seeded_payments\<lparr>script := []\<rparr>)"
  have main: "fst (seed_main None None (\<lambda>_. Inl Zod_Error) (bare_seats [])) = Inr Demo_Skipped" by code_simp
  have db: "seats (committed (bare_seats [])) = []" "seat_db_ok (committed (bare_seats []))" "tx seeded_seats = None"
    "tx (bare_seats []) = None" by code_simp+
  have quiet: "quiet (bare_seats [])" by (simp add: quiet_def bare_seats_def)
  have h: "fst ?h = Inr (projr (fst ?h))" by code_simp
  have c: "fst ?c = Inr (projr (fst ?c))" "\<not> co_idempotent (projr (fst ?c))" by code_simp+
  have prices: "insert_seed_prices 0 bare_payments = Inr (3, committed seeded_payments)" by code_simp
  have pay: "pay_inv bare_payments" by (simp add: pay_inv_def payment_db_ok_def outbox_agrees_def outbox_ok_def bare_payments_def)
  have dto: "CheckoutDto zod_shapes seed_body =
      Some \<lparr>dto_seatId = seed_id (CHR ''2''), dto_holdId = uid (CHR ''b''), dto_idempotencyKey = uid (CHR ''5'')\<rparr>"
    by code_simp
  show ?thesis
    by (rule held_price_is_charged [where seatId = "seed_id (CHR ''2'')" and s0 = seeded_seats and p0 = seeded_payments,
        OF run_pair [OF main] _ quiet db(4,1,2,3) seat_reach.start _ run_pair [OF h] prices _ pay _
          payment_reach.start _ run_pair [OF c(1)] dto _ c(2), THEN conjunct2, THEN conjunct1])
      (simp_all add: seeded_seats_def seeded_payments_def bare_payments_def obeys_def)
qed

end
