(* ===== verification/Seat_Booking.thy ===== *)
theory Seat_Booking
  imports Seat_Properties
begin

text \<open>
  What the seat service is for, without tables, transactions and retries: a booking is placed on a free
  seat by a user without another live booking, and is then released or reserved, once. The machine
  \<open>book_step\<close> says so; the service refines it: what any of its steps, or those of its replicas, does to the
  database is a sequence of steps of the machine.
\<close>

subsection \<open>The booking machine\<close>

type_synonym bookings = "uuid \<rightharpoonup> uuid \<times> uuid \<times> hold_status"
  \<comment> \<open>the seat, the user and the status of a booking\<close>

definition live_on :: "bookings \<Rightarrow> uuid \<Rightarrow> bool" where
  "live_on b seat \<longleftrightarrow> (\<exists>k user. b k = Some (seat, user, HELD))"

definition live_of :: "bookings \<Rightarrow> uuid \<Rightarrow> bool" where
  "live_of b user \<longleftrightarrow> (\<exists>k seat. b k = Some (seat, user, HELD))"

inductive book_step :: "bookings \<Rightarrow> bookings \<Rightarrow> bool" where
  place: "b k = None \<Longrightarrow> \<not> live_on b seat \<Longrightarrow> \<not> live_of b user \<Longrightarrow> book_step b (b(k \<mapsto> (seat, user, HELD)))"
| drop: "b k = Some (seat, user, HELD) \<Longrightarrow> book_step b (b(k \<mapsto> (seat, user, RELEASED)))"
| settle: "b k = Some (seat, user, HELD) \<Longrightarrow> book_step b (b(k \<mapsto> (seat, user, RESERVED)))"

inductive_cases book_stepE: "book_step b b'"

lemmas book_more = rtranclp.rtrancl_into_rtrancl [where r = book_step]

lemmas book_one = book_more [OF rtranclp.rtrancl_refl]

text \<open>What the machine keeps, by rule induction.\<close>

definition one_live :: "bookings \<Rightarrow> bool" where
  "one_live b \<longleftrightarrow>
     (\<forall>k k' seat user seat' user'. b k = Some (seat, user, HELD) \<longrightarrow> b k' = Some (seat', user', HELD) \<longrightarrow>
        seat = seat' \<or> user = user' \<longrightarrow> k = k')"

lemma one_live_step: "book_step b b' \<Longrightarrow> one_live b \<Longrightarrow> one_live b'"
  by (induction rule: book_step.induct) (fastforce simp: one_live_def live_on_def live_of_def split: if_splits)+

lemma closed_step: "book_step b b' \<Longrightarrow> b k = Some (seat, user, st) \<Longrightarrow> st \<noteq> HELD \<Longrightarrow> b' k = Some (seat, user, st)"
  by (induction rule: book_step.induct) auto

lemma booked_step: "book_step b b' \<Longrightarrow> b k = Some (seat, user, st) \<Longrightarrow> \<exists>st'. b' k = Some (seat, user, st')"
  by (induction rule: book_step.induct) auto

lemma one_live_steps: "book_step\<^sup>*\<^sup>* b b' \<Longrightarrow> one_live b \<Longrightarrow> one_live b'"
  by (induction rule: rtranclp_induct) (auto intro: one_live_step)

lemma closed_steps:
  "book_step\<^sup>*\<^sup>* b b' \<Longrightarrow> b k = Some (seat, user, st) \<Longrightarrow> st \<noteq> HELD \<Longrightarrow> b' k = Some (seat, user, st)"
  by (induction rule: rtranclp_induct) (auto intro: closed_step)

lemma booked_steps: "book_step\<^sup>*\<^sup>* b b' \<Longrightarrow> b k = Some (seat, user, st) \<Longrightarrow> \<exists>st'. b' k = Some (seat, user, st')"
  by (induction rule: rtranclp_induct) (auto dest: booked_step)

subsection \<open>The bookings of a database\<close>

definition booking :: "hold_row \<Rightarrow> uuid \<times> uuid \<times> uuid \<times> hold_status" where
  "booking h = (h_id h, h_seat_id h, h_user_id h, h_status h)"

definition bookings_of :: "hold_row list \<Rightarrow> bookings" where
  "bookings_of hs = map_of (map booking hs)"

definition abs_db :: "seat_db \<Rightarrow> bookings" where
  "abs_db d = bookings_of (holds d)"

lemma fst_booking [simp]: "fst (booking h) = h_id h" "fst \<circ> booking = h_id"
  by (auto simp: booking_def)

lemma bookings_of_Some:
  assumes "distinct (map h_id hs)"
  shows "bookings_of hs k = Some (seat, user, st) \<longleftrightarrow>
    (\<exists>h \<in> set hs. h_id h = k \<and> h_seat_id h = seat \<and> h_user_id h = user \<and> h_status h = st)"
proof -
  have "distinct (map fst (map booking hs))" using assms by simp
  from map_of_eq_Some_iff [OF this] show ?thesis by (auto simp: bookings_of_def booking_def image_iff)
qed

lemma bookings_of_None: "bookings_of hs k = None \<longleftrightarrow> k \<notin> h_id ` set hs"
  by (simp add: bookings_of_def map_of_eq_None_iff image_image)

lemma bookings_of_middle:
  assumes "distinct (map h_id (pre @ h # post))" and "h_id h' = h_id h"
  shows "bookings_of (pre @ h' # post) = (bookings_of (pre @ h # post))(h_id h \<mapsto> snd (booking h'))"
  using assms by (auto simp: bookings_of_def map_add_def booking_def fun_eq_iff map_of_eq_None_iff
      split: option.splits) (metis (no_types, lifting) image_eqI map_of_SomeD fst_conv)

text \<open>Closing the rows of a set of live holds is that many steps of the machine.\<close>

lemma book_upd_where:
  assumes "distinct (map h_id (pre @ hs))" and "\<And>h. P h \<Longrightarrow> held h"
    and f: "f = release_row now \<or> f = reserve_row now"
  shows "book_step\<^sup>*\<^sup>* (bookings_of (pre @ hs)) (bookings_of (pre @ upd_where P f hs))"
  using assms(1)
proof (induction hs arbitrary: pre)
  case (Cons h hs)
  let ?h = "if P h then f h else h"
  have id: "h_id ?h = h_id h" using f by auto
  have "book_step\<^sup>*\<^sup>* (bookings_of (pre @ h # hs)) (bookings_of (pre @ ?h # hs))"
  proof (cases "P h")
    case True
    have "bookings_of (pre @ h # hs) (h_id h) = Some (h_seat_id h, h_user_id h, HELD)"
      using Cons.prems assms(2) [OF True] by (subst bookings_of_Some) auto
    then have step: "book_step (bookings_of (pre @ h # hs))
        ((bookings_of (pre @ h # hs))(h_id h \<mapsto> (h_seat_id h, h_user_id h, st)))" if "st \<noteq> HELD" for st
      using that by (cases st) (auto intro: book_step.intros)
    obtain st where "st \<noteq> HELD" "snd (booking (f h)) = (h_seat_id h, h_user_id h, st)"
      using f by (auto simp: booking_def)
    then have "book_step (bookings_of (pre @ h # hs)) (bookings_of (pre @ ?h # hs))"
      unfolding bookings_of_middle [OF Cons.prems id] using step True by simp
    then show ?thesis by (rule book_one)
  qed simp
  moreover have "book_step\<^sup>*\<^sup>* (bookings_of ((pre @ [?h]) @ hs)) (bookings_of ((pre @ [?h]) @ upd_where P f hs))"
    by (rule Cons.IH) (use Cons.prems id in auto)
  ultimately show ?case by simp
qed simp

text \<open>The machine sees of a step of the service what it does to the holds.\<close>

definition books :: "seat_db \<Rightarrow> seat_db \<Rightarrow> bool" where
  "books d d' \<longleftrightarrow> (seat_db_ok d \<longrightarrow> seat_db_ok d' \<and> book_step\<^sup>*\<^sup>* (abs_db d) (abs_db d'))"

definition booking_sessions :: "seat_db environment" where
  "booking_sessions = \<lparr>rel = books, faulty = True\<rparr>"

lemma booking_sessions_sel [simp]: "rel booking_sessions = books" "faulty booking_sessions"
  by (simp_all add: booking_sessions_def)

lemma books_preorder: "reflp books" "transp books"
  by (auto simp: books_def intro!: reflpI transpI)

lemma abs_db_ids: "seat_db_ok d \<Longrightarrow> distinct (map h_id (holds d))"
  by (simp add: seat_db_ok_def seat_schema_ok_def)

lemma books_same: "holds d' = holds d \<Longrightarrow> (seat_db_ok d \<Longrightarrow> seat_db_ok d') \<Longrightarrow> books d d'"
  by (simp add: books_def abs_db_def)

lemma books_update:
  assumes "holds d' = upd_where P f (holds d)" and "\<And>h. P h \<Longrightarrow> held h"
    and "f = release_row now \<or> f = reserve_row now" and "seat_db_ok d \<Longrightarrow> seat_db_ok d'"
  shows "books d d'"
  using book_upd_where [of "[]" "holds d" P f now] assms abs_db_ids [of d] by (auto simp: books_def abs_db_def)

lemma books_insert:
  assumes "insert_hold_spec env nowJs holdId eventId occ seatId userId traceId now d = Inr (r, d')"
  shows "books d d'"
proof (cases r)
  case (Hold_Conflict c)
  then show ?thesis using assms by (auto dest!: insert_hold_spec_conflict intro: books_same)
next
  case (Hold_Ok h)
  then have placed: "hold_placed env nowJs holdId eventId occ seatId userId traceId d h d'"
    using assms insert_hold_spec_placed by blast
  show ?thesis
    unfolding books_def
  proof (intro impI conjI)
    assume ok: "seat_db_ok d"
    show ok': "seat_db_ok d'" by (rule insert_hold_spec_keeps_ok [OF ok assms])
    obtain now where holds: "holds d' =
        upd_where (\<lambda>x. h_seat_id x = seatId \<and> expired now x) (release_row now) (holds d) @ [h]"
      and h: "h_id h = holdId" "h_seat_id h = seatId" "h_user_id h = userId" "held h"
      using placed unfolding hold_placed_def by auto
    let ?hs = "upd_where (\<lambda>x. h_seat_id x = seatId \<and> expired now x) (release_row now) (holds d)"
    have cleaned: "book_step\<^sup>*\<^sup>* (abs_db d) (bookings_of ?hs)"
      using book_upd_where [of "[]" "holds d" "\<lambda>x. h_seat_id x = seatId \<and> expired now x" "release_row now" now]
        abs_db_ids [OF ok] by (simp add: abs_db_def)
    have placed: "book_step (bookings_of ?hs) ((bookings_of ?hs)(holdId \<mapsto> (seatId, userId, HELD)))"
    proof (rule book_step.place)
      have "seat_schema_ok d'" using ok' by (simp add: seat_db_ok_def)
      then have "holdId \<notin> h_id ` set ?hs" and ids: "distinct (map h_id ?hs)"
        and other: "held x \<Longrightarrow> x \<in> set ?hs \<Longrightarrow> h_seat_id x \<noteq> seatId \<and> h_user_id x \<noteq> userId" for x
        using h by (auto simp: seat_schema_ok_def holds unique_where_snoc)
      then show "bookings_of ?hs holdId = None" "\<not> live_on (bookings_of ?hs) seatId" "\<not> live_of (bookings_of ?hs) userId"
        by (auto simp: bookings_of_None live_on_def live_of_def bookings_of_Some [OF ids])
    qed
    have "(bookings_of ?hs)(holdId \<mapsto> (seatId, userId, HELD)) = abs_db d'"
      using abs_db_ids [OF ok'] h
      by (auto simp: abs_db_def holds bookings_of_def booking_def fun_eq_iff map_add_def map_of_eq_None_iff image_iff
          split: option.splits)
    with book_more [OF cleaned placed]
    show "book_step\<^sup>*\<^sup>* (abs_db d) (abs_db d')" by simp
  qed
qed

lemma books_release:
  assumes "release_hold_spec holdId reason traceId eventId occ now d = Inr (r, d')"
  shows "books d d'"
proof (cases "filter (\<lambda>h. h_id h = holdId \<and> held h) (holds d) = []")
  case True
  then show ?thesis using assms by (simp add: release_hold_spec_def books_same)
next
  case False
  then have "holds d' = upd_where (\<lambda>h. h_id h = holdId \<and> held h) (release_row now) (holds d)"
    using assms by (auto simp: release_hold_spec_def Let_def)
  then show ?thesis by (rule books_update) (auto intro: release_hold_spec_keeps_ok [OF _ assms])
qed

lemma books_reserve:
  assumes "reserve_hold_spec holdId eventId cg traceId newEventId occ now d = Inr (r, d')"
  shows "books d d'"
proof (cases "(eventId, cg) \<in> set (consumed_events d) \<or> filter (\<lambda>h. h_id h = holdId \<and> held h) (holds d) = []")
  case True
  then have "holds d' = holds d" using assms by (auto simp: reserve_hold_spec_def Let_def split: if_splits)
  then show ?thesis by (rule books_same) (rule reserve_hold_spec_keeps_ok [OF _ assms])
next
  case False
  then have "holds d' = upd_where (\<lambda>h. h_id h = holdId \<and> held h) (reserve_row now) (holds d)"
    using assms by (auto simp: reserve_hold_spec_def Let_def)
  then show ?thesis by (rule books_update) (auto intro: reserve_hold_spec_keeps_ok [OF _ assms])
qed

lemma books_sweep:
  assumes scan: "scan_ok scan" and "sweep_spec env scan traceId fresh occs now d = Inr (u, d')"
  shows "books d d'"
proof (cases "seat_db_ok d")
  case True
  let ?B = "set (sweep_batch scan (SWEEP_BATCH_LIMIT env) now d)"
  have "holds d' = upd_where (\<lambda>h. h_id h \<in> ?B) (release_row now) (holds d)"
    using sweep_spec_holds [OF assms(2)] .
  also have "\<dots> = upd_where (\<lambda>h. h_id h \<in> ?B \<and> held h) (release_row now) (holds d)"
    using swept_expired [OF _ scan] True by (auto simp: upd_where_def seat_db_ok_def)
  finally show ?thesis
    by (intro books_update [where P = "\<lambda>h. h_id h \<in> ?B \<and> held h" and now = now])
      (auto intro: sweep_spec_keeps_ok [OF _ scan assms(2)])
qed (simp add: books_def)

interpretation booked: seat_sessions booking_sessions
  using books_preorder by unfold_locales (auto intro: books_insert books_release books_sweep)

lemma books_payment_effect: "payment_effect newEventId occ ev now d = Inr (u, d') \<Longrightarrow> books d d'"
  by (cases ev) (auto simp: payment_effect_def dest: books_release books_reserve, simp_all add: books_def)

subsection \<open>The refinement\<close>

text \<open>A run of the service among sessions that respect the machine, as its replicas do by this theorem.\<close>

abbreviation booking_step :: "seat_env \<Rightarrow> zod_formats \<Rightarrow> (string \<Rightarrow> json option) \<Rightarrow> seat_proc \<Rightarrow> seat_proc \<Rightarrow> bool" where
  "booking_step \<equiv> seat_step_in booking_sessions UNIV"

lemma booking_step_books:
  assumes "booking_step env z json_parse s s'" and "tx s = None"
  shows "books (committed s) (committed s') \<and> tx s' = None"
  using booked.step_settled [OF assms] books_payment_effect by simp

lemma booking_steps_book:
  "(booking_step env z json_parse)\<^sup>*\<^sup>* s s' \<Longrightarrow> tx s = None \<Longrightarrow> books (committed s) (committed s') \<and> tx s' = None"
proof (induction rule: rtranclp_induct)
  case base
  then show ?case using books_preorder(1) by (simp add: reflpD)
next
  case (step s1 s2)
  then show ?case using booking_step_books [OF step.hyps(2)] books_preorder(2) by (blast dest: transpD)
qed

lemma one_live_abs:
  assumes "seat_db_ok d"
  shows "one_live (abs_db d)"
proof -
  have ok: "seat_schema_ok d" using assms by (simp add: seat_db_ok_def)
  show ?thesis
    unfolding one_live_def abs_db_def bookings_of_Some [OF abs_db_ids [OF assms]]
    using held_seat_unique [OF ok] held_user_unique [OF ok] by metis
qed

text \<open>C4: The seat service refines the booking machine. Take any number of steps of the service (holds,
  releases, sweeps, payment events), each with any failures and with sessions that respect the machine
  committing at any point. What they do to the holds is a sequence of steps of the machine: each booking
  is placed on a free seat by a user without a live booking, and released or reserved once. So a seat
  and a user never have two live bookings, and a closed booking never changes.\<close>

theorem seat_service_refines_booking:
  assumes "(booking_step env z json_parse)\<^sup>*\<^sup>* s s'" and "tx s = None" and "seat_db_ok (committed s)"
  shows "book_step\<^sup>*\<^sup>* (abs_db (committed s)) (abs_db (committed s')) \<and>
    one_live (abs_db (committed s')) \<and>
    (\<forall>k seat user st. abs_db (committed s) k = Some (seat, user, st) \<longrightarrow>
       (\<exists>st'. abs_db (committed s') k = Some (seat, user, st') \<and> (st \<noteq> HELD \<longrightarrow> st' = st)))"
proof -
  have steps: "book_step\<^sup>*\<^sup>* (abs_db (committed s)) (abs_db (committed s'))"
    using booking_steps_book [OF assms(1,2)] assms(3) by (simp add: books_def)
  have "\<exists>st'. abs_db (committed s') k = Some (seat, user, st') \<and> (st \<noteq> HELD \<longrightarrow> st' = st)"
    if "abs_db (committed s) k = Some (seat, user, st)" for k seat user st
    using booked_steps [OF steps that] closed_steps [OF steps that] by (cases "st = HELD") auto
  with steps one_live_steps [OF steps one_live_abs [OF assms(3)]] show ?thesis by blast
qed

theorem seat_service_refines_booking_witness:
  "one_live (abs_db (committed (snd (seats_hold demo_env demo_fresh ''s1'' (Some (JObj [])) ''u1'' None (demo []))))) \<and>
   abs_db (committed (snd (seats_hold demo_env demo_fresh ''s1'' (Some (JObj [])) ''u1'' None (demo [])))) ''h1'' =
     Some (''s1'', ''u1'', HELD)"
proof -
  let ?op = "seats_hold demo_env demo_fresh ''s1'' (Some (JObj [])) ''u1'' None (demo [])"
  have "booking_step demo_env zod_shapes (\<lambda>_. None) (demo []) (snd ?op)"
    by (rule seat_step_in.hold [of booking_sessions "[]" demo_env demo_fresh "''s1''" "Some (JObj [])" "''u1''" None
          "demo []" "fst ?op"]) (simp_all add: obeys_def demo_def)
  then have "(booking_step demo_env zod_shapes (\<lambda>_. None))\<^sup>*\<^sup>* (demo []) (snd ?op)" by blast
  moreover have "abs_db (committed (snd ?op)) ''h1'' = Some (''s1'', ''u1'', HELD)" by code_simp
  ultimately show ?thesis using seat_service_refines_booking demo_db_ok by simp
qed

end
