(* ===== verification/Ledger.thy ===== *)
theory Ledger
  imports Guarantee
begin

text \<open>
  Counters of a process against the contents of its database. A ledger reads some numbers \<open>f\<close> of the
  process's own state and bounds them by the committed contents (\<open>R\<close>), in a way no other session can
  break. \<open>tallies G f R op\<close> says that \<open>op\<close> keeps the bound, however it ends: one rule per construct of
  the monad, one for handlers that leave the counters alone, one for a method under the transaction
  contract followed by the increment it earns.
\<close>

definition leaves :: "(('d, 'x) conn_scheme \<Rightarrow> 'c) \<Rightarrow> ('d, 'x, 'a) dbm \<Rightarrow> bool" where
  "leaves f op \<longleftrightarrow> (\<forall>s. f (snd (op s)) = f s)"

definition tallied :: "'d environment \<Rightarrow> (('d, 'x) conn_scheme \<Rightarrow> 'c) \<Rightarrow> ('d \<Rightarrow> 'c \<Rightarrow> bool) \<Rightarrow> nat \<Rightarrow>
    ('d, 'x) conn_scheme \<Rightarrow> bool" where
  "tallied G f R n s \<longleftrightarrow> (\<exists>d m. idle G d n m s \<and> R d (f s))"

definition tallies :: "'d environment \<Rightarrow> (('d, 'x) conn_scheme \<Rightarrow> 'c) \<Rightarrow> ('d \<Rightarrow> 'c \<Rightarrow> bool) \<Rightarrow>
    ('d, 'x, 'a) dbm \<Rightarrow> bool" where
  "tallies G f R op \<longleftrightarrow>
     (\<forall>n s. tallied G f R n s \<longrightarrow> wp op (\<lambda>_. tallied G f R n) (\<lambda>_. tallied G f R n) s)"

named_theorems tally "the counters the control structures and the methods keep"
named_theorems leave "what leaves the counters of a process alone"

lemma talliesD:
  "tallies G f R op \<Longrightarrow> tallied G f R n s \<Longrightarrow> wp op (\<lambda>_. tallied G f R n) (\<lambda>_. tallied G f R n) s"
  by (simp add: tallies_def)

lemma tallies_run:
  "tallies G f R op \<Longrightarrow> tallied G f R n s \<Longrightarrow> op s = (r, s') \<Longrightarrow> tallied G f R n s'"
  by (drule (1) talliesD, drule (1) wpD) (simp split: sum.splits)

lemma tallies_basic [tally]:
  "tallies G f R (retM a)" "tallies G f R (throwM e)" "tallies G f R (getsM g)"
  by (simp_all add: tallies_def wp_ret wp_throw wp_gets)

lemma tallies_bind [tally]:
  "tallies G f R op \<Longrightarrow> (\<And>a. tallies G f R (k a)) \<Longrightarrow> tallies G f R (bindM op k)"
  unfolding tallies_def [of G f R "bindM op k"] wp_bind by (auto intro: wp_mono [OF talliesD] talliesD)

lemma tallies_try [tally]:
  "tallies G f R op \<Longrightarrow> (\<And>e. tallies G f R (h e)) \<Longrightarrow> tallies G f R (try_catch op h)"
  unfolding tallies_def [of G f R "try_catch op h"] wp_try by (auto intro: wp_mono [OF talliesD] talliesD)

lemma tallies_cases [tally]:
  "(b \<Longrightarrow> tallies G f R op) \<Longrightarrow> (\<not> b \<Longrightarrow> tallies G f R op') \<Longrightarrow> tallies G f R (if b then op else op')"
  "tallies G f R op \<Longrightarrow> (\<And>x. tallies G f R (g x)) \<Longrightarrow> tallies G f R (case v of None \<Rightarrow> op | Some x \<Rightarrow> g x)"
  "(\<And>x. tallies G f R (h x)) \<Longrightarrow> (\<And>y. tallies G f R (h' y)) \<Longrightarrow> tallies G f R (case w of Inl x \<Rightarrow> h x | Inr y \<Rightarrow> h' y)"
  "tallies G f R op \<Longrightarrow> (\<And>x xs. tallies G f R (i x xs)) \<Longrightarrow> tallies G f R (case l of [] \<Rightarrow> op | x # xs \<Rightarrow> i x xs)"
  "(\<And>x y. tallies G f R (j x y)) \<Longrightarrow> tallies G f R (case p of (x, y) \<Rightarrow> j x y)"
  by (auto split: option.split sum.split list.split prod.split)

text \<open>What a caught call pays for, when the increment comes after the catch.\<close>

lemma tallies_caught:
  assumes "tallies G f R (bindM op (\<lambda>a. k (g a)))" and "\<And>e. tallies G f R (bindM (h e) k)"
  shows "tallies G f R (bindM (try_catch (bindM op (\<lambda>a. retM (g a))) h) k)"
  unfolding tallies_def wp_bind wp_try wp_ret
proof (intro allI impI)
  fix n s assume t: "tallied G f R n s"
  have "wp op (\<lambda>a. wp (k (g a)) (\<lambda>_. tallied G f R n) (\<lambda>_. tallied G f R n)) (\<lambda>_. tallied G f R n) s"
    using talliesD [OF assms(1) t] by (simp add: wp_bind)
  then show "wp op (\<lambda>a. wp (k (g a)) (\<lambda>_. tallied G f R n) (\<lambda>_. tallied G f R n))
      (\<lambda>e. wp (h e) (\<lambda>a. wp (k a) (\<lambda>_. tallied G f R n) (\<lambda>_. tallied G f R n)) (\<lambda>_. tallied G f R n)) s"
    by (rule wp_mono) (use talliesD [OF assms(2)] in \<open>auto simp: wp_bind\<close>)
qed

text \<open>A change of the process's own state that the bound allows.\<close>

lemma tallied_modify:
  "bookkeeping g \<Longrightarrow> (\<And>d. R d (f s) \<Longrightarrow> R d (f (g s))) \<Longrightarrow> tallied G f R n s \<Longrightarrow> tallied G f R n (g s)"
  unfolding tallied_def by (blast intro: bookkeeping_idle)

lemma tallies_modify:
  "bookkeeping g \<Longrightarrow> (\<And>d s. R d (f s) \<Longrightarrow> R d (f (g s))) \<Longrightarrow> tallies G f R (modifyM g)"
  unfolding tallies_def wp_modify by (blast intro: tallied_modify)

locale ledger =
  fixes G :: "'d environment"
    and f :: "('d, 'x) conn_scheme \<Rightarrow> 'c"
    and R :: "'d \<Rightarrow> 'c \<Rightarrow> bool"
  assumes process: "conn.more s' = conn.more s \<Longrightarrow> f s' = f s"
    and mono: "rel G d d' \<Longrightarrow> R d c \<Longrightarrow> R d' c"
begin

text \<open>The calls of the database client are no business of the counters.\<close>

lemma leaves_calls [leave]:
  "leaves f connect" "leaves f begin_tx" "leaves f commit_tx" "leaves f rollback_tx" "leaves f (query st)"
  unfolding leaves_def
  by (intro allI process; auto simp: connect_def begin_tx_def commit_tx_def rollback_tx_def query_def
      next_tick_def Let_def split: list.splits option.splits fate.splits sum.splits)+

lemma leaves_basic [leave]: "leaves f (retM a)" "leaves f (throwM e)" "leaves f (getsM g)"
  by (simp_all add: leaves_def retM_def throwM_def getsM_def)

lemma leaves_lift [leave]: "leaves f (liftM r)"
  unfolding liftM_def by (cases r) (simp_all add: leaves_basic)

lemma leaves_bind [leave]: "leaves f op \<Longrightarrow> (\<And>a. leaves f (k a)) \<Longrightarrow> leaves f (bindM op k)"
  unfolding leaves_def bindM_def by (metis (mono_tags, lifting) prod.case_eq_if sum.case_eq_if snd_conv)

lemma leaves_try [leave]: "leaves f op \<Longrightarrow> (\<And>e. leaves f (h e)) \<Longrightarrow> leaves f (try_catch op h)"
  unfolding leaves_def try_catch_def by (metis (mono_tags, lifting) prod.case_eq_if sum.case_eq_if snd_conv)

lemma leaves_modify: "(\<And>s. f (g s) = f s) \<Longrightarrow> leaves f (modifyM g)"
  by (simp add: leaves_def modifyM_def)

lemma leaves_finally: "leaves f op \<Longrightarrow> (\<And>s. f (g s) = f s) \<Longrightarrow> leaves f (finallyM op g)"
  by (simp add: leaves_def finallyM_def split: prod.split) (metis snd_conv)

lemma leaves_conn [leave]: "leaves f op \<Longrightarrow> leaves f (with_conn op)" "leaves f op \<Longrightarrow> leaves f (rolling_back op)"
proof -
  have rel: "f (release s) = f s" for s by (rule process) (simp add: release_def)
  show "leaves f op \<Longrightarrow> leaves f (with_conn op)" "leaves f op \<Longrightarrow> leaves f (rolling_back op)"
    unfolding with_conn_def rolling_back_def by (assumption | rule leave leaves_finally rel)+
qed

lemma leaves_cases [leave]:
  "(b \<Longrightarrow> leaves f op) \<Longrightarrow> (\<not> b \<Longrightarrow> leaves f op') \<Longrightarrow> leaves f (if b then op else op')"
  "leaves f op \<Longrightarrow> (\<And>x. leaves f (g x)) \<Longrightarrow> leaves f (case v of None \<Rightarrow> op | Some x \<Rightarrow> g x)"
  "(\<And>x. leaves f (h x)) \<Longrightarrow> (\<And>y. leaves f (h' y)) \<Longrightarrow> leaves f (case w of Inl x \<Rightarrow> h x | Inr y \<Rightarrow> h' y)"
  "(\<And>x y. leaves f (i x y)) \<Longrightarrow> leaves f (case p of (x, y) \<Rightarrow> i x y)"
  by (auto split: option.split sum.split prod.split)

lemma leaves_forM [leave]: "(\<And>x. leaves f (body x)) \<Longrightarrow> leaves f (forM xs body)"
  by (induction xs) (simp_all add: leave)

text \<open>What leaves the counters alone and respects \<open>G\<close> keeps the bound.\<close>

lemma tallies_leaves:
  assumes "guarantees G op" and "leaves f op"
  shows "tallies G f R op"
  unfolding tallies_def tallied_def
proof (intro allI impI, elim exE conjE)
  fix n s d m assume i: "idle G d n m s" and r: "R d (f s)"
  obtain v s' where run: "op s = (v, s')" by fastforce
  have "settled G d n s'" using wpD [OF guaranteesD [OF assms(1) i] run] by (simp split: sum.splits)
  moreover have "f s' = f s" using assms(2) run by (metis leaves_def snd_conv)
  ultimately show "wp op (\<lambda>_ s. \<exists>d m. idle G d n m s \<and> R d (f s)) (\<lambda>_ s. \<exists>d m. idle G d n m s \<and> R d (f s)) s"
    using r mono by (fastforce simp: wp_def run settled_def split: sum.split)
qed

text \<open>A method that keeps the contract, then what its success pays for.\<close>

lemma tallies_then:
  assumes atomic: "atomic_op op st"
    and keep: "\<And>now d a d'. st now d = Inr (a, d') \<Longrightarrow> rel G d d'"
    and paid: "\<And>now d a d' n m s. st now d = Inr (a, d') \<Longrightarrow> R d (f s) \<Longrightarrow> R d' (f s) \<Longrightarrow> idle G d' n m s \<Longrightarrow>
      wp (k a) (\<lambda>_. tallied G f R n) (\<lambda>_. tallied G f R n) s"
  shows "tallies G f R (bindM op k)"
  unfolding tallies_def wp_bind
proof (intro allI impI)
  fix n s assume "tallied G f R n s"
  then obtain d m where i: "idle G d n m s" and r: "R d (f s)" by (auto simp: tallied_def)
  have same: "f s' = f s" if "idle G d' n m s'" for d' s'
    by (rule process) (use that i in \<open>simp add: conn_state_defs\<close>)
  show "wp op (\<lambda>a. wp (k a) (\<lambda>_. tallied G f R n) (\<lambda>_. tallied G f R n)) (\<lambda>_. tallied G f R n) s"
  proof (rule wp_mono [OF atomic_op.atomic [OF atomic i]])
    fix a s' assume "atomic_ok G st d n m a s'"
    then obtain d0 now d' where d: "rel G d d0" "st now d0 = Inr (a, d')" "idle G d' n m s'"
      by (auto simp: atomic_ok_def)
    show "wp (k a) (\<lambda>_. tallied G f R n) (\<lambda>_. tallied G f R n) s'"
      by (rule paid [OF d(2) _ _ d(3)]) (use r mono d(1) keep [OF d(2)] same [OF d(3)] in auto)
  next
    fix e s' assume "atomic_err G st d n m e s'"
    then obtain d' where "rel G d d'" "idle G d' n m s'"
      unfolding atomic_err_def using keep idle_trans [OF i] by blast
    then show "tallied G f R n s'" using r mono same by (auto simp: tallied_def)
  qed
qed

end

end
