(* ===== verification/Metrics.thy ===== *)
theory Metrics
  imports Ledger Seat_Properties Webhook_Properties Auth_Properties
begin

text \<open>
  metrics/metrics.controller.ts of the three services: the counters they register and what
  GET /metrics reads of them (the text format and the default metrics are prom-client's). The
  handlers increment most of them after the work they count; those of each service are a ledger over
  its database, and none of them ever shows more than the tables record. The counters of failed logins
  and of received webhooks are incremented before the row is written, and can.
\<close>

subsection \<open>The registries\<close>

record metric =
  mc_name :: string
  mc_help :: string
  mc_value :: nat

definition metric_counter :: "string \<Rightarrow> string \<Rightarrow> nat \<Rightarrow> metric" where
  "metric_counter name help v = \<lparr>mc_name = name, mc_help = help, mc_value = v\<rparr>"

text \<open>\<open>reservationsCancelledTotal\<close> and \<open>hotSeatDetectedTotal\<close> are registered and never incremented.\<close>

definition seat_metrics :: "'x seat_proc_scheme \<Rightarrow> metric list" where
  "seat_metrics s =
     [metric_counter ''seats_held_total'' ''Total seats held'' (seatsHeldTotal s),
      metric_counter ''seats_released_total'' ''Total seats released (incl. compensation)'' (seatsReleasedTotal s),
      metric_counter ''seats_reserved_total'' ''Total seats reserved'' (seatsReservedTotal s),
      metric_counter ''reservations_cancelled_total'' ''Reservations cancelled/compensated'' 0,
      metric_counter ''hold_conflicts_total'' ''Hold conflicts (409)'' (holdConflictsTotal s),
      metric_counter ''hot_seat_detected_total'' ''Hot-seat contention events'' 0]"

definition payment_metrics :: "'x payment_proc_scheme \<Rightarrow> metric list" where
  "payment_metrics s =
     [metric_counter ''payment_initiated_total'' ''Payment intents created'' (paymentInitiatedTotal s),
      metric_counter ''payment_completed_total'' ''Payments completed'' (paymentCompletedTotal s),
      metric_counter ''payment_failed_total'' ''Payments failed'' (paymentFailedTotal s),
      metric_counter ''webhook_received_total'' ''Webhooks received'' (webhookReceivedTotal s),
      metric_counter ''webhook_deduped_total'' ''Webhooks deduplicated'' (webhookDedupedTotal s)]"

definition auth_metrics :: "'x auth_proc_scheme \<Rightarrow> metric list" where
  "auth_metrics s =
     [metric_counter ''auth_login_success_total'' ''Total successful logins'' (loginSuccessTotal s),
      metric_counter ''auth_login_fail_total'' ''Total failed logins'' (loginFailTotal s),
      metric_counter ''auth_refresh_total'' ''Total refresh-token rotations'' (refreshTotal s),
      metric_counter ''auth_reuse_detected_total'' ''Refresh-token reuse (theft) detections'' (reuseDetectedTotal s)]"

definition shown :: "metric list \<Rightarrow> string \<Rightarrow> nat" where
  "shown ms name = (case find (\<lambda>m. mc_name m = name) ms of Some m \<Rightarrow> mc_value m | None \<Rightarrow> 0)"

subsection \<open>Counting rows\<close>

abbreviation number :: "('r \<Rightarrow> bool) \<Rightarrow> 'r list \<Rightarrow> nat" where
  "number Q xs \<equiv> length (filter Q xs)"

lemma number_mono:
  "list_all2 E xs ys \<Longrightarrow> (\<And>x y. E x y \<Longrightarrow> Q x \<Longrightarrow> Q y) \<Longrightarrow> number Q xs \<le> number Q ys"
  by (induction rule: list_all2_induct) (auto intro: le_SucI)

lemma number_upd_where:
  "(\<And>x. P x \<Longrightarrow> \<not> Q x \<and> Q (f x)) \<Longrightarrow> number Q (upd_where P f xs) = number Q xs + number P xs"
  by (induction xs) auto

subsection \<open>The seat service\<close>

definition closed_as :: "hold_status \<Rightarrow> seat_db \<Rightarrow> nat" where
  "closed_as st d = number (\<lambda>h. h_status h = st) (holds d)"

definition said :: "(bus_msg \<Rightarrow> bool) \<Rightarrow> seat_proc \<Rightarrow> nat" where
  "said P s = number P (bus s)"

fun says_held :: "bus_msg \<Rightarrow> bool" where
  "says_held (Bus_Held seat user until) = True" | "says_held msg = False"

fun says_reserved :: "bus_msg \<Rightarrow> bool" where
  "says_reserved (Bus_Reserved seat user) = True" | "says_reserved msg = False"

definition seat_counters :: "seat_proc \<Rightarrow> nat \<times> nat \<times> nat \<times> nat \<times> nat" where
  "seat_counters s =
     (seatsHeldTotal s, seatsReservedTotal s, seatsReleasedTotal s, said says_held s, said says_reserved s)"

definition seat_books :: "seat_db \<Rightarrow> nat \<times> nat \<times> nat \<times> nat \<times> nat \<Rightarrow> bool" where
  "seat_books d c \<longleftrightarrow>
     (case c of (h, q, r, said_h, said_q) \<Rightarrow>
        seat_db_ok d \<and> h \<le> length (holds d) \<and> q \<le> closed_as RESERVED d \<and> r \<le> closed_as RELEASED d \<and>
        said_h = h \<and> said_q = q)"

lemma evolves_counts:
  assumes "evolves d d'"
  shows "length (holds d) \<le> length (holds d')" "st \<noteq> HELD \<Longrightarrow> closed_as st d \<le> closed_as st d'"
proof -
  obtain hs new where hs: "holds d' = hs @ new" "list_all2 hold_evolves (holds d) hs"
    using assms by (auto simp: evolves_def)
  then show "length (holds d) \<le> length (holds d')" by (auto dest: list_all2_lengthD)
  assume "st \<noteq> HELD"
  then have "number (\<lambda>h. h_status h = st) (holds d) \<le> number (\<lambda>h. h_status h = st) hs"
    by (intro number_mono [OF hs(2)]) (auto simp: hold_evolves_def)
  then show "closed_as st d \<le> closed_as st d'" by (simp add: closed_as_def hs(1))
qed

lemma seat_books_mono: "seat_rel d d' \<Longrightarrow> seat_books d c \<Longrightarrow> seat_books d' c"
  using evolves_counts [of d d'] by (auto simp: seat_rel_def seat_books_def intro: order_trans)

interpretation seat_ledger: ledger replicas seat_counters seat_books
proof unfold_locales
  show "seat_counters s' = seat_counters s" if "conn.more s' = conn.more s" for s s' :: seat_proc
    using proc_frame [OF that] by (simp add: seat_counters_def said_def)
qed (simp add: seat_books_mono)

text \<open>What a success pays for.\<close>

lemma inserted_counts:
  assumes "insert_hold_spec env nowJs holdId eventId occ seatId userId traceId now d = Inr (Hold_Ok h, d')"
  shows "length (holds d') = Suc (length (holds d))"
  using insert_hold_spec_placed [OF assms] by (auto simp: hold_placed_def)

lemma released_counts:
  assumes "release_hold_spec holdId reason traceId eventId occ now d = Inr (r, d')" and "r_released r"
  shows "Suc (closed_as RELEASED d) \<le> closed_as RELEASED d'"
proof -
  let ?P = "\<lambda>h. h_id h = holdId \<and> held h"
  have "filter ?P (holds d) \<noteq> []" and d': "holds d' = upd_where ?P (release_row now) (holds d)"
    using assms by (auto simp: release_hold_spec_def Let_def split: if_splits)
  then have "1 \<le> number ?P (holds d)" by (simp add: Suc_le_eq)
  then show ?thesis
    unfolding closed_as_def d' by (subst number_upd_where) auto
qed

lemma reserved_counts:
  assumes "reserve_hold_spec holdId eventId cg traceId newEventId occ now d = Inr (r, d')" and "q_reserved r"
  shows "Suc (closed_as RESERVED d) \<le> closed_as RESERVED d'"
proof -
  let ?P = "\<lambda>h. h_id h = holdId \<and> held h"
  have "filter ?P (holds d) \<noteq> []" and d': "holds d' = upd_where ?P (reserve_row now) (holds d)"
    using assms by (auto simp: reserve_hold_spec_def not_reserved_def Let_def split: if_splits)
  then have "1 \<le> number ?P (holds d)" by (simp add: Suc_le_eq)
  then show ?thesis
    unfolding closed_as_def d' by (subst number_upd_where) auto
qed

abbreviation seat_tallies :: "(seat_db, unit seat_proc_ext, 'a) dbm \<Rightarrow> bool" where
  "seat_tallies \<equiv> tallies replicas seat_counters seat_books"

abbreviation seat_tallied :: "nat \<Rightarrow> seat_proc \<Rightarrow> bool" where
  "seat_tallied \<equiv> tallied replicas seat_counters seat_books"

lemmas seat_count_defs = proc_defs seat_counters_def seat_books_def said_def

lemma tallied_held:
  assumes "seat_books d (seat_counters s)" and "seat_books d' (seat_counters s)" and "idle replicas d' n m s"
    and "length (holds d') = Suc (length (holds d))"
  shows "seat_tallied n (s\<lparr>seatsHeldTotal := Suc (seatsHeldTotal s), bus := bus s @ [Bus_Held seat user until]\<rparr>)"
  unfolding tallied_def using assms
  by (intro exI [of _ d'] exI conjI) (auto simp: seat_count_defs conn_state_defs)

lemma tallied_released:
  assumes "seat_books d (seat_counters s)" and "seat_books d' (seat_counters s)" and "idle replicas d' n m s"
    and "Suc (closed_as RELEASED d) \<le> closed_as RELEASED d'"
  shows "seat_tallied n (s\<lparr>seatsReleasedTotal := Suc (seatsReleasedTotal s), bus := bus s @ [Bus_Released seat]\<rparr>)"
  unfolding tallied_def using assms
  by (intro exI [of _ d'] exI conjI) (auto simp: seat_count_defs conn_state_defs)

lemma tallied_reserved:
  assumes "seat_books d (seat_counters s)" and "seat_books d' (seat_counters s)" and "idle replicas d' n m s"
    and "Suc (closed_as RESERVED d) \<le> closed_as RESERVED d'"
  shows "seat_tallied n (s\<lparr>seatsReservedTotal := Suc (seatsReservedTotal s), bus := bus s @ [Bus_Reserved seat user]\<rparr>)"
  unfolding tallied_def using assms
  by (intro exI [of _ d'] exI conjI) (auto simp: seat_count_defs conn_state_defs)

lemma seat_leaves: "seat_tallies inc_conflicts" "seat_tallies (set_header k v)"
  unfolding inc_conflicts_def set_header_def
  by (rule tallies_modify; simp add: bookkeeping_def seat_counters_def said_def)+

lemma seat_reads: "seat_tallies (getPrice seatId)" "seat_tallies (findActiveHoldForSeat seatId)"
  unfolding getPrice_def findActiveHoldForSeat_def
  by (rule seat_ledger.tallies_leaves [OF _ seat_ledger.leaves_calls(5)],
      rule guarantees_query, auto simp: select_price_def select_active_hold_def seat_rel_def)+

lemma seat_tallies_hold: "seat_tallies (seats_hold env fr seatId body userId header)"
  unfolding seats_hold_def
proof (intro tallies_cases(1) tallies_basic seat_ledger.tallies_then [OF insert_hold_tx.atomic_op_axioms], goal_cases)
  case (1 now d r d')
  then show ?case by (simp add: seat_rel_insert)
next
  case (2 now d r d' n m s)
  show ?case
  proof (cases r)
    case (Hold_Conflict c)
    have "tallied replicas seat_counters seat_books n s" using 2 by (auto simp: tallied_def)
    then show ?thesis
      unfolding Hold_Conflict hold_result.case
      by (rule talliesD [rotated]) (intro tallies_bind tallies_basic seat_leaves)
  next
    case (Hold_Ok h)
    have "seat_tallied n (s\<lparr>seatsHeldTotal := Suc (seatsHeldTotal s),
        bus := bus s @ [Bus_Held seatId userId (h_held_until h)]\<rparr>)"
      by (rule tallied_held [OF 2(3-5) inserted_counts]) (use 2(2) Hold_Ok in simp)
    then show ?thesis
      unfolding Hold_Ok hold_result.case inc_held_def emit_def wp_bind wp_modify
      by (intro wp_mono [OF talliesD [OF seat_reads(1)]]) (auto simp: wp_ret)
  qed
qed

lemma seat_tallies_release_note:
  "seat_tallies (bindM (releaseHold holdId reason traceId eventId occ) (\<lambda>r.
     if r_released r then bindM inc_released (\<lambda>_. emit (Bus_Released (r_seatId r))) else retM ()))"
proof (rule seat_ledger.tallies_then [OF release_hold.atomic_op_axioms], goal_cases)
  case (1 now d r d')
  then show ?case by (simp add: seat_rel_release)
next
  case (2 now d r d' n m s)
  then show ?case
    using tallied_released [OF 2(2-4) released_counts [OF 2(1)]]
    by (auto simp: inc_released_def emit_def wp_bind wp_modify wp_ret tallied_def)
qed

lemma seat_tallies_reserve_note:
  "seat_tallies (bindM (reserveHold holdId eventId cg traceId newEventId occ) (\<lambda>r.
     if q_reserved r then bindM inc_reserved (\<lambda>_. emit (Bus_Reserved (q_seatId r) (q_userId r))) else retM ()))"
proof (rule seat_ledger.tallies_then [OF reserve_hold.atomic_op_axioms], goal_cases)
  case (1 now d r d')
  then show ?case by (simp add: seat_rel_reserve)
next
  case (2 now d r d' n m s)
  then show ?case
    using tallied_reserved [OF 2(2-4) reserved_counts [OF 2(1)]]
    by (auto simp: inc_reserved_def emit_def wp_bind wp_modify wp_ret tallied_def)
qed

lemma seat_tallies_release: "seat_tallies (seats_release eventId occ fresh seatId userId header)"
  unfolding seats_release_def
  by (intro tallies_bind tallies_cases tallies_basic seat_reads seat_tallies_release_note)

lemma seat_tallies_sweep:
  assumes "scan_ok scan"
  shows "seat_tallies (sweep_tick env scan traceId fresh occ)"
proof -
  have emit: "leaves seat_counters (emit (Bus_Released seat) :: (seat_db, unit seat_proc_ext, unit) dbm)" for seat
    unfolding emit_def by (rule seat_ledger.leaves_modify) (simp add: seat_counters_def said_def)
  have "leaves seat_counters (sweep_tick env scan traceId fresh occ)"
    unfolding sweep_tick_def sweep_row_def by (intro leave emit)
  then show ?thesis by (rule seat_ledger.tallies_leaves [OF replica.guarantees_sweep [OF assms]])
qed

lemma seat_tallies_message: "seat_tallies (handle_payment_event z json_parse newEventId occ content)"
proof -
  have "seat_tallies (apply_payment_event newEventId occ ev)" for ev
    by (cases ev) (auto simp: apply_payment_event_def intro: tally seat_tallies_release_note seat_tallies_reserve_note)
  then show ?thesis unfolding handle_payment_event_def by (intro tally)
qed

lemma replica_tallies:
  assumes "tx s = None" and "seat_books (committed s) (seat_counters s)" and "obeys replicas sc"
    and "seat_tallies op" and "op (s\<lparr>script := sc\<rparr>) = (r, s')"
  shows "tx s' = None \<and> seat_books (committed s') (seat_counters s')"
proof -
  have "idle replicas (committed s) (checked_out s) (conn.more s) (s\<lparr>script := sc\<rparr>)"
    using seat_rel_preorder assms(1,3) by (simp add: conn_state_defs obeys_def)
  moreover have "seat_counters (s\<lparr>script := sc\<rparr>) = seat_counters s" by (simp add: seat_counters_def said_def)
  ultimately have "seat_tallied (checked_out s) (s\<lparr>script := sc\<rparr>)"
    using assms(2) unfolding tallied_def by metis
  from tallies_run [OF assms(4) this assms(5)] show ?thesis by (auto simp: tallied_def dest!: idleD)
qed

lemma seat_step_tallied:
  assumes "seat_step env z json_parse s s'" and "tx s = None" and "seat_books (committed s) (seat_counters s)"
  shows "tx s' = None \<and> seat_books (committed s') (seat_counters s')"
  using assms(1)
proof cases
  case (other d)
  then show ?thesis using assms(2,3) seat_books_mono by (auto simp: seat_counters_def said_def)
next
  case (hold sc fr seatId body userId header r)
  from replica_tallies [OF assms(2,3) hold(1) seat_tallies_hold hold(2)] show ?thesis .
next
  case (unhold sc eventId occ fresh seatId userId header u)
  from replica_tallies [OF assms(2,3) unhold(1) seat_tallies_release unhold(2)] show ?thesis .
next
  case (sweep sc scan traceId freshes occs u)
  from replica_tallies [OF assms(2,3) sweep(1) seat_tallies_sweep [OF sweep(2)] sweep(3)] show ?thesis .
next
  case (message sc content eventId occ v)
  from replica_tallies [OF assms(2,3) message(1) seat_tallies_message message(3)] show ?thesis .
qed

lemma seat_reach_tallied:
  "seat_reach env z json_parse s s' \<Longrightarrow> tx s = None \<Longrightarrow> seat_books (committed s) (seat_counters s) \<Longrightarrow>
     tx s' = None \<and> seat_books (committed s') (seat_counters s')"
  by (induction rule: seat_reach.induct) (use seat_step_tallied in blast)+

subsection \<open>The payment service\<close>

definition payment_counters :: "payment_proc \<Rightarrow> nat \<times> nat \<times> nat \<times> nat \<times> nat" where
  "payment_counters s =
     (paymentInitiatedTotal s, paymentCompletedTotal s, paymentFailedTotal s, webhookReceivedTotal s,
      webhookDedupedTotal s)"

definition ended_as :: "intent_status \<Rightarrow> payment_db \<Rightarrow> nat" where
  "ended_as st d = number (\<lambda>i. i_status i = st) (intents d)"

definition payment_books :: "payment_db \<Rightarrow> nat \<times> nat \<times> nat \<times> nat \<times> nat \<Rightarrow> bool" where
  "payment_books d c \<longleftrightarrow>
     (case c of (started, completed, failed, received, deduped) \<Rightarrow>
        pay_inv d \<and> started \<le> length (intents d) \<and> completed \<le> ended_as PI_COMPLETED d \<and>
        failed \<le> ended_as PI_FAILED d \<and> deduped \<le> received)"

text \<open>Between the two counters of a webhook one more has been received than deduplicated.\<close>

definition webhook_open :: "payment_db \<Rightarrow> nat \<times> nat \<times> nat \<times> nat \<times> nat \<Rightarrow> bool" where
  "webhook_open d c \<longleftrightarrow>
     (case c of (started, completed, failed, received, deduped) \<Rightarrow> payment_books d c \<and> deduped < received)"

lemma payments_counts:
  assumes "payments_evolve d d'"
  shows "length (intents d) \<le> length (intents d')" "st \<noteq> PI_PENDING \<Longrightarrow> ended_as st d \<le> ended_as st d'"
proof -
  obtain xs new where xs: "intents d' = xs @ new" "list_all2 intent_evolves (intents d) xs"
    using assms by (auto simp: payments_evolve_def)
  then show "length (intents d) \<le> length (intents d')" by (auto dest: list_all2_lengthD)
  assume "st \<noteq> PI_PENDING"
  then have "number (\<lambda>i. i_status i = st) (intents d) \<le> number (\<lambda>i. i_status i = st) xs"
    by (intro number_mono [OF xs(2)]) (auto simp: intent_evolves_def)
  then show "ended_as st d \<le> ended_as st d'" by (simp add: ended_as_def xs(1))
qed

lemma payment_books_mono: "pay_steps d d' \<Longrightarrow> payment_books d c \<Longrightarrow> payment_books d' c"
  using payments_counts [of d d'] by (auto simp: pay_steps_def payment_books_def intro: order_trans)

lemma payment_counters_more:
  "conn.more s' = conn.more s \<Longrightarrow> payment_counters s' = payment_counters (s :: payment_proc)"
  by (cases s; cases s') (simp add: payment_counters_def)

interpretation payment_ledger: ledger sessions payment_counters payment_books
  by unfold_locales (rule payment_counters_more, assumption, simp add: payment_books_mono)

interpretation webhook_ledger: ledger sessions payment_counters webhook_open
  by unfold_locales (rule payment_counters_more, assumption, auto simp: payment_books_mono webhook_open_def)

abbreviation pay_tallies :: "(payment_db, unit payment_proc_ext, 'a) dbm \<Rightarrow> bool" where
  "pay_tallies \<equiv> tallies sessions payment_counters payment_books"

abbreviation pay_tallied :: "nat \<Rightarrow> payment_proc \<Rightarrow> bool" where
  "pay_tallied \<equiv> tallied sessions payment_counters payment_books"

lemma closed_counts:
  assumes "close_spec P st ty ev traceId now d = Inr (Closed i, d')" and "st \<noteq> PI_PENDING"
  shows "Suc (ended_as st d) \<le> ended_as st d'"
proof -
  let ?P = "\<lambda>i. P i \<and> pending_intent i"
  have "filter ?P (intents d) \<noteq> []" and d': "intents d' = upd_where ?P (close_row st now) (intents d)"
    using assms(1) by (auto simp: close_spec_def Let_def split: if_splits)
  then have "1 \<le> number ?P (intents d)" by (simp add: Suc_le_eq)
  then show ?thesis
    unfolding ended_as_def d' using assms(2) by (subst number_upd_where) auto
qed

lemma started_counts: "insert_intent newId opts now d = Inr (i, d') \<Longrightarrow> length (intents d') = Suc (length (intents d))"
  by (auto simp: insert_intent_def Let_def split: if_splits)

lemma tallied_pay:
  assumes "idle sessions d n m s" and "bookkeeping g" and "payment_books d (payment_counters (g s))"
  shows "pay_tallied n (g s)"
  unfolding tallied_def using bookkeeping_idle [OF assms(2,1)] assms(3) by blast

lemma pay_tallies_close:
  assumes op: "atomic_op op (close_spec P st ty ev traceId)" and "st \<noteq> PI_PENDING"
    and keep: "\<And>now d r d'. close_spec P st ty ev traceId now d = Inr (r, d') \<Longrightarrow> pay_steps d d'"
    and "bookkeeping g"
    and pays: "\<And>d d' s. payment_books d (payment_counters s) \<Longrightarrow> payment_books d' (payment_counters s) \<Longrightarrow>
      Suc (ended_as st d) \<le> ended_as st d' \<Longrightarrow> payment_books d' (payment_counters (g s))"
  shows "pay_tallies (bindM op (count_closed (modifyM g)))"
proof (rule payment_ledger.tallies_then [OF op], goal_cases)
  case (1 now d r d')
  then show ?case by (simp add: keep)
next
  case (2 now d r d' n m s)
  show ?case
  proof (cases r)
    case (Closed i)
    then have "Suc (ended_as st d) \<le> ended_as st d'" using 2(1) closed_counts assms(2) by auto
    then show ?thesis
      unfolding Closed count_closed_def close_result.case wp_modify
      by (intro tallied_pay [OF 2(4) assms(4)] pays [OF 2(2,3)])
  qed (use 2 in \<open>auto simp: count_closed_def wp_ret tallied_def\<close>)
qed

lemma pay_tallies_marks:
  "pay_tallies (bindM (markCompleted psp eventId traceId occ) (count_closed inc_completed))"
  "pay_tallies (bindM (markFailed psp reason eventId traceId occ) (count_closed inc_failed))"
  unfolding inc_completed_def inc_failed_def
  by (rule pay_tallies_close [OF mark_completed.atomic_op_axioms] pay_tallies_close [OF mark_failed.atomic_op_axioms];
      simp add: pay_steps_marks payment_books_def payment_counters_def)+

lemma pay_queries: 
  "pay_tallies (findByIdempotencyKey key)" "pay_tallies (getSeatPrice seatId)" "pay_tallies (markWebhookProcessed eid)"
  by (rule payment_ledger.tallies_leaves [OF guarantees_queries(1)] payment_ledger.tallies_leaves [OF guarantees_queries(2)]
      payment_ledger.tallies_leaves [OF guarantees_queries(4)];
      simp add: findByIdempotencyKey_def getSeatPrice_def markWebhookProcessed_def payment_ledger.leaves_calls)+

lemma pay_tallies_create: "pay_tallies (bindM (createIntent newId opts) (\<lambda>i. bindM inc_initiated (\<lambda>_. retM (g i))))"
  unfolding createIntent_def
proof (rule payment_ledger.tallies_then [OF autocommit.atomic_op_axioms], goal_cases)
  case (1 now d r d')
  then show ?case by (simp add: pay_steps_stmt)
next
  case (2 now d r d' n m s)
  then show ?case
    unfolding inc_initiated_def wp_bind wp_modify wp_ret
    by (intro tallied_pay [OF 2(4)]) (simp_all add: payment_books_def payment_counters_def started_counts)
qed

lemma pay_tallies_breaker: "pay_tallies (breaker_exec env now1 fn now2)"
  by (rule payment_ledger.tallies_leaves [OF guarantees_breaker])
    (simp add: leaves_def breaker_exec_def payment_counters_def split: prod.split)

lemma pay_tallies_insert:
  "pay_tallies (bindM (create_or_find newId opts) (\<lambda>res.
     case res of Inl i \<Rightarrow> retM (g i) | Inr i \<Rightarrow> bindM inc_initiated (\<lambda>_. retM (h i))))"
  unfolding create_or_find_def
proof (rule tallies_caught)
  show "pay_tallies (bindM (createIntent newId opts) (\<lambda>i.
      case Inr i of Inl i \<Rightarrow> retM (g i) | Inr i \<Rightarrow> bindM inc_initiated (\<lambda>_. retM (h i))))"
    by (simp add: pay_tallies_create)
  show "pay_tallies (bindM (if is_unique_violation e
      then bindM (findByIdempotencyKey (op_idempotencyKey opts)) (\<lambda>existing.
           case existing of Some i \<Rightarrow> retM (Inl i) | None \<Rightarrow> throwM e)
      else throwM e) (\<lambda>res. case res of Inl i \<Rightarrow> retM (g i) | Inr i \<Rightarrow> bindM inc_initiated (\<lambda>_. retM (h i))))" for e
    unfolding tallies_def wp_bind wp_if wp_throw
    by (auto intro!: wp_mono [OF talliesD [OF pay_queries(1)]] simp: wp_ret wp_throw split: option.split)
qed

lemma pay_tallies_checkout: "pay_tallies (checkout env z psp fr userId header body)"
proof -
  have "pay_tallies (checkout_priced env psp fr userId traceId dto p)" for traceId dto p
    unfolding checkout_priced_def
    by (rule tallies_bind [OF _ pay_tallies_insert]) (intro tally pay_tallies_breaker)
  then show ?thesis unfolding checkout_def Let_def by (intro tally pay_queries)
qed

lemma pay_tallies_lift: "pay_tallies (liftM r)"
  unfolding liftM_def by (intro tally)

lemma pay_tallies_processEvent: "pay_tallies (processEvent pg_text eventId occ ev traceId)"
  unfolding processEvent_def by (intro tally pay_queries pay_tallies_lift pay_tallies_marks)

lemma pay_tallies_immediates: "pay_tallies (modifyM (\<lambda>s. s\<lparr>immediates := q\<rparr>))"
  by (rule tallies_modify) (simp_all add: payment_counters_def)

lemma pay_tallies_run_immediate: "pay_tallies (run_immediate pg_text eventId occ)"
  unfolding run_immediate_def by (intro tally pay_tallies_immediates pay_tallies_processEvent)

lemma open_tallies_insert: "tallies sessions payment_counters webhook_open (intentsInsertInbox pg_text ev)"
  unfolding intentsInsertInbox_def insertWebhookInbox_def
  by (intro tally webhook_ledger.tallies_leaves [OF _ webhook_ledger.leaves_calls(5)] guarantees_query)
    (auto intro: pay_steps_stmt)

lemma pay_tallies_received:
  "pay_tallies (bindM inc_received (\<lambda>_. bindM (intentsInsertInbox pg_text ev) (\<lambda>inserted.
     if \<not> inserted then bindM inc_deduped (\<lambda>_. retM a) else bindM (set_immediate ev traceId) (\<lambda>_. retM b))))"
  unfolding tallies_def wp_bind inc_received_def wp_modify
proof (intro allI impI)
  fix n and s :: payment_proc assume "pay_tallied n s"
  then obtain d m where i: "idle sessions d n m s" and r: "payment_books d (payment_counters s)"
    by (auto simp: tallied_def)
  let ?s = "s\<lparr>webhookReceivedTotal := Suc (webhookReceivedTotal s)\<rparr>"
  have "webhook_open d (payment_counters ?s)"
    using r by (simp add: webhook_open_def payment_books_def payment_counters_def)
  then have "tallied sessions payment_counters webhook_open n ?s"
    unfolding tallied_def using i by (intro exI [of _ d] exI conjI) (auto simp: conn_state_defs)
  then show "wp (intentsInsertInbox pg_text ev) (\<lambda>inserted.
      wp (if \<not> inserted then bindM inc_deduped (\<lambda>_. retM a) else bindM (set_immediate ev traceId) (\<lambda>_. retM b))
        (\<lambda>_. pay_tallied n) (\<lambda>_. pay_tallied n)) (\<lambda>_. pay_tallied n) ?s"
  proof (rule wp_mono [OF talliesD [OF open_tallies_insert]])
    fix inserted s' assume "tallied sessions payment_counters webhook_open n s'"
    then obtain d' m' where i': "idle sessions d' n m' s'" and r': "webhook_open d' (payment_counters s')"
      by (auto simp: tallied_def)
    show "wp (if \<not> inserted then bindM inc_deduped (\<lambda>_. retM a) else bindM (set_immediate ev traceId) (\<lambda>_. retM b))
        (\<lambda>_. pay_tallied n) (\<lambda>_. pay_tallied n) s'"
      unfolding inc_deduped_def set_immediate_def wp_if wp_bind wp_modify wp_ret
      using r' by (auto intro!: tallied_pay [OF i'] simp: webhook_open_def payment_books_def payment_counters_def)
  next
    fix s' assume "tallied sessions payment_counters webhook_open n s'"
    then show "pay_tallied n s'" by (auto simp: tallied_def webhook_open_def)
  qed
qed

lemma pay_tallies_webhook: "pay_tallies (webhook x env now fresh header signature rawBody)"
  unfolding webhook_def Let_def by (intro tally pay_tallies_lift pay_tallies_received)

lemma pay_tallies_reprocessor: "pay_tallies (reprocessor_tick pg_text freshes)"
  by (rule payment_ledger.tallies_leaves [OF guarantees_reprocessor], unfold reprocessor_tick_def reprocess_def
      markCompleted_def markFailed_def appendOutbox_def markWebhookProcessed_def liftM_def Let_def)
    (intro leave payment_ledger.leaves_finally payment_ledger.leaves_modify; simp add: set_running_def payment_counters_def)

lemma pay_tallies_seat_event: "pay_tallies (handle_seat_event z json_parse eventId occ content)"
proof -
  have "pay_tallies (cancel_intents eventId occ ev)" for ev
  proof -
    have "leaves payment_counters (markFailedBySeatId seatId reason eventId t occ)" for seatId reason t
      unfolding markFailedBySeatId_def appendOutbox_def Let_def by (intro leave)
    from payment_ledger.tallies_leaves [OF guarantees_methods(3) this] show ?thesis
      by (cases ev) (auto simp: cancel_intents_def intro: tally)
  qed
  then show ?thesis unfolding handle_seat_event_def by (intro tally)
qed

lemma session_tallies:
  assumes "tx s = None" and "payment_books (committed s) (payment_counters s)" and "abides sc"
    and "pay_tallies op" and "op (s\<lparr>script := sc\<rparr>) = (r, s')"
  shows "tx s' = None \<and> payment_books (committed s') (payment_counters s')"
proof -
  have "payment_counters (s\<lparr>script := sc\<rparr>) = payment_counters s" by (simp add: payment_counters_def)
  then have "pay_tallied (checked_out s) (s\<lparr>script := sc\<rparr>)"
    using abides_idle [OF assms(3,1)] assms(2) unfolding tallied_def by metis
  from tallies_run [OF assms(4) this assms(5)] show ?thesis by (auto simp: tallied_def dest!: idleD)
qed

lemma payment_step_tallied:
  assumes "payment_step env z psp x s s'" and "tx s = None" and "payment_books (committed s) (payment_counters s)"
  shows "tx s' = None \<and> payment_books (committed s') (payment_counters s')"
  using assms(1)
proof cases
  case (checkout sc fr userId header body r)
  from session_tallies [OF assms(2,3) checkout(1) pay_tallies_checkout checkout(2)] show ?thesis .
next
  case (webhook sc now fresh header signature rawBody a)
  from session_tallies [OF assms(2,3) webhook(1) pay_tallies_webhook webhook(2)] show ?thesis .
next
  case (immediate sc eventId occ u)
  from session_tallies [OF assms(2,3) immediate(1) pay_tallies_run_immediate immediate(2)] show ?thesis .
next
  case (reprocessor sc freshes u)
  from session_tallies [OF assms(2,3) reprocessor(1) pay_tallies_reprocessor reprocessor(2)] show ?thesis .
next
  case (seat_event sc eventId occ content v)
  from session_tallies [OF assms(2,3) seat_event(1) pay_tallies_seat_event seat_event(2)] show ?thesis .
next
  case (other d)
  then show ?thesis using assms(2,3) payment_books_mono by (auto simp: payment_counters_def)
qed

lemma payment_reach_tallied:
  "payment_reach env z psp x s s' \<Longrightarrow> tx s = None \<Longrightarrow> payment_books (committed s) (payment_counters s) \<Longrightarrow>
     tx s' = None \<and> payment_books (committed s') (payment_counters s')"
  by (induction rule: payment_reach.induct) (use payment_step_tallied in blast)+

subsection \<open>The auth service\<close>

text \<open>The audit entries the counters stand for.\<close>

definition logged_in :: "audit_row \<Rightarrow> bool" where
  "logged_in a \<longleftrightarrow> a_action a = ''login'' \<and> jget ''ok'' (a_meta a) = Some (JBool True)"

definition rotated_once :: "audit_row \<Rightarrow> bool" where
  "rotated_once a \<longleftrightarrow> a_action a = ''refresh'' \<and> jget ''grace'' (a_meta a) = None"

definition reuse_seen :: "audit_row \<Rightarrow> bool" where
  "reuse_seen a \<longleftrightarrow> a_action a = ''session_revoke''"

definition auth_counters :: "auth_proc \<Rightarrow> nat \<times> nat \<times> nat" where
  "auth_counters s = (loginSuccessTotal s, refreshTotal s, reuseDetectedTotal s)"

definition auth_books :: "auth_db \<Rightarrow> nat \<times> nat \<times> nat \<Rightarrow> bool" where
  "auth_books d c \<longleftrightarrow>
     (case c of (success, rotations, reuses) \<Rightarrow>
        auth_db_ok d \<and> success \<le> number logged_in (audit_log d) \<and> rotations \<le> number rotated_once (audit_log d) \<and>
        reuses \<le> number reuse_seen (audit_log d))"

lemma auth_books_mono: "auth_rel d d' \<Longrightarrow> auth_books d c \<Longrightarrow> auth_books d' c"
  by (fastforce simp: auth_rel_def auth_books_def auth_evolve_def)

lemma auth_counters_more: "conn.more s' = conn.more s \<Longrightarrow> auth_counters s' = auth_counters (s :: auth_proc)"
  by (cases s; cases s') (simp add: auth_counters_def)

interpretation auth_ledger: ledger auth_sessions auth_counters auth_books
  by unfold_locales (rule auth_counters_more, assumption, simp add: auth_books_mono)

abbreviation auth_tallies :: "(auth_db, unit auth_proc_ext, 'a) dbm \<Rightarrow> bool" where
  "auth_tallies \<equiv> tallies auth_sessions auth_counters auth_books"

lemma auth_leaves:
  "leaves auth_counters (findByEmail email)" "leaves auth_counters (findById i)" "leaves auth_counters (createUser c salt i email password)"
  "leaves auth_counters (bumpTokenVersion i)" "leaves auth_counters (record_audit who action meta)"
  "leaves auth_counters (issueNewFamily c env fr userId)" "leaves auth_counters (findByRaw c raw)" "leaves auth_counters (revoke i)"
  "leaves auth_counters (revokeFamily g)" "leaves auth_counters (revokeAllForUser userId)" "leaves auth_counters (rotate c env fr row)"
  "leaves auth_counters (verifyDummyPassword c salt)" "leaves auth_counters (setRtCookie env raw)" "leaves auth_counters (clearRtCookie env)" "leaves auth_counters inc_login_fail"
  unfolding findByEmail_def findById_def createUser_def bumpTokenVersion_def record_audit_def issueNewFamily_def
    findByRaw_def revoke_def revokeFamily_def revokeAllForUser_def rotate_def verifyDummyPassword_def
    auth_bookkeeping_defs Let_def
  by (intro leave auth_ledger.leaves_modify; simp add: auth_counters_def)+

lemma auth_tallies_methods:
  "auth_tallies (findByEmail email)" "auth_tallies (findById i)" "auth_tallies (createUser c salt i email password)"
  "auth_tallies (bumpTokenVersion i)" "auth_tallies (record_audit who action meta)"
  "auth_tallies (issueNewFamily c env fr userId)" "auth_tallies (findByRaw c raw)" "auth_tallies (revoke i)"
  "auth_tallies (revokeFamily g)" "auth_tallies (revokeAllForUser userId)" "auth_tallies (rotate c env fr row)"
  "auth_tallies (verifyDummyPassword c salt)" "auth_tallies (setRtCookie env raw)" "auth_tallies (clearRtCookie env)" "auth_tallies inc_login_fail"
  by (intro auth_ledger.tallies_leaves auth_leaves guarantee)+

lemma auth_tallies_logged:
  assumes "\<And>now. Q \<lparr>a_user_id = who, a_action = action, a_meta = meta, a_at = now\<rparr>" and "bookkeeping g"
    and pays: "\<And>d d' s. auth_books d (auth_counters s) \<Longrightarrow> auth_books d' (auth_counters s) \<Longrightarrow>
      number Q (audit_log d') = Suc (number Q (audit_log d)) \<Longrightarrow> auth_books d' (auth_counters (g s))"
    and k: "auth_tallies k"
  shows "auth_tallies (bindM (record_audit who action meta) (\<lambda>_. bindM (modifyM g) (\<lambda>_. k)))"
  unfolding record_audit_def
proof (rule auth_ledger.tallies_then [OF autocommit.atomic_op_axioms], goal_cases)
  case (1 now d r d')
  then show ?case by (simp add: auth_rel_audit)
next
  case (2 now d r d' n m s)
  have "number Q (audit_log d') = Suc (number Q (audit_log d))" using 2(1) assms(1) by (auto simp: insert_audit_def)
  then have "tallied auth_sessions auth_counters auth_books n (g s)"
    unfolding tallied_def using pays [OF 2(2,3)] bookkeeping_idle [OF assms(2) 2(4)] by blast
  then show ?case unfolding wp_bind wp_modify by (rule talliesD [OF k])
qed

lemma login_meta_ok: "jget ''ok'' (login_meta traceId ip b) = Some (JBool b)"
  by (cases ip) (simp_all add: login_meta_def)

lemma auth_tallies_counted:
  "auth_tallies k \<Longrightarrow> auth_tallies (bindM (record_audit who ''login'' (login_meta traceId ip True)) (\<lambda>_. bindM inc_login_success (\<lambda>_. k)))"
  "auth_tallies k \<Longrightarrow> auth_tallies (bindM (record_audit who ''refresh'' (trace_meta traceId [])) (\<lambda>_. bindM inc_refresh (\<lambda>_. k)))"
  "auth_tallies k \<Longrightarrow> auth_tallies (bindM (record_audit who ''session_revoke'' meta) (\<lambda>_. bindM inc_reuse (\<lambda>_. k)))"
  unfolding inc_login_success_def inc_refresh_def inc_reuse_def
  by (rule auth_tallies_logged [where Q = logged_in] auth_tallies_logged [where Q = rotated_once]
      auth_tallies_logged [where Q = reuse_seen];
      simp add: logged_in_def rotated_once_def reuse_seen_def login_meta_ok trace_meta_def auth_books_def auth_counters_def)+

lemma auth_tallies_register: "auth_tallies (register x fr req body)"
  unfolding register_def Let_def by (intro tally auth_tallies_methods)

lemma auth_tallies_login: "auth_tallies (login x env fr req body)"
  unfolding login_def Let_def
  by (intro auth_tallies_counted tally auth_tallies_methods)

lemma auth_tallies_refresh: "auth_tallies (refresh x env fr req)"
  unfolding refresh_def refresh_active_def refresh_grace_def refresh_reuse_def Let_def
  by (intro auth_tallies_counted tally auth_tallies_methods)

lemma auth_tallies_logout: "auth_tallies (logout x env fr req)" "auth_tallies (logoutAll x env fr req)"
  unfolding logout_def logoutAll_def Let_def by (intro tally auth_tallies_methods)+

lemma auth_session_tallies:
  assumes "tx s = None" and "auth_books (committed s) (auth_counters s)" and "auth_abides sc"
    and "auth_tallies op" and "op (s\<lparr>script := sc\<rparr>) = (r, s')"
  shows "tx s' = None \<and> auth_books (committed s') (auth_counters s')"
proof -
  have "auth_counters (s\<lparr>script := sc\<rparr>) = auth_counters s" by (simp add: auth_counters_def)
  then have "tallied auth_sessions auth_counters auth_books (checked_out s) (s\<lparr>script := sc\<rparr>)"
    using auth_abides_idle [OF assms(3,1)] assms(2) unfolding tallied_def by metis
  from tallies_run [OF assms(4) this assms(5)] show ?thesis by (auto simp: tallied_def dest!: idleD)
qed

lemma auth_step_tallied:
  assumes "auth_step x env s s'" and "tx s = None" and "auth_books (committed s) (auth_counters s)"
  shows "tx s' = None \<and> auth_books (committed s') (auth_counters s')"
  using assms(1)
proof cases
  case (register sc fr req body r)
  from auth_session_tallies [OF assms(2,3) register(1) auth_tallies_register register(2)] show ?thesis .
next
  case (login sc fr req body t)
  from auth_session_tallies [OF assms(2,3) login(1) auth_tallies_login login(2)] show ?thesis .
next
  case (refresh sc fr req t)
  from auth_session_tallies [OF assms(2,3) refresh(1) auth_tallies_refresh refresh(2)] show ?thesis .
next
  case (logout sc fr req u)
  from auth_session_tallies [OF assms(2,3) logout(1) auth_tallies_logout(1) logout(2)] show ?thesis .
next
  case (logout_all sc fr req u)
  from auth_session_tallies [OF assms(2,3) logout_all(1) auth_tallies_logout(2) logout_all(2)] show ?thesis .
next
  case (other d)
  then show ?thesis using assms(2,3) auth_books_mono by (auto simp: auth_counters_def)
qed

lemma auth_reach_tallied:
  "auth_reach x env s s' \<Longrightarrow> tx s = None \<Longrightarrow> auth_books (committed s) (auth_counters s) \<Longrightarrow>
     tx s' = None \<and> auth_books (committed s') (auth_counters s')"
  by (induction rule: auth_reach.induct) (use auth_step_tallied in blast)+

subsection \<open>What the counters show\<close>

text \<open>C29: The counters of completed work never overstate it. Take any run of each service, with any
  failures and with other replicas committing at any point, from a process that has just started. Then
  GET /metrics of the seat service shows at most as many seats held as holds were placed, reserved as holds are RESERVED
  and released as holds are RELEASED, and exactly as many held and reserved as messages were said on
  the bus; that of the payment service at most as many payments initiated as there are intents,
  completed and failed as intents are, and no more webhooks deduplicated than received; that of the
  auth service at most as many successful logins, rotations and reuse detections as the audit log
  records. Nothing is said of the other counters: conflicts, which leave no row, failed logins and,
  against the inbox, received webhooks, which are counted before their row is written.\<close>

theorem counters_never_overstate:
  assumes seat: "seat_reach env z json_parse s s'" "tx s = None" "seat_db_ok (committed s)"
      "seat_counters s = (0, 0, 0, 0, 0)"
    and pay: "payment_reach penv z psp px p p'" "tx p = None" "pay_inv (committed p)"
      "payment_counters p = (0, 0, 0, 0, 0)"
    and auth: "auth_reach ax aenv a a'" "tx a = None" "auth_db_ok (committed a)" "auth_counters a = (0, 0, 0)"
  shows "shown (seat_metrics s') ''seats_held_total'' \<le> length (holds (committed s')) \<and>
      shown (seat_metrics s') ''seats_held_total'' = said says_held s' \<and>
      shown (seat_metrics s') ''seats_reserved_total'' \<le> closed_as RESERVED (committed s') \<and>
      shown (seat_metrics s') ''seats_reserved_total'' = said says_reserved s' \<and>
      shown (seat_metrics s') ''seats_released_total'' \<le> closed_as RELEASED (committed s') \<and>
      shown (payment_metrics p') ''payment_initiated_total'' \<le> length (intents (committed p')) \<and>
      shown (payment_metrics p') ''payment_completed_total'' \<le> ended_as PI_COMPLETED (committed p') \<and>
      shown (payment_metrics p') ''payment_failed_total'' \<le> ended_as PI_FAILED (committed p') \<and>
      shown (payment_metrics p') ''webhook_deduped_total'' \<le> shown (payment_metrics p') ''webhook_received_total'' \<and>
      shown (auth_metrics a') ''auth_login_success_total'' \<le> number logged_in (audit_log (committed a')) \<and>
      shown (auth_metrics a') ''auth_refresh_total'' \<le> number rotated_once (audit_log (committed a')) \<and>
      shown (auth_metrics a') ''auth_reuse_detected_total'' \<le> number reuse_seen (audit_log (committed a'))"
proof -
  have "seat_books (committed s') (seat_counters s')"
    using seat_reach_tallied [OF seat(1,2)] seat(3,4) by (simp add: seat_books_def)
  moreover have "payment_books (committed p') (payment_counters p')"
    using payment_reach_tallied [OF pay(1,2)] pay(3,4) by (simp add: payment_books_def)
  moreover have "auth_books (committed a') (auth_counters a')"
    using auth_reach_tallied [OF auth(1,2)] auth(3,4) by (simp add: auth_books_def)
  ultimately show ?thesis
    by (simp add: shown_def seat_metrics_def payment_metrics_def auth_metrics_def metric_counter_def
        seat_books_def seat_counters_def payment_books_def payment_counters_def auth_books_def auth_counters_def)
qed

theorem counters_never_overstate_witness:
  "let s' = snd (seats_hold demo_env demo_fresh ''s1'' (Some (JObj [])) ''u1'' None (demo []));
       a' = snd (refresh (auth_x plain_jwt) auth_cfg auth_fr (with_cookie ''now'') (auth_svc [])) in
   shown (seat_metrics s') ''seats_held_total'' = 1 \<and> 1 \<le> length (holds (committed s')) \<and> said says_held s' = 1 \<and>
   shown (auth_metrics a') ''auth_refresh_total'' = 1 \<and> 1 \<le> number rotated_once (audit_log (committed a'))"
proof -
  let ?s = "snd (seats_hold demo_env demo_fresh ''s1'' (Some (JObj [])) ''u1'' None (demo []))"
  let ?op = "refresh (auth_x plain_jwt) auth_cfg auth_fr (with_cookie ''now'') (auth_svc [])"
  have p: "refresh (auth_x plain_jwt) auth_cfg auth_fr (with_cookie ''now'') (auth_svc []\<lparr>script := []\<rparr>) =
      (fst ?op, snd ?op)"
    by (simp add: auth_process_def)
  have auth: "auth_reach (auth_x plain_jwt) auth_cfg (auth_svc []) (snd ?op)"
    by (rule auth_reach.step [OF auth_reach.start auth_step.refresh [OF _ p]]) simp
  have start: "seat_counters (demo []) = (0, 0, 0, 0, 0)" "payment_counters (pay []) = (0, 0, 0, 0, 0)"
      "auth_counters (auth_svc []) = (0, 0, 0)"
    by (simp_all add: seat_counters_def said_def demo_def payment_counters_def pay_def auth_counters_def auth_process_def)
  have v: "shown (seat_metrics ?s) ''seats_held_total'' = 1" "shown (auth_metrics (snd ?op)) ''auth_refresh_total'' = 1"
    by code_simp+
  from counters_never_overstate [OF demo_reach _ _ start(1) pay_reach_example _ _ start(2) auth _ _ start(3)]
  show ?thesis unfolding Let_def v by (simp add: demo_db_ok pay_db_inv auth_start_ok v)
qed

text \<open>The two that are counted first overstate when the insert fails.\<close>

definition lost_call :: "'d tick list" where
  "lost_call = [\<lparr>others = id, clock = 0, fate = Fails_before Conn_Lost\<rparr>]"

lemma received_overstates:
  "let s' = snd (webhook toy_ext pay_env 200000 ''f'' None (Some toy_sig) (Some ''{}'') (pay lost_call)) in
   shown (payment_metrics s') ''webhook_received_total'' = 1 \<and> inbox (committed s') = []"
  by code_simp

lemma login_fail_overstates:
  "let s' = snd (login (auth_x plain_jwt) auth_cfg auth_fr (with_cookie []) (json_creds ''ann@x.org'' ''wrong'')
       (auth_svc (\<lparr>others = id, clock = 0, fate = Runs\<rparr> # lost_call))) in
   shown (auth_metrics s') ''auth_login_fail_total'' = 1 \<and> audit_log (committed s') = audit_log auth_start"
  by code_simp

text \<open>The others may understate: the sweeper releases holds, and says so on the bus, without counting them,
  and no code increments the counters of cancelled reservations and of contention.\<close>

lemma sweeper_uncounted:
  "let s' = snd (sweep_tick demo_env id ''t'' (\<lambda>_. ''e'') (\<lambda>_. 1000) (demo [])) in
   closed_as RELEASED (committed s') = 1 \<and> shown (seat_metrics s') ''seats_released_total'' = 0"
  by code_simp

lemma never_counted:
  "shown (seat_metrics s) ''reservations_cancelled_total'' = 0" "shown (seat_metrics s) ''hot_seat_detected_total'' = 0"
  by (simp_all add: shown_def seat_metrics_def metric_counter_def)

end
