(* ===== verification/Routes.thy ===== *)
theory Routes
  imports Env Guard_Properties
begin

text \<open>
  From a request to its answer: the routes the controllers declare, the guards NestJS runs before a
  handler (RateLimitGuard, which every app.module.ts provides as APP_GUARD and which looks at the
  handler's \<open>@RateLimit\<close>, then JwtAuthGuard where \<open>@UseGuards\<close> asks for it) and the status of what the
  handler returns or throws. A handler behind a guard takes the user from the token.
\<close>

subsection \<open>Requests, routes and answers\<close>

text \<open>\<open>multi.exec()\<close> answers the replies, null, or rejects, before or after Redis has run the transaction.\<close>

datatype exec_fate = Exec_Replies | Exec_Null | Exec_Rejects bool

record http_request =
  hq_rate :: rl_request
  hq_exec :: exec_fate
  hq_checked :: instant
  hq_authorization :: "string option"
  hq_requestId :: "string option"
  hq_cookie :: "string option"

record route =
  rt_method :: string
  rt_path :: string
  rt_status :: nat
  rt_limit :: "rl_config option"
  rt_jwt :: bool

datatype 'a answer = Answered nat 'a | Refused nat string | Too_Many rl_response

text \<open>NestJS answers an HTTP exception with its status and anything else with 500.\<close>

definition exn_answer :: "exn \<Rightarrow> 'a answer" where
  "exn_answer e = (case e of Http_Error n m \<Rightarrow> Refused n m | _ \<Rightarrow> Refused 500 ''Internal server error'')"

definition redis_lost :: exn where
  "redis_lost = Js_Error ''redis''"

definition rate_guard :: "rl_config option \<Rightarrow> http_request \<Rightarrow> redis \<Rightarrow> (exn + rl_response option) \<times> redis" where
  "rate_guard config q r =
     (case config of
        None \<Rightarrow> (Inr None, r)
      | Some cfg \<Rightarrow>
          (case hq_exec q of
             Exec_Rejects executed \<Rightarrow> (Inl redis_lost, if executed then snd (rate_window cfg (hq_rate q) r) else r)
           | reply \<Rightarrow>
               (case rate_limit (Some cfg) (reply = Exec_Replies) (hq_rate q) r of (resp, r') \<Rightarrow> (Inr resp, r'))))"

definition jwt_guard :: "bool \<Rightarrow> jwt_lib \<Rightarrow> string \<Rightarrow> http_request \<Rightarrow> exn + auth_user option" where
  "jwt_guard guarded j secret q =
     (if guarded
      then map_sum id Some (jwt_canActivate j secret (hq_checked q) (hq_authorization q) (hq_requestId q))
      else Inr None)"

definition authorized ::
    "route \<Rightarrow> jwt_lib \<Rightarrow> string \<Rightarrow> http_request \<Rightarrow> (auth_user option \<Rightarrow> ('d, 'x, 'a) dbm) \<Rightarrow>
     ('d, 'x) conn_scheme \<Rightarrow> 'a answer \<times> ('d, 'x) conn_scheme" where
  "authorized rt j secret q handler s =
     (case jwt_guard (rt_jwt rt) j secret q of
        Inl e \<Rightarrow> (exn_answer e, s)
      | Inr user \<Rightarrow>
          (case handler user s of
             (Inl e, s') \<Rightarrow> (exn_answer e, s')
           | (Inr a, s') \<Rightarrow> (Answered (rt_status rt) a, s')))"

definition serve ::
    "route \<Rightarrow> jwt_lib \<Rightarrow> string \<Rightarrow> http_request \<Rightarrow> redis \<Rightarrow> (auth_user option \<Rightarrow> ('d, 'x, 'a) dbm) \<Rightarrow>
     ('d, 'x) conn_scheme \<Rightarrow> 'a answer \<times> redis \<times> ('d, 'x) conn_scheme" where
  "serve rt j secret q r handler s =
     (case rate_guard (rt_limit rt) q r of (verdict, r') \<Rightarrow>
        let (ans, s') =
          (case verdict of
             Inl e \<Rightarrow> (exn_answer e, s)
           | Inr None \<Rightarrow> authorized rt j secret q handler s
           | Inr (Some rs) \<Rightarrow> if rs_allowed rs then authorized rt j secret q handler s else (Too_Many rs, s))
        in (ans, r', s'))"

subsection \<open>The routes of the seat service\<close>

definition open_route :: "string \<Rightarrow> string \<Rightarrow> nat \<Rightarrow> route" where
  "open_route method path status =
     \<lparr>rt_method = method, rt_path = path, rt_status = status, rt_limit = None, rt_jwt = False\<rparr>"

definition list_route :: route where "list_route = open_route ''GET'' ''/api/seats'' 200"

definition stream_route :: route where "stream_route = open_route ''GET'' ''/api/seats/stream'' 200"

definition hold_route :: "seat_vars \<Rightarrow> route" where
  "hold_route v = \<lparr>rt_method = ''POST'', rt_path = ''/api/seats/:id/hold'', rt_status = 200,
     rt_limit = Some (hold_limit v), rt_jwt = True\<rparr>"

definition release_route :: "seat_vars \<Rightarrow> route" where
  "release_route v = \<lparr>rt_method = ''POST'', rt_path = ''/api/seats/:id/release'', rt_status = 204,
     rt_limit = Some (release_limit v), rt_jwt = True\<rparr>"

definition get_seats ::
    "jwt_lib \<Rightarrow> seat_vars \<Rightarrow> http_request \<Rightarrow> (string \<Rightarrow> 'k::linorder) \<Rightarrow> redis \<Rightarrow> seat_proc \<Rightarrow>
     seat_view list answer \<times> redis \<times> seat_proc" where
  "get_seats j v q coll r s = serve list_route j (v_JWT_SECRET v) q r (\<lambda>user. listAll coll) s"

definition post_hold ::
    "jwt_lib \<Rightarrow> seat_vars \<Rightarrow> http_request \<Rightarrow> hold_fresh \<Rightarrow> uuid \<Rightarrow> json option \<Rightarrow> redis \<Rightarrow> seat_proc \<Rightarrow>
     hold_response answer \<times> redis \<times> seat_proc" where
  "post_hold j v q fr seatId body r s =
     serve (hold_route v) j (v_JWT_SECRET v) q r
       (\<lambda>user. seats_hold (seat_env_of v) fr seatId body (au_userId (the user)) (hq_requestId q)) s"

definition post_release ::
    "jwt_lib \<Rightarrow> seat_vars \<Rightarrow> http_request \<Rightarrow> uuid \<Rightarrow> instant \<Rightarrow> uuid \<Rightarrow> uuid \<Rightarrow> redis \<Rightarrow> seat_proc \<Rightarrow>
     unit answer \<times> redis \<times> seat_proc" where
  "post_release j v q eventId occ fresh seatId r s =
     serve (release_route v) j (v_JWT_SECRET v) q r
       (\<lambda>user. seats_release eventId occ fresh seatId (au_userId (the user)) (hq_requestId q)) s"

subsection \<open>The routes of the payment service\<close>

definition checkout_route :: "payment_vars \<Rightarrow> route" where
  "checkout_route v = \<lparr>rt_method = ''POST'', rt_path = ''/api/payment/checkout'', rt_status = 200,
     rt_limit = Some (checkout_limit v), rt_jwt = True\<rparr>"

definition webhook_route :: route where "webhook_route = open_route ''POST'' ''/api/payment/webhook'' 200"

definition post_checkout ::
    "jwt_lib \<Rightarrow> payment_vars \<Rightarrow> http_request \<Rightarrow> zod_formats \<Rightarrow> psp_client \<Rightarrow> checkout_fresh \<Rightarrow> json \<Rightarrow> redis \<Rightarrow>
     payment_proc \<Rightarrow> checkout_response answer \<times> redis \<times> payment_proc" where
  "post_checkout j v q z psp fr body r s =
     serve (checkout_route v) j (v_JWT_SECRET v) q r
       (\<lambda>user. checkout (payment_env_of v) z psp fr (au_userId (the user)) (hq_requestId q) body) s"

definition post_webhook ::
    "jwt_lib \<Rightarrow> payment_vars \<Rightarrow> http_request \<Rightarrow> webhook_ext \<Rightarrow> instant \<Rightarrow> uuid \<Rightarrow> string option \<Rightarrow> string option \<Rightarrow>
     redis \<Rightarrow> payment_proc \<Rightarrow> webhook_response answer \<times> redis \<times> payment_proc" where
  "post_webhook j v q x now fresh signature rawBody r s =
     serve webhook_route j (v_JWT_SECRET v) q r
       (\<lambda>user. webhook x (payment_env_of v) now fresh (hq_requestId q) signature rawBody) s"

subsection \<open>The routes of the auth service\<close>

definition register_route :: route where "register_route = open_route ''POST'' ''/api/auth/register'' 201"

definition login_route :: "auth_vars \<Rightarrow> route" where
  "login_route v = \<lparr>rt_method = ''POST'', rt_path = ''/api/auth/login'', rt_status = 200,
     rt_limit = Some (login_limit v), rt_jwt = False\<rparr>"

definition refresh_route :: route where "refresh_route = open_route ''POST'' ''/api/auth/refresh'' 200"

definition logout_route :: route where "logout_route = open_route ''POST'' ''/api/auth/logout'' 204"

definition logout_all_route :: route where "logout_all_route = open_route ''POST'' ''/api/auth/logout-all'' 204"

definition auth_request :: "http_request \<Rightarrow> auth_req" where
  "auth_request q = \<lparr>rq_requestId = hq_requestId q, rq_cookie = hq_cookie q, rq_ip = rq_addr (hq_rate q)\<rparr>"

definition post_auth ::
    "route \<Rightarrow> (auth_req \<Rightarrow> (auth_db, unit auth_proc_ext, 'a) dbm) \<Rightarrow> jwt_lib \<Rightarrow> auth_vars \<Rightarrow> http_request \<Rightarrow>
     redis \<Rightarrow> auth_proc \<Rightarrow> 'a answer \<times> redis \<times> auth_proc" where
  "post_auth rt handler j v q r s =
     serve rt j (v_JWT_SECRET v) q r (\<lambda>user. handler (auth_request q)) s"

definition post_register where
  "post_register x v fr body = post_auth register_route (\<lambda>req. register x fr req body) (x_jwt x) v"

definition post_login where
  "post_login x v fr body =
     post_auth (login_route v) (\<lambda>req. login x (auth_env_of v) fr req body) (x_jwt x) v"

definition post_refresh where
  "post_refresh x v fr = post_auth refresh_route (refresh x (auth_env_of v) fr) (x_jwt x) v"

definition post_logout where
  "post_logout x v fr = post_auth logout_route (logout x (auth_env_of v) fr) (x_jwt x) v"

definition post_logout_all where
  "post_logout_all x v fr = post_auth logout_all_route (logoutAll x (auth_env_of v) fr) (x_jwt x) v"

lemmas route_defs = open_route_def list_route_def stream_route_def hold_route_def release_route_def
  checkout_route_def webhook_route_def register_route_def login_route_def refresh_route_def logout_route_def
  logout_all_route_def

subsection \<open>What the guards let through\<close>

definition verified :: "jwt_lib \<Rightarrow> string \<Rightarrow> http_request \<Rightarrow> access_claims \<Rightarrow> bool" where
  "verified j secret q claims \<longleftrightarrow>
     (\<exists>auth. hq_authorization q = Some auth \<and> starts_with ''Bearer '' auth \<and>
        jwt_verify j (hq_checked q) (trim (drop (length ''Bearer '') auth)) secret = Inr claims)"

lemma jwt_guard_user:
  assumes "jwt_guard True j secret q = Inr user"
  shows "\<exists>claims. verified j secret q claims \<and> au_userId (the user) = jc_sub claims"
  using assms by (auto simp: jwt_guard_def jwt_canActivate_def verified_def Let_def map_sum_def
      split: option.splits sum.splits if_splits)

lemma jwt_guard_refuses:
  assumes "jwt_guard True j secret q = Inl e"
  shows "(\<exists>m. e = Http_Error 401 m) \<and> \<not> (\<exists>claims. verified j secret q claims)"
  using assms by (auto simp: jwt_guard_def jwt_canActivate_def verified_def Let_def map_sum_def starts_with_def
      split: option.splits sum.splits if_splits)

text \<open>A request of a guarded route: where it ends, and that nothing happened if it did not get to the handler.\<close>

lemma serve_guarded:
  assumes "serve rt j secret q r handler s = (ans, r', s')" and "rt_jwt rt" and "rt_limit rt = Some cfg"
  obtains
    (limited) rs where "ans = Too_Many rs" "s' = s" "rs_retryAfter rs = Some (int_string (retry_seconds (rl_windowMs cfg)))"
      "rl_max cfg < int (fst (rate_window cfg (hq_rate q) r)) \<or> rl_max cfg < 0"
  | (lost) executed where "ans = Refused 500 ''Internal server error''" "s' = s" "hq_exec q = Exec_Rejects executed"
  | (unknown) m where "ans = Refused 401 m" "s' = s" "\<not> (\<exists>claims. verified j secret q claims)"
  | (thrown) claims user e where "verified j secret q claims" "au_userId (the user) = jc_sub claims"
      "handler user s = (Inl e, s')" "ans = exn_answer e"
  | (finished) claims user a where "verified j secret q claims" "au_userId (the user) = jc_sub claims"
      "handler user s = (Inr a, s')" "ans = Answered (rt_status rt) a"
proof (cases "rate_guard (Some cfg) q r")
  case (Pair verdict r1)
  note run = assms(1) [unfolded serve_def assms(3) Pair prod.case]
  have auth: thesis if "(ans, s') = authorized rt j secret q handler s"
    using that jwt_guard_user [of j secret q] jwt_guard_refuses [of j secret q] assms(2) unknown thrown finished
    by (fastforce simp: authorized_def exn_answer_def split: sum.splits prod.splits)
  show thesis
  proof (cases verdict)
    case (Inl e)
    then show ?thesis using run Pair lost
      by (auto simp: rate_guard_def redis_lost_def exn_answer_def split: exec_fate.splits prod.splits)
  next
    case (Inr resp)
    show ?thesis
    proof (cases "\<exists>rs. resp = Some rs \<and> \<not> rs_allowed rs")
      case True
      then show ?thesis using run Pair Inr limited
        by (auto simp: rate_guard_def rate_limit_def Let_def split: exec_fate.splits prod.splits if_splits)
    next
      case False
      then show ?thesis using run Inr by (intro auth) (auto split: option.splits prod.splits)
    qed
  qed
qed

subsection \<open>Holding and releasing a seat over HTTP\<close>

text \<open>C13: POST /api/seats/:id/hold, from request to answer. On a reliable, undisturbed connection a request
  is answered in one of five ways. 429 with Retry-After, and nothing has happened. 401, the request
  carries no token the service verifies, and nothing has happened. 200, the hold is placed in full for
  the user of the token, one seat:held message is said and one seat counted. 409 with Retry-After, a hold
  of the token's user or of the seat that is live at the begin of the transaction stands in the way, the
  error says which, and the database
  and the bus are as before. 500, Redis was not available, the body is no JSON object or there is no
  such seat, and the database and the bus are as before.\<close>

theorem hold_request_answered:
  fixes s :: seat_proc
  assumes "quiet s" "reliable s" "tx s = None"
    and "post_hold j v q fr seatId body r s = (ans, r', s')"
  shows "case ans of
      Too_Many rs \<Rightarrow> s' = s \<and> rs_retryAfter rs = Some (int_string (retry_seconds (v_RATE_LIMIT_SEAT_WINDOW_MS v)))
    | Answered st resp \<Rightarrow> st = 200 \<and> (\<exists>claims. verified j (v_JWT_SECRET v) q claims \<and>
        hold_accepted (seat_env_of v) fr seatId (jc_sub claims) (hq_requestId q) (committed s) resp s s')
    | Refused n m \<Rightarrow>
        n = 401 \<and> s' = s \<and> \<not> (\<exists>claims. verified j (v_JWT_SECRET v) q claims) \<or>
        n = 409 \<and> (\<exists>claims c. verified j (v_JWT_SECRET v) q claims \<and>
          hold_refused (seat_env_of v) fr seatId (jc_sub claims) (committed s) c s s' \<and>
          m = (case c of user_has_hold \<Rightarrow> ''user_already_has_hold'' | seat_held \<Rightarrow> ''seat_unavailable'')) \<or>
        n = 500 \<and> committed s' = committed s \<and> bus s' = bus s \<and>
          ((\<exists>b. hq_exec q = Exec_Rejects b) \<or> \<not> HoldBodySchema body \<or> (\<forall>x \<in> set (seats (committed s)). s_id x \<noteq> seatId))"
proof -
  have rt: "rt_jwt (hold_route v)" "rt_limit (hold_route v) = Some (hold_limit v)" "rt_status (hold_route v) = 200"
    by (simp_all add: hold_route_def)
  show ?thesis
  proof (rule serve_guarded [OF assms(4) [unfolded post_hold_def] rt(1,2)])
    fix claims user e
    assume t: "verified j (v_JWT_SECRET v) q claims" "au_userId (the user) = jc_sub claims"
      and run: "seats_hold (seat_env_of v) fr seatId body (au_userId (the user)) (hq_requestId q) s = (Inl e, s')"
      and ans: "ans = exn_answer e"
    show ?thesis
    proof (cases "HoldBodySchema body")
      case True
      with seats_hold_answer [OF assms(1-3) True run] t show ?thesis
        by (auto simp: ans exn_answer_def foreign_key_violation_def intro!: exI [of _ claims])
          ((rule exI [of _ user_has_hold], simp; fail) | (rule exI [of _ seat_held], simp))+
    qed (use run ans in \<open>auto simp: seats_hold_def throwM_def exn_answer_def\<close>)
  next
    fix claims user a
    assume t: "verified j (v_JWT_SECRET v) q claims" "au_userId (the user) = jc_sub claims"
      and run: "seats_hold (seat_env_of v) fr seatId body (au_userId (the user)) (hq_requestId q) s = (Inr a, s')"
      and ans: "ans = Answered (rt_status (hold_route v)) a"
    have "HoldBodySchema body" using run by (auto simp: seats_hold_def throwM_def split: if_splits)
    from seats_hold_answer [OF assms(1-3) this run] t show ?thesis by (auto simp: ans rt(3))
  qed (auto simp: hold_limit_def)
qed

text \<open>C15: POST /api/seats/:id/release gives back the hold of the token's user and nobody else's. On a
  reliable, undisturbed connection the answer is 204 to every request whose token is verified, unless
  Redis fails or the limit is exceeded; if the seat's live hold is that user's, it is released, one
  seat:released message is said and counted; in every other case nothing changes.\<close>

theorem release_request_answered:
  fixes s :: seat_proc
  assumes "quiet s" "reliable s" "tx s = None" "seat_schema_ok (committed s)"
    and "post_release j v q eventId occ fresh seatId r s = (ans, r', s')"
  shows "case ans of
      Too_Many rs \<Rightarrow> s' = s \<and> rs_retryAfter rs = Some (int_string (retry_seconds (v_RATE_LIMIT_SEAT_WINDOW_MS v)))
    | Answered st u \<Rightarrow> st = 204 \<and> (\<exists>claims. verified j (v_JWT_SECRET v) q claims \<and>
        release_done (jc_sub claims) seatId (committed s) s s')
    | Refused n m \<Rightarrow> s' = s \<and>
        (n = 401 \<and> \<not> (\<exists>claims. verified j (v_JWT_SECRET v) q claims) \<or> n = 500 \<and> (\<exists>b. hq_exec q = Exec_Rejects b))"
proof -
  have rt: "rt_jwt (release_route v)" "rt_limit (release_route v) = Some (release_limit v)"
      "rt_status (release_route v) = 204"
    by (simp_all add: release_route_def)
  show ?thesis
    by (rule serve_guarded [OF assms(5) [unfolded post_release_def] rt(1,2)])
      (use seats_release_reliable [OF assms(1-4)] rt(3) in \<open>fastforce simp: release_limit_def\<close>)+
qed

subsection \<open>The limit over HTTP\<close>

text \<open>Requests to one route; \<open>between\<close> is all that happens in the service before the next of them. Each
  entry of the result is the answer with the state before and after the request.\<close>

fun serve_all ::
    "route \<Rightarrow> jwt_lib \<Rightarrow> string \<Rightarrow>
     (http_request \<times> (('d, 'x) conn_scheme \<Rightarrow> ('d, 'x) conn_scheme) \<times> (auth_user option \<Rightarrow> ('d, 'x, 'a) dbm)) list \<Rightarrow>
     redis \<Rightarrow> ('d, 'x) conn_scheme \<Rightarrow> ('a answer \<times> ('d, 'x) conn_scheme \<times> ('d, 'x) conn_scheme) list" where
  "serve_all rt j secret [] r s = []"
| "serve_all rt j secret ((q, between, handler) # qs) r s =
     (case serve rt j secret q r handler (between s) of (ans, r', s') \<Rightarrow>
        (ans, between s, s') # serve_all rt j secret qs r' s')"

fun limited :: "'a answer \<Rightarrow> bool" where
  "limited (Too_Many rs) = True"
| "limited ans = False"

lemma limited_exn [simp]: "\<not> limited (exn_answer e)"
  by (cases e) (simp_all add: exn_answer_def)

lemma limited_authorized: "\<not> limited (fst (authorized rt j secret q handler s))"
  by (auto simp: authorized_def split: sum.split prod.split)

lemma serve_limit:
  assumes "rt_limit rt = Some cfg" and "hq_exec q = Exec_Replies"
    and "rate_limit (Some cfg) True (hq_rate q) r = (resp, r1)" and "serve rt j secret q r handler s = (ans, r', s')"
  shows "r' = r1 \<and> limited ans = (\<not> rs_allowed (the resp)) \<and> (limited ans \<longrightarrow> s' = s)"
proof -
  obtain rs where rs: "resp = Some rs" using assms(3) by (auto simp: rate_limit_def Let_def split: prod.splits)
  show ?thesis
    using assms(2-4) limited_authorized [of rt j secret q handler s]
    by (auto simp: serve_def assms(1) rate_guard_def rs split: if_splits prod.splits)
qed

lemma serve_all_run:
  assumes "rt_limit rt = Some cfg" and "\<forall>(q, w) \<in> set qs. hq_exec q = Exec_Replies"
  shows "map (\<lambda>(ans, before, after). \<not> limited ans) (serve_all rt j secret qs r s) =
      fst (rate_run cfg (map (hq_rate \<circ> fst) qs) r) \<and>
    (\<forall>(ans, before, after) \<in> set (serve_all rt j secret qs r s). limited ans \<longrightarrow> after = before)"
  using assms(2)
proof (induction qs arbitrary: r s)
  case (Cons p qs)
  obtain q between handler where p: "p = (q, between, handler)" by (cases p) auto
  obtain resp r1 where l: "rate_limit (Some cfg) True (hq_rate q) r = (resp, r1)" by fastforce
  obtain ans r' s' where sv: "serve rt j secret q r handler (between s) = (ans, r', s')" by (metis prod_cases3)
  have q: "hq_exec q = Exec_Replies" using Cons.prems p by simp
  note st = serve_limit [OF assms(1) q l sv]
  have "\<forall>(q, w) \<in> set qs. hq_exec q = Exec_Replies" using Cons.prems by simp
  from Cons.IH [OF this, of r' s'] show ?case
    using st by (auto simp: p sv l split: prod.split)
qed simp

text \<open>C31: The limit on a route. Take any sequence of requests of one client address to a rate-limited route
  (hold, release, checkout, login), in order and with a Redis that answers, whatever else the service
  does between them. A request is answered 429 if and only if more than \<open>max\<close> requests, itself and the
  refused ones included, fall into the window that ends with it; then it has changed nothing. So in
  every window that ends with an admitted request, at most \<open>max\<close> requests got past the limit.\<close>

theorem requests_limited:
  fixes s :: "('d, 'x) conn_scheme"
  assumes "rt_limit rt = Some cfg" and "0 < rl_windowMs cfg" and "\<forall>(q, w) \<in> set qs. hq_exec q = Exec_Replies"
    and "hist = map (hq_rate \<circ> fst) qs" and "in_order hist" and "\<forall>h \<in> set hist. rate_key cfg h = key"
    and "zsets r key = []" and "out = serve_all rt j secret qs r s"
  shows "length out = length qs \<and>
    (\<forall>i < length qs. limited (fst (out ! i)) =
       (rl_max cfg < int (length (recent (rl_windowMs cfg) (rq_now (hist ! i)) (take (Suc i) hist))))) \<and>
    (\<forall>(ans, before, after) \<in> set out. limited ans \<longrightarrow> after = before) \<and>
    (\<forall>i < length qs. \<not> limited (fst (out ! i)) \<longrightarrow>
       int (card {k. k \<le> i \<and> \<not> limited (fst (out ! k)) \<and> rq_now (hist ! i) - rl_windowMs cfg < rq_now (hist ! k)})
         \<le> rl_max cfg)"
proof -
  have run: "map (\<lambda>(ans, before, after). \<not> limited ans) out = fst (rate_run cfg hist r)"
      "\<forall>(ans, before, after) \<in> set out. limited ans \<longrightarrow> after = before"
    using serve_all_run [OF assms(1,3), of j secret r s] by (simp_all add: assms(4,8))
  note exact = rate_limit_exact [OF assms(2,5,6,7)]
  have "length (fst (rate_run cfg hist r)) = length qs" using exact by (simp add: assms(4))
  then have len: "length out = length qs" by (simp flip: run(1))
  have nth: "fst (rate_run cfg hist r) ! k = (\<not> limited (fst (out ! k)))" if "k < length qs" for k
    using that len by (simp flip: run(1) split: prod.split)
  have hist: "length hist = length qs" by (simp add: assms(4))
  have "limited (fst (out ! i)) =
      (rl_max cfg < int (length (recent (rl_windowMs cfg) (rq_now (hist ! i)) (take (Suc i) hist))))"
    if i: "i < length qs" for i
  proof -
    have "fst (rate_run cfg hist r) ! i =
        (int (length (recent (rl_windowMs cfg) (rq_now (hist ! i)) (take (Suc i) hist))) \<le> rl_max cfg)"
      using exact i by (simp add: hist)
    then show ?thesis using nth [OF i] by auto
  qed
  moreover have "int (card {k. k \<le> i \<and> \<not> limited (fst (out ! k)) \<and> rq_now (hist ! i) - rl_windowMs cfg < rq_now (hist ! k)})
      \<le> rl_max cfg" if i: "i < length qs" "\<not> limited (fst (out ! i))" for i
  proof -
    have "{k. k \<le> i \<and> \<not> limited (fst (out ! k)) \<and> rq_now (hist ! i) - rl_windowMs cfg < rq_now (hist ! k)} =
        {k. k \<le> i \<and> fst (rate_run cfg hist r) ! k \<and> rq_now (hist ! i) - rl_windowMs cfg < rq_now (hist ! k)}"
      using i(1) nth by (auto simp: less_le_trans)
    then show ?thesis using exact [THEN conjunct2, rule_format, of i] i nth [OF i(1)] by (simp only: hist simp_thms)
  qed
  ultimately show ?thesis using len run(2) by blast
qed

subsection \<open>Examples\<close>

definition shop_vars :: seat_vars where
  "shop_vars = \<lparr>v_NODE_ENV = ''production'', v_LOG_LEVEL = ''info'', v_PORT = 3000, v_CORS_ORIGINS = ''*'',
     v_POSTGRES_HOST = ''db'', v_POSTGRES_PORT = 5432, v_POSTGRES_USER = ''seat'', v_POSTGRES_PASSWORD = ''seat'',
     v_POSTGRES_DB = ''seat'', v_POSTGRES_POOL_MAX = 10, v_RABBITMQ_URL = ''mq'', v_REDIS_URL = ''redis'',
     v_JWT_SECRET = ''key'', v_JWT_REFRESH_SECRET = ''other'', v_JWT_AT_TTL_SECONDS = 900, v_SEAT_PORT = 4002,
     v_HOLD_TTL_SECONDS = 120, v_SWEEP_INTERVAL_MS = 15000, v_SWEEP_BATCH_LIMIT = 100, v_RETRY_AFTER_SECONDS = 2,
     v_RATE_LIMIT_SEAT_MAX = 1, v_RATE_LIMIT_SEAT_WINDOW_MS = 60000\<rparr>"

definition token_of :: "uuid \<Rightarrow> string" where
  "token_of u = ''Bearer '' @ toy_token 0 u ''a'' 0 ''key'' 5"

definition sample_http :: "string option \<Rightarrow> http_request" where
  "sample_http auth = \<lparr>hq_rate = sample_request 1000 None, hq_exec = Exec_Replies, hq_checked = 1000,
     hq_authorization = auth, hq_requestId = None, hq_cookie = None\<rparr>"

lemma token_sub:
  assumes "verified toy_jwt (v_JWT_SECRET shop_vars) (sample_http (Some (token_of u))) claims" and "u \<in> {''u1'', ''u2''}"
  shows "jc_sub claims = u"
proof -
  have "\<forall>u \<in> set [''u1'', ''u2''].
      (case jwt_verify toy_jwt 1000 (trim (drop (length ''Bearer '') (token_of u))) ''key'' of Inr c \<Rightarrow> jc_sub c = u | Inl e \<Rightarrow> False)"
    by code_simp
  then show ?thesis using assms by (auto simp: verified_def sample_http_def shop_vars_def)
qed

theorem hold_request_answered_witness:
  "let (ans, r', s') = post_hold toy_jwt shop_vars (sample_http (Some (token_of ''u1''))) demo_fresh ''s1'' (Some (JObj []))
       empty_redis (demo []) in
   \<exists>(claims :: access_claims) resp. ans = Answered 200 resp \<and> jc_sub claims = ''u1'' \<and>
     hold_accepted (seat_env_of shop_vars) demo_fresh ''s1'' (jc_sub claims) None demo_db resp (demo []) s'"
proof -
  let ?q = "sample_http (Some (token_of ''u1''))"
  obtain ans r' s' where run: "post_hold toy_jwt shop_vars ?q demo_fresh ''s1'' (Some (JObj [])) empty_redis (demo []) =
      (ans, r', s')" by (metis prod_cases3)
  have "case post_hold toy_jwt shop_vars ?q demo_fresh ''s1'' (Some (JObj [])) empty_redis (demo []) of
      (Answered st resp, r', s') \<Rightarrow> True | _ \<Rightarrow> False" by code_simp
  then obtain st resp where ans: "ans = Answered st resp" by (auto simp: run split: answer.splits)
  have "hq_requestId ?q = None" by (simp add: sample_http_def)
  then obtain claims where c: "st = 200" "verified toy_jwt (v_JWT_SECRET shop_vars) ?q claims"
      "hold_accepted (seat_env_of shop_vars) demo_fresh ''s1'' (jc_sub claims) None demo_db resp (demo []) s'"
    using hold_request_answered [OF _ _ _ run, unfolded ans answer.case] by auto
  have "jc_sub claims = ''u1''" using token_sub [OF c(2)] by simp
  with c(1,3) show ?thesis unfolding run ans Let_def prod.case by - (intro exI [of _ claims] exI [of _ resp], simp)
qed

theorem release_request_answered_witness:
  "let (ans, r', s') = post_release toy_jwt shop_vars (sample_http (Some (token_of ''u2''))) ''e'' 1000 ''t'' ''s3''
       empty_redis (demo []) in
   ans = Answered 204 () \<and> committed s' = demo_db \<and> bus s' = []"
proof -
  let ?q = "sample_http (Some (token_of ''u2''))"
  obtain ans r' s' where run: "post_release toy_jwt shop_vars ?q ''e'' 1000 ''t'' ''s3'' empty_redis (demo []) = (ans, r', s')"
    by (metis prod_cases3)
  have "case post_release toy_jwt shop_vars ?q ''e'' 1000 ''t'' ''s3'' empty_redis (demo []) of
      (Answered st u, r', s') \<Rightarrow> True | _ \<Rightarrow> False" by code_simp
  then obtain st u where ans: "ans = Answered st u" by (auto simp: run split: answer.splits)
  have "\<not> (\<exists>h \<in> set (holds demo_db). held h \<and> h_seat_id h = ''s3'' \<and> h_user_id h = ''u2'')" by code_simp
  with release_request_answered [OF _ _ _ _ run, unfolded ans answer.case] token_sub show ?thesis
    by (auto simp: run ans demo_schema_ok release_done_def) (simp_all add: demo_def)
qed

theorem requests_limited_witness:
  "map (limited \<circ> fst) (serve_all (hold_route shop_vars) toy_jwt ''key''
     [(sample_http None, id, \<lambda>user. retM ()), (sample_http None\<lparr>hq_rate := sample_request 2000 None\<rparr>, id, \<lambda>user. retM ())]
     empty_redis (demo [])) = [False, True]"
proof -
  let ?qs = "[(sample_http None, id, \<lambda>user. retM ()),
    (sample_http None\<lparr>hq_rate := sample_request 2000 None\<rparr>, id, \<lambda>user. retM ())] ::
      (http_request \<times> (seat_proc \<Rightarrow> seat_proc) \<times> (auth_user option \<Rightarrow> (seat_db, unit seat_proc_ext, unit) dbm)) list"
  let ?hist = "[sample_request 1000 None, sample_request 2000 None]"
  define out where "out = serve_all (hold_route shop_vars) toy_jwt ''key'' ?qs empty_redis (demo [])"
  have hist: "?hist = map (hq_rate \<circ> fst) ?qs" by (simp add: sample_http_def)
  have order: "in_order ?hist" by code_simp
  have lim: "rt_limit (hold_route shop_vars) = Some (hold_limit shop_vars)" "0 < rl_windowMs (hold_limit shop_vars)"
    by (simp_all add: hold_route_def hold_limit_def shop_vars_def)
  have key: "\<forall>h \<in> set ?hist. rate_key (hold_limit shop_vars) h = ''rl:seat-hold:10.0.0.1''" by code_simp
  have replies: "\<forall>(q, w) \<in> set ?qs. hq_exec q = Exec_Replies" by (simp add: sample_http_def)
  note lim_thm = requests_limited [OF lim replies hist order key _ out_def]
  have "zsets empty_redis k = []" for k by (simp add: empty_redis_def)
  with lim_thm have "length out = 2" and l: "\<forall>i < 2. limited (fst (out ! i)) = (rl_max (hold_limit shop_vars) <
      int (length (recent (rl_windowMs (hold_limit shop_vars)) (rq_now (?hist ! i)) (take (Suc i) ?hist))))"
    by (auto simp: numeral_2_eq_2)
  have "\<not> rl_max (hold_limit shop_vars) < int (length (recent (rl_windowMs (hold_limit shop_vars)) (rq_now (?hist ! 0)) (take (Suc 0) ?hist)))"
    "rl_max (hold_limit shop_vars) < int (length (recent (rl_windowMs (hold_limit shop_vars)) (rq_now (?hist ! 1)) (take (Suc 1) ?hist)))"
    by code_simp+
  with l have "\<not> limited (fst (out ! 0))" "limited (fst (out ! 1))" by auto
  moreover obtain a b where "out = [a, b]" using \<open>length out = 2\<close> by (auto simp: numeral_2_eq_2 length_Suc_conv)
  ultimately show ?thesis by (simp add: out_def)
qed

end
