(* ===== verification/Wiring.thy ===== *)
theory Wiring
  imports Env
begin

text \<open>
  The modules of the three services and what NestJS makes of them: every \<open>@Module\<close> with its imports,
  controllers, providers and exports, and the constructor of every class with the tokens it asks for.
  A token is looked up as NestJS documents: among the providers of the class's own module, then among
  the exports of the modules it imports, then among those of the global modules; a module has one
  instance of each of its providers. No module here exports another one, so the search does not recurse.
\<close>

subsection \<open>Modules and the search\<close>

record nest_class =
  cl_name :: string
  cl_needs :: "string list"

record nest_module =
  md_name :: string
  md_global :: bool
  md_imports :: "string list"
  md_controllers :: "nest_class list"
  md_providers :: "(string \<times> nest_class) list"
  md_exports :: "string list"
  md_needs :: "string list"
    \<comment> \<open>of the module's own class\<close>

definition class_of :: "string \<Rightarrow> string list \<Rightarrow> nest_class" where
  "class_of name needs = \<lparr>cl_name = name, cl_needs = needs\<rparr>"

text \<open>A provider that is listed by its class alone has the class as its token.\<close>

definition as_provider :: "nest_class \<Rightarrow> string \<times> nest_class" where
  "as_provider c = (cl_name c, c)"

definition offers :: "string \<Rightarrow> nest_module \<Rightarrow> bool" where
  "offers t m \<longleftrightarrow> t \<in> set (md_exports m) \<and> t \<in> fst ` set (md_providers m)"

definition imported :: "nest_module list \<Rightarrow> nest_module \<Rightarrow> nest_module list" where
  "imported app m = concat (map (\<lambda>n. filter (\<lambda>x. md_name x = n) app) (md_imports m))"

text \<open>An instance is known by its module and its token.\<close>

definition resolve :: "nest_module list \<Rightarrow> nest_module \<Rightarrow> string \<Rightarrow> (string \<times> string) option" where
  "resolve app m t =
     (if t \<in> fst ` set (md_providers m) then Some (md_name m, t)
      else map_option (\<lambda>x. (md_name x, t)) (find (offers t) (imported app m @ filter md_global app)))"

definition classes :: "nest_module \<Rightarrow> nest_class list" where
  "classes m = class_of (md_name m) (md_needs m) # md_controllers m @ map snd (md_providers m)"

text \<open>What each class is given: module, class, token, instance.\<close>

definition injections :: "nest_module list \<Rightarrow> ((string \<times> string) \<times> string \<times> (string \<times> string) option) list" where
  "injections app =
     concat (map (\<lambda>m. concat (map (\<lambda>c. map (\<lambda>t. ((md_name m, cl_name c), t, resolve app m t)) (cl_needs c)) (classes m))) app)"

definition given :: "nest_module list \<Rightarrow> string \<Rightarrow> string \<Rightarrow> (string \<times> string) option list" where
  "given app c t = map (snd \<circ> snd) (filter (\<lambda>((m, c'), t', i). c' = c \<and> t' = t) (injections app))"

definition wired :: "nest_module list \<Rightarrow> bool" where
  "wired app \<longleftrightarrow>
     (\<forall>m \<in> set app. \<forall>n \<in> set (md_imports m). n \<in> md_name ` set app) \<and>
     (\<forall>(c, t, i) \<in> set (injections app). i \<noteq> None)"

definition instances :: "nest_module list \<Rightarrow> string \<Rightarrow> (string \<times> string) list" where
  "instances app t = map (\<lambda>m. (md_name m, t)) (filter (\<lambda>m. t \<in> fst ` set (md_providers m)) app)"

definition feature_module :: "string \<Rightarrow> string list \<Rightarrow> nest_class list \<Rightarrow> nest_class list \<Rightarrow> string list \<Rightarrow> nest_module" where
  "feature_module name imports controllers providers exports =
     \<lparr>md_name = name, md_global = False, md_imports = imports, md_controllers = controllers,
      md_providers = map as_provider providers, md_exports = exports, md_needs = []\<rparr>"

subsection \<open>What the services share\<close>

definition DbModule :: nest_module where
  "DbModule = \<lparr>md_name = ''DbModule'', md_global = True, md_imports = [], md_controllers = [],
     md_providers = [(''PG_POOL'', class_of ''Pool'' [])], md_exports = [''PG_POOL''], md_needs = [''PG_POOL'']\<rparr>"

definition LoggerModule :: nest_module where
  "LoggerModule = \<lparr>md_name = ''LoggerModule'', md_global = True, md_imports = [], md_controllers = [],
     md_providers = [(''LOGGER_SERVICE'', class_of ''LoggerServiceImpl'' [])], md_exports = [''LOGGER_SERVICE''],
     md_needs = []\<rparr>"

definition MetricsModule :: nest_module where
  "MetricsModule = feature_module ''MetricsModule'' [] [class_of ''MetricsController'' []] [] []"

definition RateLimitGuard :: nest_class where "RateLimitGuard = class_of ''RateLimitGuard'' [''Reflector'']"

definition Reflector :: nest_class where "Reflector = class_of ''Reflector'' []"

definition RabbitService :: nest_class where "RabbitService = class_of ''RabbitService'' []"

definition OutboxWorker :: nest_class where
  "OutboxWorker = class_of ''OutboxWorker'' [''PG_POOL'', ''RabbitService'', ''LOGGER_SERVICE'']"

definition HealthController :: nest_class where
  "HealthController = class_of ''HealthController'' [''PG_POOL'', ''RabbitService'']"

text \<open>The copies of the other services, which are the same.\<close>

definition payment_DbModule :: nest_module where "payment_DbModule = DbModule"
definition auth_DbModule :: nest_module where "auth_DbModule = DbModule"
definition payment_LoggerModule :: nest_module where "payment_LoggerModule = LoggerModule"
definition auth_LoggerModule :: nest_module where "auth_LoggerModule = LoggerModule"
definition payment_MetricsModule :: nest_module where "payment_MetricsModule = MetricsModule"
definition auth_MetricsModule :: nest_module where "auth_MetricsModule = MetricsModule"
definition payment_RateLimitGuard :: nest_class where "payment_RateLimitGuard = RateLimitGuard"
definition auth_RateLimitGuard :: nest_class where "auth_RateLimitGuard = RateLimitGuard"
definition payment_OutboxWorker :: nest_class where "payment_OutboxWorker = OutboxWorker"
definition payment_HealthController :: nest_class where "payment_HealthController = HealthController"

subsection \<open>The seat service\<close>

definition HoldsRepository :: nest_class where "HoldsRepository = class_of ''HoldsRepository'' [''PG_POOL'']"
definition SeatsRepository :: nest_class where "SeatsRepository = class_of ''SeatsRepository'' [''PG_POOL'']"
definition SeatEventBus :: nest_class where "SeatEventBus = class_of ''SeatEventBus'' []"

definition SeatsController :: nest_class where
  "SeatsController = class_of ''SeatsController'' [''SeatsRepository'', ''HoldsRepository'', ''SeatEventBus'']"

definition PaymentEventsConsumer :: nest_class where
  "PaymentEventsConsumer = class_of ''PaymentEventsConsumer''
     [''RabbitService'', ''HoldsRepository'', ''SeatsRepository'', ''SeatEventBus'', ''LOGGER_SERVICE'']"

definition HoldSweeper :: nest_class where
  "HoldSweeper = class_of ''HoldSweeper'' [''PG_POOL'', ''LOGGER_SERVICE'', ''SeatEventBus'']"

definition HoldsModule :: nest_module where
  "HoldsModule = feature_module ''HoldsModule'' [] [] [HoldsRepository] [''HoldsRepository'']"

definition SeatsModule :: nest_module where
  "SeatsModule = feature_module ''SeatsModule'' [''HoldsModule''] [SeatsController] [SeatsRepository, SeatEventBus]
     [''SeatEventBus'', ''SeatsRepository'']"

definition seat_HealthModule :: nest_module where
  "seat_HealthModule = feature_module ''HealthModule'' [] [HealthController] [RabbitService] [''RabbitService'']"

definition seat_AppModule :: nest_module where
  "seat_AppModule = \<lparr>md_name = ''AppModule'', md_global = False,
     md_imports = [''DbModule'', ''LoggerModule'', ''SeatsModule'', ''HoldsModule'', ''HealthModule'', ''MetricsModule''],
     md_controllers = [],
     md_providers = [as_provider Reflector, (''APP_GUARD'', RateLimitGuard), as_provider RabbitService,
       as_provider PaymentEventsConsumer, as_provider OutboxWorker, as_provider HoldSweeper],
     md_exports = [], md_needs = []\<rparr>"

definition seat_app :: "nest_module list" where
  "seat_app = [seat_AppModule, DbModule, LoggerModule, SeatsModule, HoldsModule, seat_HealthModule, MetricsModule]"

subsection \<open>The payment service\<close>

definition PaymentIntentsRepository :: nest_class where
  "PaymentIntentsRepository = class_of ''PaymentIntentsRepository'' [''PG_POOL'']"

definition CircuitBreaker :: nest_class where "CircuitBreaker = class_of ''CircuitBreaker'' []"

definition CheckoutController :: nest_class where
  "CheckoutController = class_of ''CheckoutController'' [''PaymentIntentsRepository'', ''CircuitBreaker'', ''LOGGER_SERVICE'']"

definition WebhooksController :: nest_class where
  "WebhooksController = class_of ''WebhooksController'' [''PaymentIntentsRepository'', ''LOGGER_SERVICE'']"

definition WebhookReprocessor :: nest_class where
  "WebhookReprocessor = class_of ''WebhookReprocessor'' [''PG_POOL'', ''PaymentIntentsRepository'', ''LOGGER_SERVICE'']"

definition SeatEventsConsumer :: nest_class where
  "SeatEventsConsumer = class_of ''SeatEventsConsumer'' [''RabbitService'', ''PaymentIntentsRepository'', ''LOGGER_SERVICE'']"

definition CheckoutModule :: nest_module where
  "CheckoutModule = feature_module ''CheckoutModule'' [] [CheckoutController] [PaymentIntentsRepository, CircuitBreaker]
     [''PaymentIntentsRepository'']"

definition WebhooksModule :: nest_module where
  "WebhooksModule = feature_module ''WebhooksModule'' [''CheckoutModule''] [WebhooksController] [WebhookReprocessor] []"

definition payment_HealthModule :: nest_module where
  "payment_HealthModule = feature_module ''HealthModule'' [] [payment_HealthController] [RabbitService] [''RabbitService'']"

definition payment_AppModule :: nest_module where
  "payment_AppModule = \<lparr>md_name = ''AppModule'', md_global = False,
     md_imports = [''DbModule'', ''LoggerModule'', ''CheckoutModule'', ''WebhooksModule'', ''HealthModule'', ''MetricsModule''],
     md_controllers = [],
     md_providers = [as_provider Reflector, (''APP_GUARD'', payment_RateLimitGuard), as_provider RabbitService,
       as_provider SeatEventsConsumer, as_provider payment_OutboxWorker],
     md_exports = [], md_needs = []\<rparr>"

definition payment_app :: "nest_module list" where
  "payment_app = [payment_AppModule, payment_DbModule, payment_LoggerModule, CheckoutModule, WebhooksModule,
     payment_HealthModule, payment_MetricsModule]"

subsection \<open>The auth service\<close>

definition UsersRepository :: nest_class where "UsersRepository = class_of ''UsersRepository'' [''PG_POOL'']"
definition SessionsRepository :: nest_class where "SessionsRepository = class_of ''SessionsRepository'' [''PG_POOL'']"
definition AuditService :: nest_class where "AuditService = class_of ''AuditService'' [''PG_POOL'']"
definition JwtService :: nest_class where "JwtService = class_of ''JwtService'' []"

definition AuthController :: nest_class where
  "AuthController = class_of ''AuthController''
     [''UsersRepository'', ''SessionsRepository'', ''JwtService'', ''AuditService'', ''LOGGER_SERVICE'']"

definition auth_HealthController :: nest_class where
  "auth_HealthController = class_of ''HealthController'' [''PG_POOL'']"

definition UsersModule :: nest_module where
  "UsersModule = feature_module ''UsersModule'' [] [] [UsersRepository] [''UsersRepository'']"

definition SessionsModule :: nest_module where
  "SessionsModule = feature_module ''SessionsModule'' [] [] [SessionsRepository] [''SessionsRepository'']"

definition AuditModule :: nest_module where
  "AuditModule = feature_module ''AuditModule'' [] [] [AuditService] [''AuditService'']"

definition AuthModule :: nest_module where
  "AuthModule = feature_module ''AuthModule'' [''UsersModule'', ''AuditModule'', ''LoggerModule''] [AuthController]
     [JwtService, SessionsRepository] []"

definition auth_HealthModule :: nest_module where
  "auth_HealthModule = feature_module ''HealthModule'' [] [auth_HealthController] [] []"

definition auth_AppModule :: nest_module where
  "auth_AppModule = \<lparr>md_name = ''AppModule'', md_global = False,
     md_imports = [''DbModule'', ''LoggerModule'', ''UsersModule'', ''SessionsModule'', ''AuditModule'', ''AuthModule'',
       ''HealthModule'', ''MetricsModule''],
     md_controllers = [], md_providers = [as_provider Reflector, (''APP_GUARD'', auth_RateLimitGuard)],
     md_exports = [], md_needs = []\<rparr>"

definition auth_app :: "nest_module list" where
  "auth_app = [auth_AppModule, auth_DbModule, auth_LoggerModule, UsersModule, SessionsModule, AuditModule, AuthModule,
     auth_HealthModule, auth_MetricsModule]"

subsection \<open>The pools\<close>

text \<open>The factory of \<open>PG_POOL\<close>.\<close>

record db_pool =
  pl_host :: string
  pl_port :: int
  pl_user :: string
  pl_password :: string
  pl_database :: string
  pl_max :: int
  pl_idleTimeoutMillis :: int
  pl_connectionTimeoutMillis :: int

definition seat_pool :: "'v base_vars_scheme \<Rightarrow> db_pool" where
  "seat_pool v =
     \<lparr>pl_host = v_POSTGRES_HOST v, pl_port = v_POSTGRES_PORT v, pl_user = v_POSTGRES_USER v,
      pl_password = v_POSTGRES_PASSWORD v, pl_database = v_POSTGRES_DB v, pl_max = v_POSTGRES_POOL_MAX v,
      pl_idleTimeoutMillis = 30000, pl_connectionTimeoutMillis = 5000\<rparr>"

definition payment_pool :: "'v base_vars_scheme \<Rightarrow> db_pool" where "payment_pool = seat_pool"
definition auth_pool :: "'v base_vars_scheme \<Rightarrow> db_pool" where "auth_pool = seat_pool"

subsection \<open>The services are wired\<close>

text \<open>A lookup gives an instance of the token, in a module that provides it.\<close>

lemma resolve_instance:
  assumes "resolve app m t = Some i" and "m \<in> set app"
  shows "i \<in> set (instances app t)"
proof (cases "t \<in> fst ` set (md_providers m)")
  case True
  then show ?thesis using assms by (auto simp: resolve_def instances_def)
next
  case False
  then obtain x where x: "find (offers t) (imported app m @ filter md_global app) = Some x" "i = (md_name x, t)"
    using assms(1) by (auto simp: resolve_def)
  then have "x \<in> set app" "offers t x"
    using find_SomeD [OF x(1)] by (auto simp: imported_def)
  then show ?thesis by (auto simp: x(2) instances_def offers_def)
qed

text \<open>So a token with one instance is the same object wherever it is asked for.\<close>

lemma one_instance_shared:
  assumes "instances app t = [i]" and "wired app" and "((m, c), t, r) \<in> set (injections app)"
  shows "r = Some i"
proof -
  obtain x where x: "x \<in> set app" "r = resolve app x t" using assms(3) by (auto simp: injections_def)
  moreover obtain j where "r = Some j" using assms(2,3) by (fastforce simp: wired_def)
  ultimately show ?thesis using resolve_instance [of app x t j] assms(1) by auto
qed

lemma services_wired: "wired seat_app" "wired payment_app" "wired auth_app"
  by code_simp+

text \<open>The state the models keep once per process has one instance: the connection pool, the event bus that
  the controller, the sweeper and the consumer share with the stream, the circuit breaker, and the
  limiter, which is the one APP_GUARD of the root module.\<close>

lemma shared_state:
  "instances seat_app ''PG_POOL'' = [(''DbModule'', ''PG_POOL'')]"
  "instances payment_app ''PG_POOL'' = [(''DbModule'', ''PG_POOL'')]"
  "instances auth_app ''PG_POOL'' = [(''DbModule'', ''PG_POOL'')]"
  "instances seat_app ''SeatEventBus'' = [(''SeatsModule'', ''SeatEventBus'')]"
  "instances payment_app ''CircuitBreaker'' = [(''CheckoutModule'', ''CircuitBreaker'')]"
  "instances seat_app ''APP_GUARD'' = [(''AppModule'', ''APP_GUARD'')]"
  "instances payment_app ''APP_GUARD'' = [(''AppModule'', ''APP_GUARD'')]"
  "instances auth_app ''APP_GUARD'' = [(''AppModule'', ''APP_GUARD'')]"
  by code_simp+

lemma bus_shared:
  "((m, c), ''SeatEventBus'', r) \<in> set (injections seat_app) \<Longrightarrow> r = Some (''SeatsModule'', ''SeatEventBus'')"
  by (rule one_instance_shared [OF shared_state(4) services_wired(1)])

text \<open>The readiness probe asks another RabbitService than the one that publishes and consumes: HealthModule
  and AppModule each provide one, with its own connection.\<close>

lemma health_probe_has_own_connection:
  "given seat_app ''HealthController'' ''RabbitService'' = [Some (''HealthModule'', ''RabbitService'')] \<and>
   given seat_app ''OutboxWorker'' ''RabbitService'' = [Some (''AppModule'', ''RabbitService'')] \<and>
   given seat_app ''PaymentEventsConsumer'' ''RabbitService'' = [Some (''AppModule'', ''RabbitService'')] \<and>
   given payment_app ''HealthController'' ''RabbitService'' = [Some (''HealthModule'', ''RabbitService'')] \<and>
   given payment_app ''OutboxWorker'' ''RabbitService'' = [Some (''AppModule'', ''RabbitService'')]"
  by code_simp

end
