(* ===== verification/Logging.thy ===== *)
theory Logging
  imports Env
begin

text \<open>
  The loggers (be-core logger.ts and common/logger.service.ts of the services): an AppLogger is an
  object that writes and that makes children, which are loggers in turn, so it is a codatatype. Pino is
  a parameter: how it makes a logger, what a child of one with bindings is, and the lines it writes.
\<close>

subsection \<open>Loggers\<close>

datatype log_method = Debug | Info | Warn | Error

type_synonym log_fields = "(string \<times> json) list"

record ('p, 'l) pino =
  pn_make :: "string \<Rightarrow> string \<Rightarrow> 'p"
    \<comment> \<open>name and level\<close>
  pn_child :: "'p \<Rightarrow> log_fields \<Rightarrow> 'p"
  pn_write :: "'p \<Rightarrow> log_method \<Rightarrow> log_fields \<Rightarrow> string \<Rightarrow> 'l"

codatatype 'l app_logger =
  App_Logger
    (log_with: "log_method \<Rightarrow> log_fields \<Rightarrow> string option \<Rightarrow> 'l")
    (child: "log_fields \<Rightarrow> 'l app_logger")

text \<open>\<open>{ ...defaults, ...b }\<close>: a key that is there keeps its place and takes the new value.\<close>

fun set_field :: "string \<times> json \<Rightarrow> log_fields \<Rightarrow> log_fields" where
  "set_field kv [] = [kv]"
| "set_field kv (x # xs) = (if fst x = fst kv then kv # xs else x # set_field kv xs)"

definition spread :: "log_fields \<Rightarrow> log_fields \<Rightarrow> log_fields" where
  "spread defaults b = fold set_field b defaults"

text \<open>The message defaults to the empty string.\<close>

primcorec wrap :: "('p, 'l) pino \<Rightarrow> 'p \<Rightarrow> log_fields \<Rightarrow> 'l app_logger" where
  "log_with (wrap pn p defaults) =
     (\<lambda>method f m. pn_write pn (pn_child pn p defaults) method f (case m of None \<Rightarrow> [] | Some t \<Rightarrow> t))"
| "child (wrap pn p defaults) = (\<lambda>b. wrap pn p (spread defaults b))"

definition createLogger :: "('p, 'l) pino \<Rightarrow> string \<Rightarrow> string option \<Rightarrow> 'l app_logger" where
  "createLogger pn service level =
     wrap pn (pn_make pn service (case level of None \<Rightarrow> ''info'' | Some l \<Rightarrow> l)) [(''service'', JStr service)]"

subsection \<open>LoggerService\<close>

text \<open>The root logger of a service, and \<open>create\<close>.\<close>

definition log_root :: "('p, 'l) pino \<Rightarrow> string \<Rightarrow> 'v base_vars_scheme \<Rightarrow> 'l app_logger" where
  "log_root pn service v = createLogger pn service (Some (v_LOG_LEVEL v))"

definition seat_logger :: "('p, 'l) pino \<Rightarrow> seat_vars \<Rightarrow> string \<Rightarrow> 'l app_logger" where
  "seat_logger pn v component = child (log_root pn ''seat-reservation'' v) [(''component'', JStr component)]"

definition payment_logger :: "('p, 'l) pino \<Rightarrow> payment_vars \<Rightarrow> string \<Rightarrow> 'l app_logger" where
  "payment_logger pn v component = child (log_root pn ''payment'' v) [(''component'', JStr component)]"

definition auth_logger :: "('p, 'l) pino \<Rightarrow> auth_vars \<Rightarrow> string \<Rightarrow> 'l app_logger" where
  "auth_logger pn v component = child (log_root pn ''auth'' v) [(''component'', JStr component)]"

subsection \<open>What a logger binds\<close>

lemma map_of_set_field: "map_of (set_field kv xs) = (map_of xs)(fst kv \<mapsto> snd kv)"
  by (induction xs) (auto simp: fun_eq_iff)

lemma keys_set_field: "fst ` set (set_field kv xs) = insert (fst kv) (fst ` set xs)"
  by (induction xs) auto

lemma distinct_set_field: "distinct (map fst xs) \<Longrightarrow> distinct (map fst (set_field kv xs))"
  by (induction xs) (force simp: keys_set_field)+

lemma map_of_spread: "distinct (map fst b) \<Longrightarrow> map_of (spread xs b) = map_of xs ++ map_of b"
  unfolding spread_def
proof (induction b arbitrary: xs)
  case (Cons kv b)
  then have "fst kv \<notin> dom (map_of b)" by (simp add: dom_map_of_conv_image_fst)
  with Cons show ?case by (cases kv) (auto simp: map_of_set_field map_add_upd_left fun_eq_iff map_add_def split: option.splits)
qed simp

lemma distinct_spread: "distinct (map fst xs) \<Longrightarrow> distinct (map fst (spread xs b))"
  unfolding spread_def by (induction b arbitrary: xs) (simp_all add: distinct_set_field)

text \<open>Children of children: one Pino child with all the bindings, however deep, so no line repeats a
  bound key, and the last binding of a key wins.\<close>

lemma children_of_wrap: "foldl child (wrap pn p d) bs = wrap pn p (foldl spread d bs)"
  by (induction bs arbitrary: d) simp_all

lemma bindings_distinct: "distinct (map fst d) \<Longrightarrow> distinct (map fst (foldl spread d bs))"
  by (induction bs arbitrary: d) (simp_all add: distinct_spread)

lemma bindings_last_wins:
  "\<forall>b \<in> set bs. distinct (map fst b) \<Longrightarrow> map_of (foldl spread d bs) = foldl (++) (map_of d) (map map_of bs)"
  by (induction bs arbitrary: d) (simp_all add: map_of_spread)

text \<open>What a component's logger writes: through one Pino child that binds its service and component.\<close>

lemma component_line:
  "log_with (seat_logger pn v c) method f m =
     pn_write pn (pn_child pn (pn_make pn ''seat-reservation'' (v_LOG_LEVEL v))
       [(''service'', JStr ''seat-reservation''), (''component'', JStr c)])
       method f (case m of None \<Rightarrow> [] | Some t \<Rightarrow> t)"
  "log_with (payment_logger pn w c) method f m =
     pn_write pn (pn_child pn (pn_make pn ''payment'' (v_LOG_LEVEL w))
       [(''service'', JStr ''payment''), (''component'', JStr c)])
       method f (case m of None \<Rightarrow> [] | Some t \<Rightarrow> t)"
  "log_with (auth_logger pn a c) method f m =
     pn_write pn (pn_child pn (pn_make pn ''auth'' (v_LOG_LEVEL a))
       [(''service'', JStr ''auth''), (''component'', JStr c)])
       method f (case m of None \<Rightarrow> [] | Some t \<Rightarrow> t)"
  by (simp_all add: seat_logger_def payment_logger_def auth_logger_def log_root_def createLogger_def spread_def)

end
