(* ===== verification/Lifecycle.thy ===== *)
theory Lifecycle
  imports Probes Env
begin

text \<open>
  The rest of a service's life: how its consumer starts (\<open>start\<close> of PaymentEventsConsumer and
  SeatEventsConsumer over \<open>consume\<close> of RabbitService), what main.ts prints and with which status the
  process exits, the CORS options it passes, and the Argon2 parameters password.ts reads from the
  environment beside the schema, like the provider client its secret.
\<close>

subsection \<open>Starting a consumer\<close>

record subscription =
  sb_queue :: string
  sb_prefetch :: nat
  sb_noAck :: bool

text \<open>The consumer's flag, and the subscriptions its process has at the broker.\<close>

record consumer =
  cn_started :: bool
  cn_subs :: "subscription list"

definition new_consumer :: consumer where
  "new_consumer = \<lparr>cn_started = False, cn_subs = []\<rparr>"

text \<open>The outcomes of \<open>createChannel\<close>, \<open>prefetch\<close> and \<open>consume\<close>.\<close>

record channel_calls =
  cc_create :: "exn option"
  cc_prefetch :: "exn option"
  cc_consume :: "exn option"

fun first_error :: "exn option list \<Rightarrow> exn option" where
  "first_error [] = None"
| "first_error (Some e # es) = Some e"
| "first_error (None # es) = first_error es"

definition rabbit_consume ::
    "amqp_op list \<Rightarrow> (nat \<Rightarrow> exn option) \<Rightarrow> exn option list \<Rightarrow> channel_calls \<Rightarrow> string \<Rightarrow> rabbit \<Rightarrow>
     (exn + subscription) \<times> rabbit" where
  "rabbit_consume topology tries faults calls queue rb =
     (case (if rb_conn rb then (Inr (), rb) else rabbit_connect topology tries faults rb) of
        (Inl e, rb') \<Rightarrow> (Inl e, rb')
      | (Inr u, rb') \<Rightarrow>
          (if \<not> rb_conn rb' then Inl (Js_Error ''TypeError'')
           else case first_error [cc_create calls, cc_prefetch calls, cc_consume calls] of
             Some e \<Rightarrow> Inl e
           | None \<Rightarrow> Inr \<lparr>sb_queue = queue, sb_prefetch = 10, sb_noAck = False\<rparr>, rb'))"

definition consumer_start ::
    "string \<Rightarrow> amqp_op list \<Rightarrow> (nat \<Rightarrow> exn option) \<Rightarrow> exn option list \<Rightarrow> channel_calls \<Rightarrow> consumer \<Rightarrow> rabbit \<Rightarrow>
     (exn + unit) \<times> consumer \<times> rabbit" where
  "consumer_start queue topology tries faults calls cn rb =
     (if cn_started cn then (Inr (), cn, rb)
      else
        let cn = cn\<lparr>cn_started := True\<rparr> in
        (case rabbit_connect topology tries faults rb of
           (Inl e, rb) \<Rightarrow> (Inl e, cn, rb)
         | (Inr u, rb) \<Rightarrow>
             (case rabbit_consume topology tries faults calls queue rb of
                (Inl e, rb) \<Rightarrow> (Inl e, cn, rb)
              | (Inr sb, rb) \<Rightarrow> (Inr (), cn\<lparr>cn_subs := cn_subs cn @ [sb]\<rparr>, rb))))"

definition payment_events_start where
  "payment_events_start = consumer_start SEAT_PAYMENT_EVENTS seat_topology"

definition seat_events_start where
  "seat_events_start = consumer_start PAYMENT_SEAT_EVENTS payment_topology"

text \<open>Calls of \<open>start\<close> one after the other, each with the outcomes of its own calls.\<close>

fun consumer_starts ::
    "string \<Rightarrow> amqp_op list \<Rightarrow> ((nat \<Rightarrow> exn option) \<times> exn option list \<times> channel_calls) list \<Rightarrow>
     consumer \<Rightarrow> rabbit \<Rightarrow> consumer \<times> rabbit" where
  "consumer_starts queue topology [] cn rb = (cn, rb)"
| "consumer_starts queue topology ((tries, faults, calls) # rest) cn rb =
     (case consumer_start queue topology tries faults calls cn rb of
        (r, cn', rb') \<Rightarrow> consumer_starts queue topology rest cn' rb')"

lemma started_stays: "cn_started cn \<Longrightarrow> consumer_starts queue topology calls cn rb = (cn, rb)"
  by (induction calls) (auto simp: consumer_start_def)

text \<open>However often it is started a process subscribes once at most, and never again after a failed start.\<close>

lemma subscribes_once:
  assumes "consumer_starts queue topology calls new_consumer rb = (cn, rb')"
  shows "cn_subs cn \<in> {[], [\<lparr>sb_queue = queue, sb_prefetch = 10, sb_noAck = False\<rparr>]}"
proof (cases calls)
  case Nil
  then show ?thesis using assms by (auto simp: new_consumer_def)
next
  case (Cons c rest)
  obtain tries faults ch where c: "c = (tries, faults, ch)" by (cases c)
  obtain r cn1 rb1 where s: "consumer_start queue topology tries faults ch new_consumer rb = (r, cn1, rb1)"
    using prod_cases3 by blast
  then have "cn_started cn1" "cn_subs cn1 \<in> {[], [\<lparr>sb_queue = queue, sb_prefetch = 10, sb_noAck = False\<rparr>]}"
    by (auto simp: consumer_start_def new_consumer_def rabbit_consume_def Let_def
        split: prod.splits sum.splits if_splits option.splits)
  then show ?thesis using assms Cons c s started_stays by simp
qed

text \<open>Declarations that succeed leave the queue they assert with its dead letter exchange.\<close>

lemma amqp_exec_keeps_queue:
  "amqp_exec op b = Inr b' \<Longrightarrow> map_of (b_queues b) q = Some x \<Longrightarrow> map_of (b_queues b') q = Some x"
  by (auto simp: amqp_exec_def map_add_def split: amqp_op.splits if_splits option.splits)

lemma declare_all_keeps_queue:
  "declare_all ops faults rb = (r, rb') \<Longrightarrow> map_of (b_queues (rb_broker rb)) q = Some x \<Longrightarrow>
   map_of (b_queues (rb_broker rb')) q = Some x"
proof (induction ops faults rb rule: declare_all.induct)
  case (2 op ops faults rb)
  show ?case
  proof (cases "case faults of Some e # fs \<Rightarrow> Inl e | _ \<Rightarrow> amqp_exec op (rb_broker rb)")
    case (Inl e)
    then show ?thesis using 2(2,3) by simp
  next
    case (Inr b)
    then have "amqp_exec op (rb_broker rb) = Inr b" by (auto split: list.splits option.splits)
    from amqp_exec_keeps_queue [OF this 2(3)] 2(1) [OF Inr] 2(2) Inr show ?thesis by simp
  qed
qed simp

lemma declare_all_asserts:
  "declare_all ops faults rb = (Inr u, rb') \<Longrightarrow> Assert_Queue q dlx \<in> set ops \<Longrightarrow>
   map_of (b_queues (rb_broker rb')) q = Some dlx"
proof (induction ops faults rb rule: declare_all.induct)
  case (2 op ops faults rb)
  obtain b where b: "(case faults of Some e # fs \<Rightarrow> Inl e | _ \<Rightarrow> amqp_exec op (rb_broker rb)) = Inr b"
    using 2(2) by (auto split: sum.splits)
  then have x: "amqp_exec op (rb_broker rb) = Inr b" by (auto split: list.splits option.splits)
  show ?case
  proof (cases "op = Assert_Queue q dlx")
    case True
    then have "map_of (b_queues b) q = Some dlx"
      using x by (auto simp: amqp_exec_def map_add_def split: option.splits if_splits)
    then show ?thesis using declare_all_keeps_queue 2(2) b by fastforce
  next
    case False
    then show ?thesis using 2 b by simp
  qed
qed simp

text \<open>A first start that succeeds on a fresh connection consumes a queue that is there, with
  acknowledgements, and whose rejected messages have a dead letter exchange to go to.\<close>

lemma start_consumes_declared_queue:
  assumes "consumer_start queue topology tries faults calls new_consumer (new_rabbit b) = (Inr u, cn, rb)"
    and "Assert_Queue queue dlx \<in> set topology"
  shows "cn_subs cn = [\<lparr>sb_queue = queue, sb_prefetch = 10, sb_noAck = False\<rparr>] \<and>
    map_of (b_queues (rb_broker rb)) queue = Some dlx"
proof -
  obtain r rb1 where c: "rabbit_connect topology tries faults (new_rabbit b) = (r, rb1)" by fastforce
  then have "r = Inr ()" using assms(1) by (auto simp: consumer_start_def new_consumer_def Let_def split: sum.splits)
  then obtain rb2 where d: "doConnect topology tries faults (new_rabbit b) = (Inr (), rb2)" "rb1 = rb2\<lparr>rb_connecting := Some None\<rparr>"
    using c by (auto simp: rabbit_connect_def new_rabbit_def split: prod.splits sum.splits)
  have up: "declare_all ops fs rb0 = (r0, rb1) \<Longrightarrow> rb_conn rb1 = rb_conn rb0" for ops fs rb0 r0 rb1
    by (induction ops fs rb0 rule: declare_all.induct) (auto split: sum.splits)
  have "rb_conn rb1" "map_of (b_queues (rb_broker rb1)) queue = Some dlx"
    using d declare_all_asserts [OF _ assms(2)] up by (auto simp: doConnect_def split: option.splits)
  then show ?thesis using assms(1) c \<open>r = Inr ()\<close>
    by (auto simp: consumer_start_def rabbit_consume_def new_consumer_def Let_def split: sum.splits option.splits)
qed

lemmas starts_consume_declared_queue =
  start_consumes_declared_queue [of SEAT_PAYMENT_EVENTS seat_topology, folded payment_events_start_def]
  start_consumes_declared_queue [of PAYMENT_SEAT_EVENTS payment_topology, folded seat_events_start_def]

subsection \<open>The process\<close>

text \<open>\<open>console.log(JSON.stringify({ ... }))\<close>\<close>

definition console_line :: "string \<Rightarrow> string \<Rightarrow> string \<Rightarrow> (string \<times> json) list \<Rightarrow> json" where
  "console_line level service action extra =
     JObj ([(''level'', JStr level), (''service'', JStr service), (''action'', JStr action)] @ extra)"

datatype os_process = Running | Exited int

text \<open>
  What main.ts prints of a start, given its \<open>boot\<close>, with \<open>String(e)\<close> as a parameter. Every line goes to
  stdout but \<open>bootstrap_failed\<close>, the line of \<open>bootstrap().catch\<close>. An error in NestFactory.create is not
  seen there: Nest logs it itself and calls \<open>process.exit(1)\<close>. It is the failure of the step after
  \<open>first\<close>.
\<close>

definition main_lines ::
    "boot_step list \<Rightarrow> string \<Rightarrow> (exn \<Rightarrow> string) \<Rightarrow> boot_world \<Rightarrow> boot_step list \<times> exn option \<Rightarrow> json list" where
  "main_lines first service str w outcome =
     (case bw_env w of Inl _ \<Rightarrow> [] | Inr _ \<Rightarrow> [console_line ''info'' service ''migrations_start'' []]) @
     (case snd outcome of
        Some e \<Rightarrow>
          if fst outcome = Migrations_Run # first then []
          else [console_line ''error'' service ''bootstrap_failed'' [(''err'', JStr (str e))]]
      | None \<Rightarrow>
          (case bw_env w of Inl _ \<Rightarrow> []
           | Inr env \<Rightarrow> [console_line ''info'' service ''listening'' [(''port'', JInt (be_port env))]]))"

definition main_status :: "exn option \<Rightarrow> os_process" where
  "main_status err = (case err of None \<Rightarrow> Running | Some e \<Rightarrow> Exited 1)"

definition seat_main_lines where "seat_main_lines = main_lines [] ''seat-reservation''"
definition payment_main_lines where "payment_main_lines = main_lines [] ''payment''"
definition auth_main_lines where "auth_main_lines = main_lines [Dummy_Hash_Made] ''auth''"

text \<open>\<open>onSigterm\<close>: \<open>finally\<close> exits before an error of \<open>app.close()\<close> could be seen.\<close>

definition on_sigterm :: "string \<Rightarrow> exn option \<Rightarrow> json \<times> os_process" where
  "on_sigterm service closing = (console_line ''info'' service ''sigterm'' [], Exited 0)"

text \<open>A process that is still there after \<open>main\<close> listens, over a database with all its migrations, and says
  so in its last line; one that is not has said why, unless it failed in NestFactory.create.\<close>

lemma running_is_listening:
  fixes s :: "('s mig_db, 'x) conn_scheme"
  assumes "quiet s" and "tx s = None" and "bw_env w = Inr env"
    and "boot first workers topology w ex dir read s = ((steps, e), s')"
    and "Migrations_Run \<notin> set (first @ workers)" and "Connected \<notin> set (first @ workers)"
  shows "(main_status e = Running \<longleftrightarrow>
      Listening (be_port env) \<in> set steps \<and> e = None) \<and>
    (main_status e = Running \<longrightarrow> migrated ex dir read (committed s) True (committed s') \<and>
       last (main_lines first service str w (steps, e)) = console_line ''info'' service ''listening'' [(''port'', JInt (be_port env))]) \<and>
    (main_status e \<noteq> Running \<longrightarrow> main_status e = Exited 1 \<and>
       (steps \<noteq> Migrations_Run # first \<longrightarrow> (\<exists>err. last (main_lines first service str w (steps, e)) = console_line ''error'' service ''bootstrap_failed'' [(''err'', JStr (str err))])))"
proof (cases e)
  case None
  note runs = boot_runs [OF assms(1-6)]
  from runs None obtain rest where "Migrations_Run # first @ App_Created (cors_origins (be_cors env)) # workers @
        (case topology of None \<Rightarrow> [] | Some _ \<Rightarrow> [Connected, Consuming]) @ [Listening (be_port env)] = steps"
    by auto
  then have "Listening (be_port env) \<in> set steps" "steps \<noteq> []" by auto
  then show ?thesis using runs None assms(3) by (auto simp: main_status_def main_lines_def)
next
  case (Some err)
  then show ?thesis by (auto simp: main_status_def main_lines_def)
qed

subsection \<open>CORS\<close>

record cors_options =
  co_origin :: "string list"
  co_credentials :: bool
  co_allowedHeaders :: "string list"
  co_methods :: "string list"

definition cors_for :: "string list \<Rightarrow> string list \<Rightarrow> string \<Rightarrow> cors_options" where
  "cors_for headers methods origins =
     \<lparr>co_origin = cors_origins origins, co_credentials = True,
      co_allowedHeaders = [''Content-Type'', ''Authorization'', ''x-request-id''] @ headers, co_methods = methods\<rparr>"

definition seat_cors :: "string \<Rightarrow> cors_options" where
  "seat_cors = cors_for [] [''GET'', ''POST'']"

definition payment_cors :: "string \<Rightarrow> cors_options" where
  "payment_cors = cors_for [''stripe-signature''] [''GET'', ''POST'']"

definition auth_cors :: "string \<Rightarrow> cors_options" where
  "auth_cors = cors_for [] [''GET'', ''POST'', ''PUT'', ''PATCH'', ''DELETE'']"

subsection \<open>Argon2 parameters\<close>

text \<open>\<open>Number(process.env.X ?? d)\<close>, which the schema does not see.\<close>

definition env_number :: "process_env \<Rightarrow> string \<Rightarrow> int \<Rightarrow> js_num" where
  "env_number p k d = (case p k of None \<Rightarrow> finite_num False d 1 | Some t \<Rightarrow> js_Number t)"

record argon2_params =
  a2_memoryCost :: js_num
  a2_timeCost :: js_num
  a2_parallelism :: js_num

definition argon2Params :: "process_env \<Rightarrow> argon2_params" where
  "argon2Params p =
     \<lparr>a2_memoryCost = env_number p ''ARGON2_MEMORY_KIB'' 65536,
      a2_timeCost = env_number p ''ARGON2_TIME_COST'' 3,
      a2_parallelism = env_number p ''ARGON2_PARALLELISM'' 1\<rparr>"

definition js_int :: "js_num \<Rightarrow> int option" where
  "js_int x = (case x of Finite neg m e \<Rightarrow> map_option (\<lambda>n. if neg then - n else n) (integral m e) | _ \<Rightarrow> None)"

lemma default_numbers:
  "js_int (finite_num False 65536 1) = Some 65536" "js_int (finite_num False 3 1) = Some 3"
  "js_int (finite_num False 1 1) = Some 1"
  by code_simp+

lemma positive_int_js_int: "positive_int t = Some n \<Longrightarrow> js_int (js_Number t) = Some n"
  by (auto simp: positive_int_def js_int_def split: js_num.splits option.splits if_splits)

lemma env_number_env_int:
  assumes "env_int p k d = Some n" and "js_int (finite_num False d 1) = Some d"
  shows "js_int (env_number p k d) = Some n"
  using assms positive_int_js_int by (auto simp: env_int_def env_number_def split: option.splits)

text \<open>The two readings of the environment agree: in a process whose environment the schema accepts,
  passwords are hashed with the parameters of the schema.\<close>

lemma argon2_params_of_schema:
  assumes "authEnvSchema p = Some v"
  shows "js_int (a2_memoryCost (argon2Params p)) = Some (v_ARGON2_MEMORY_KIB v) \<and>
    js_int (a2_timeCost (argon2Params p)) = Some (v_ARGON2_TIME_COST v) \<and>
    js_int (a2_parallelism (argon2Params p)) = Some (v_ARGON2_PARALLELISM v)"
  using assms default_numbers
  by (auto simp: authEnvSchema_def argon2Params_def Option.bind_eq_Some_conv auth_vars.defs jwt_vars.defs
      intro: env_number_env_int)

subsection \<open>The provider's secret\<close>

text \<open>\<open>MockPSPProvider\<close> of checkout.controller.ts takes \<open>process.env.PSP_WEBHOOK_SECRET!\<close> as it is, the webhook
  controller the secret of the schema.\<close>

definition MockPSPProvider :: "process_env \<Rightarrow> string option" where
  "MockPSPProvider p = p ''PSP_WEBHOOK_SECRET''"

definition webhook_psp :: "payment_vars \<Rightarrow> string" where
  "webhook_psp v = v_PSP_WEBHOOK_SECRET v"

lemma one_psp_secret:
  assumes "paymentEnvSchema p = Some v"
  shows "MockPSPProvider p = Some (webhook_psp v)"
  using paymentEnvSchema_typed [OF assms] by (simp add: MockPSPProvider_def webhook_psp_def)

end
