(* ===== verification/Spec2Isabelle.thy ===== *)
theory Spec2Isabelle
  imports Saga Announcing Guard_Properties Outbox_Liveness Timers Seeding Seat_Booking Metrics Routes Wiring Logging Lifecycle
begin

text \<open>
  A verification development for the seat reservation platform: three NestJS services in TypeScript
  (apps/auth, apps/seat-reservation, apps/payment), each with its own PostgreSQL database, two shared
  packages (packages/contracts, packages/be-core), RabbitMQ between the services and Redis behind
  their rate limiters. Theories below are named without \<open>.thy\<close>, source files relative to \<open>src/\<close>.

  \<^bold>\<open>How the program works.\<close> A user registers and logs in at the auth service and gets a short-lived JWT
  and a rotating refresh token. With the JWT they hold a seat (seat service: one transaction that
  inserts a hold, marks the seat and appends an event to the outbox table), then check out (payment
  service: one intent per idempotency key, behind a circuit breaker to the payment provider). The
  provider calls the webhook; the webhook is stored in an inbox and processed later, which completes
  or fails the intent and appends an event. Outbox workers publish the events to RabbitMQ; the seat
  service reserves or releases the hold of the payment event, the payment service cancels the intents
  of a released seat. A sweeper releases expired holds, a reprocessor retries unprocessed webhooks.

  \<^bold>\<open>The execution model\<close> (Db_Tx, Guarantee). TypeScript methods become functions in the monad \<open>dbm\<close>,
  \<open>'state => (exn + 'a) * 'state\<close>: an exception is a value, \<open>try\<close>/\<open>catch\<close>/\<open>finally\<close> are \<open>try_catch\<close>,
  \<open>rolling_back\<close>, \<open>finallyM\<close>, \<open>with_conn\<close>. The state \<open>conn\<close> holds the committed database, the open
  transaction with its working copy and whether PostgreSQL has aborted it, the number of connections
  checked out, and the \<open>script\<close>: for every coming call, what the other sessions commit before it, the
  server's clock, and whether the call runs, is refused, or runs and loses its answer. A handler is
  therefore verified for every failure point and every interleaving of committed transactions. The
  locales \<open>atomic_tx\<close> and \<open>atomic_op\<close> state what a repository method promises its callers: it is its
  statement (\<open>.._spec\<close>, a function on the database), all or nothing, and it gives its connection back.
  Every transactional method of the three services is an interpretation, in the theory that models
  it, and its callers use the facts of the interpretation. Dated adds the time: in an undisturbed run
  the statement's NOW() is the clock of the transaction's BEGIN (\<open>begun\<close>), which the locales \<open>dated_tx\<close> and
  \<open>dated_op\<close> promise of \<open>insertHoldTx\<close> and the sweeper's \<open>tick\<close>. Guarantee lifts this to whole handlers:
  \<open>guarantees G op\<close>, where \<open>G\<close> names the preorder other sessions respect, one rule per construct. Three
  more locales are contracts between statements and what is built on them: \<open>seat_sessions\<close>
  (Seat_Machine), interpreted for the replicas of the service, for replicas that only reserve what is
  paid, for replicas that leave no hold untold and for the booking machine; \<open>tick_invariant\<close>
  (Outbox_Worker), what an invariant of the worker has to satisfy, interpreted for "no event is lost or
  invented", for "what is sent tells of closed intents" and for "what is told of a hold stays told";
  \<open>ledger\<close> (Ledger), what a counter and the rows it counts owe each other, interpreted in Metrics for
  the counters of the three services.

  \<^bold>\<open>Theories and sources.\<close>
  \<^item> Prelude: types of ids and instants, UPDATE .. WHERE, RETURNING and partial unique indexes on lists.
  \<^item> Contracts: packages/contracts/src/events.ts (schemas as parsers, routing keys, exchanges, queues)
    and \<open>resolveTraceId\<close> of packages/be-core/src/correlation.ts.
  \<^item> Outbox_Table, Outbox_Worker, Outbox_Properties, Outbox_Liveness: the outbox tables and
    outbox/outbox.worker.ts of both services (\<open>outbox_tick\<close> is \<open>tick\<close>, \<open>process_row\<close> is \<open>processRow\<close>).
    Announcing: the seat service and its worker over one database, \<open>seat_side_reach\<close>.
  \<^item> Seat_Db, Holds, Hold_Sweeper, Seats, Payment_Events: the tables and statements of the seat
    service, HoldsRepository (\<open>insertHoldTx\<close>, \<open>releaseHold\<close>, \<open>reserveHold\<close>), the sweeper's \<open>tick\<close>, the
    controller's list, hold and release, and the consumer of payment events. Seat_Machine composes
    them to one step relation \<open>seat_reach\<close>; Seat_Properties states what they promise.
  \<^item> Payment_Db, Intents, Psp, Checkout, Webhooks, Seat_Events: the tables and statements of the payment
    service, PaymentIntentsRepository, the provider client and circuit breaker, the checkout handler,
    the webhook handler with its queued callback and the reprocessor, the consumer of seat events.
    Payment_Machine composes them (\<open>payment_reach\<close>); Checkout_Contract and Webhook_Contract prove the
    contracts of the two handlers, Payment_Properties and Webhook_Properties state the properties.
  \<^item> Auth_Db, Sessions, Auth: the tables and statements of the auth service, its repositories (users,
    sessions with \<open>rotate\<close>, audit, password.ts), the controller (\<open>register\<close>, \<open>login\<close>, \<open>refresh\<close>, \<open>logout\<close>,
    \<open>logoutAll\<close>) and JwtService. Auth_Machine composes them (\<open>auth_reach\<close>), Auth_Contract has one rule
    per method for an undisturbed run, Auth_Properties and Auth_Safety state the properties.
  \<^item> Guards, Guard_Properties: JwtAuthGuard, RateLimitGuard with the Redis commands it sends, ZodPipe.
  \<^item> Rabbit: RabbitService (connect with retries, declared topology, consumer wrapper, shutdown).
  \<^item> Migrations: migrations/run.ts of the three services.
  \<^item> Probes: health/health.controller.ts, the seat event bus with the SSE stream, and the order in which
    main.ts starts a service.
  \<^item> Seat_Booking: what the seat service promises, as an abstract machine on bookings (seat, user and
    status by id), which the steps of the service refine.
  \<^item> Ledger, Metrics: metrics/metrics.controller.ts of the three services, the counters and where the
    handlers increment them.
  \<^item> Routes: the decorators of the controllers; a request from its rate limit and its token to the
    status of its answer.
  \<^item> Wiring: every \<open>@Module\<close> and constructor, config/db.module.ts; which instance NestJS gives to whom.
  \<^item> Logging: packages/be-core/src/logger.ts and common/logger.service.ts, loggers as a codatatype.
  \<^item> Lifecycle: \<open>start\<close> of the two consumers, what main.ts prints, its exit status and CORS options,
    \<open>argon2Params\<close> of users/password.ts.
  \<^item> Saga: the two services, the payment service's worker and the broker as one system,
    \<open>platform_reach\<close>.
  \<^item> Js_Number, Env: ECMAScript's \<open>Number(text)\<close>; packages/be-core/src/env.ts and config/env.ts of the
    three services, and the command line of the migration runner.
  \<^item> Timers: \<open>start\<close>, the \<open>running\<close> flag and \<open>onModuleDestroy\<close> of the four background workers.
  \<^item> Seeding: scripts/seed.ts and the migration that fills the payment service's price table.
  \<^item> This theory: two more properties that span the services.

  Names follow the source; a record per table row, one definition per SQL statement with the
  statement quoted above it, one definition per method. Code that the services repeat (outbox worker,
  rate limiter, JWT guard, migration runner, RabbitService) is modelled once, with the differences as
  parameters and one definition per copy.

  \<^bold>\<open>What is shown.\<close> Seat service: placing a hold is all or nothing under any fault; when it is granted
  and which conflict it answers otherwise; in every reachable state there is at most one held hold per
  seat and per user, seats are shown as their holds say, and no connection or transaction leaks; a
  hold only moves from HELD to RELEASED or RESERVED, once; redelivered payment events apply once; the
  sweeper releases exactly the holds that are expired when its transaction begins. Payment service: at most one intent per idempotency key, at
  the price of the table; an intent is closed once, with the one event of its final status; any
  sequence of failed and repeated webhook attempts has the effect of one; only authentic and recent
  webhooks are accepted; the breaker. Auth service: revoked tokens stay revoked, versions only grow,
  the audit log is append-only; every outcome of login, refresh (rotation, grace, reuse), logout-all;
  what a granted refresh rests on whatever other replicas do. Between them: no event is lost or invented
  by the outbox worker, and every due one is published while database and broker answer; what the
  contracts say of every hold is in the outbox or confirmed, the seat service and its worker running
  side by side; every event is routed to exactly its
  consumer; the saga from a completed intent to a reserved seat, and that no hold is reserved without
  a completed intent, whatever fails and is delivered again; the price a hold tells is the price the
  checkout charges, given the two seeded tables; a loaded environment is well typed and says what is written; a worker has one
  tick in progress at a time and begins none after shutdown;
  an access token opens the other services until it expires; migrations apply a prefix in order; the
  rate limiter is exactly a sliding window. Around the handlers: the seat service refines the abstract
  booking machine; what POST hold and POST release answer to a request, guards included, and that no
  key gets more answers on a limited route than its limit in a window; the counters of completed work
  never exceed what the tables show; every dependency of the three services resolves and the state the models
  keep once has one instance; however often a consumer is started it subscribes once, to a queue that
  is declared; a process that is still there after main.ts listens on a migrated database.

  \<^bold>\<open>Bounds.\<close> \<open>try_connect\<close> recurses on the number of attempts left (ten in the code). The other loops run
  over a finite list (rows of a batch, files of a directory, characters of a header), so no fuel is
  needed. \<open>deliveries\<close> and \<open>attempts\<close> follow a finite list of redeliveries, \<open>outbox_ticks\<close> a finite list
  of ticks, \<open>take_turns\<close> a finite list of turns of the event loop, of any length; \<open>bits\<close> terminates by the size of its argument. Numbers are unbounded integers
  but for those of the environment, which are doubles as \<open>Number\<close> rounds them: prices, counters and instants stay far below 2^53; \<open>token_version\<close> is INTEGER in
  the table and a nat here.

  \<^bold>\<open>Boundaries.\<close> PostgreSQL transactions are atomic with respect to other sessions (no anomalies that
  READ COMMITTED would allow inside one transaction); statements see the working copy. One JavaScript
  process runs one handler at a time between two database calls; interleavings of handlers are those
  of their committed calls. UUID texts are compared as given (the services only compare ones they made
  or read back), JSON numbers are integers, jsonb is the identity on JSON values, \<open>toLowerCase\<close> and
  \<open>trim\<close> are on Latin-1 text. A webhook's raw body is bytes, decoded as \<open>toString('utf8')\<close> does
  (\<open>utf8_text\<close>). The calls of the circuit breaker are taken one after the other in the properties; what calls
  that overlap do to it is \<open>cb_turns\<close>. The listing of the migrations directory is given, reading a file
  of it may fail. A broker routes as AMQP 0-9-1 says of topic exchanges, queues and dead-lettering. Parameters of the model, with what the code relies on as named
  hypotheses: Zod's string formats (\<open>zod_documented\<close>), HMAC-SHA256, JSON.parse, SHA-256 and Argon2
  (\<open>argon2_documented\<close>, with parameters that argon2 accepts; for others \<open>register_hash_failure\<close> and
  \<open>bw_dummy\<close>), jsonwebtoken (\<open>jwt_documented\<close>, for secrets that are not empty), random UUIDs and bytes, the provider, the text
  PostgreSQL makes of a JSON object, the meaning of a migration's SQL. Each is instantiated by a
  concrete function in the witnesses.

  \<^bold>\<open>Not modelled.\<close> Which lines the handlers log (Logging has the loggers, Lifecycle the lines of
  main.ts), the text format and default metrics of prom-client, what helmet, cookie-parser,
  express.json and the CORS library do with a request, the matching of paths and the order in which
  NestJS builds and destroys instances, the static web page, nginx and Docker files: output,
  configuration, or calls into libraries without a decision of their own. When a timer fires is left open: ticks come in any number and at any
  time between two committed calls.

  \<^bold>\<open>What modelling showed.\<close> A reserved seat can be held again (\<open>reserved_seat_held_again\<close>); the sweeper
  announces releases before COMMIT (\<open>sweep_announces_uncommitted\<close>); events of the reprocessor are
  refused by the contract (\<open>reprocessor_event_refused\<close>); cancelling by seat fails several intents with
  one event (\<open>cancelled_intent_without_event\<close>); a webhook that overtakes its intent is lost
  (\<open>unknown_intent_swallowed\<close>); stuck-row recovery can take a fresh row (\<open>recovery_takes_fresh_row\<close>); an
  aborted transaction goes back to the pool (\<open>aborted_transaction_stays\<close>); the grace branch ignores
  logout (\<open>grace_survives_logout_all\<close>); rotation ignores revocation (\<open>rotate_ignores_revocation\<close>); the
  rate limit key is the client's to choose (\<open>rate_limit_spoofed\<close>); the outcome of the first connect is
  remembered for ever (\<open>readiness_of_the_first_connect\<close>); the seat that is reserved need not be the one
  that was paid for (\<open>paid_seat_is_not_the_reserved_seat\<close>); the published placeholder of the webhook
  secret is accepted (\<open>webhook_placeholder_accepted\<close>); a sweep interval or a provider timeout beyond
  2147483647 ms becomes 1 ms (\<open>sweep_interval_wraps\<close>, \<open>psp_timeout_wraps\<close>); an expired hold that a new one
  replaces is released without an event (\<open>lazy_release_untold\<close>); the readiness probes ask a RabbitService of their own
  (\<open>health_probe_has_own_connection\<close>); two counters are never incremented (\<open>never_counted\<close>) and the
  sweeper's releases are not counted (\<open>sweeper_uncounted\<close>). Each is a theorem about the code as it is.
\<close>

subsection \<open>The seat service's side\<close>

lemma handle_reliable:
  fixes s :: seat_proc
  assumes "quiet s" "reliable s" "tx s = None"
    and "parse_event (AnyEvent z) json_parse content = Some ev"
    and "handle_payment_event z json_parse newEventId occ content s = (r, s')"
  shows "r = Inr Ack \<and> (\<exists>now. payment_effect newEventId occ ev now (committed s) = Inr ((), committed s'))"
proof -
  have "case r of Inl e \<Rightarrow> False
    | Inr a \<Rightarrow> handled (alone False) (Some ev) (payment_effect newEventId occ) (committed s) (checked_out s) a s'"
    using wpD [OF wp_handle_payment_event [OF reliable_idle [OF assms(1-3)]] assms(5)] assms(4)
    by (simp split: sum.splits)
  moreover have "payment_effect newEventId occ ev now d \<noteq> Inl e" for now d e
    using payment_effect_total [of newEventId occ ev now d] by auto
  ultimately show ?thesis
    by (auto simp: handled_def atomic_ok_def atomic_err_def split: sum.splits settle.splits if_splits dest!: idleD)
qed

lemma AnyEvent_succeeded:
  assumes "zod_documented z" and "is_uuid eventId" "is_uuid traceId" "date_ok occ" and "intent_ids_ok i"
  shows "AnyEvent z (payment_succeeded_payload eventId i traceId occ) =
    Some (PaymentSucceeded \<lparr>m_eventId = eventId, m_traceId = traceId, m_occurredAt = toISOString occ\<rparr>
      (i_id i) (i_seat_id i) (i_user_id i) (i_hold_id i) (i_amount_cents i) (i_currency i)
      (the (i_psp_intent_id i)))"
  using payment_succeeded_payload_conforms [OF assms] by (simp add: AnyEvent_def)

text \<open>C17: The saga. When the payment service completes an intent whose ids are UUIDs, the event it leaves
  in the outbox is one the seat service accepts and acknowledges; if the intent's hold is still held
  there and the event is new, the hold becomes RESERVED and its seat SEAT_RESERVED; and if the hold is
  gone by then (expired or cancelled), the event is acknowledged just the same and nothing at all
  happens in the seat service: the payment stays completed without a seat.\<close>

theorem saga_payment_reserves:
  fixes s :: payment_proc and t :: seat_proc
  assumes "zod_documented z" and "is_uuid eventId" "is_uuid traceId" "date_ok occ"
    and "quiet s" "tx s = None" "\<forall>i \<in> set (intents (committed s)). intent_ids_ok i"
    and "markCompleted psp eventId traceId occ s = (Inr (Closed i), s')"
    and "json_parse content = Some (o_payload (last (outbox (committed s'))))"
    and "quiet t" "reliable t" "tx t = None" "seat_schema_ok (committed t)"
    and "handle_payment_event z json_parse newEventId occ2 content t = (v, t')"
  shows "v = Inr Ack \<and>
    (case find (\<lambda>h. h_id h = i_hold_id i \<and> held h \<and> (eventId, ''seat-service'') \<notin> set (consumed_events (committed t)))
        (holds (committed t)) of
       Some h \<Rightarrow> \<exists>now.
         holds (committed t') = upd_where (\<lambda>x. h_id x = i_hold_id i) (reserve_row now) (holds (committed t)) \<and>
         seats (committed t') = upd_where (\<lambda>x. s_id x = h_seat_id h)
           (\<lambda>x. x\<lparr>s_status := SEAT_RESERVED\<rparr>) (seats (committed t))
     | None \<Rightarrow> committed t' = committed t)"
proof -
  obtain now j where j: "j \<in> set (intents (committed s))" "i = close_row PI_COMPLETED now j"
    and ob: "outbox (committed s') = outbox (committed s) @ [new_outbox_row (Suc (outbox_seq (committed s))) now
      (i_id i) ''payment.succeeded.v1'' (payment_succeeded_payload eventId i traceId occ)
      [(''traceId'', traceId), (''userId'', i_user_id i)]]"
  proof -
    from mark_completed.run_returns [OF assms(5,6,8)] obtain now1 where
      "mark_completed_spec psp eventId traceId occ now1 (committed s) = Inr (Closed i, committed s')" by blast
    from close_spec_cases [OF this] show ?thesis unfolding closed_from_def by (auto intro: that)
  qed
  have ids: "intent_ids_ok i" using assms(7) j by (auto simp: intent_ids_ok_def)
  have parse: "parse_event (AnyEvent z) json_parse content = Some (PaymentSucceeded
      \<lparr>m_eventId = eventId, m_traceId = traceId, m_occurredAt = toISOString occ\<rparr> (i_id i) (i_seat_id i)
      (i_user_id i) (i_hold_id i) (i_amount_cents i) (i_currency i) (the (i_psp_intent_id i)))"
    using assms(9) AnyEvent_succeeded [OF assms(1-4) ids] by (simp add: ob parse_event_def)
  from handle_reliable [OF assms(10-12) parse assms(14)] obtain now2 r where
    v: "v = Inr Ack" and r: "reserve_hold_spec (i_hold_id i) eventId ''seat-service'' traceId newEventId occ2 now2
      (committed t) = Inr (r, committed t')" by (auto simp: payment_effect_def)
  show ?thesis
  proof (cases "find (\<lambda>h. h_id h = i_hold_id i \<and> held h \<and> (eventId, ''seat-service'') \<notin> set (consumed_events (committed t)))
      (holds (committed t))")
    case None
    then have "(eventId, ''seat-service'') \<in> set (consumed_events (committed t)) \<or>
      (\<forall>h \<in> set (holds (committed t)). h_id h = i_hold_id i \<longrightarrow> \<not> held h)" by (auto simp: find_None_iff)
    from reserve_hold_spec_noop [OF this] show ?thesis using r v None by auto
  next
    case (Some h)
    have h: "h \<in> set (holds (committed t))" "h_id h = i_hold_id i" "held h"
      "(eventId, ''seat-service'') \<notin> set (consumed_events (committed t))"
      using find_SomeD [OF Some] by simp_all
    note held = reserve_hold_spec_held [OF assms(13) h(1,3,4), of traceId newEventId occ2 now2]
    have "upd_where (\<lambda>x. h_id x = h_id h \<and> held x) (reserve_row now2) (holds (committed t)) =
        upd_where (\<lambda>x. h_id x = i_hold_id i) (reserve_row now2) (holds (committed t))"
      using hold_by_id_unique [OF assms(13) _ h(1)] h(2,3) by (auto simp: upd_where_def)
    moreover have "committed t' = snd (projr (reserve_hold_spec (h_id h) eventId ''seat-service'' traceId
        newEventId occ2 now2 (committed t)))" using r h(2) by simp
    ultimately show ?thesis
      using v Some unfolding held by (auto simp: update_holds_def update_seats_def)
  qed
qed

text \<open>A seat whose hold has gone: \<open>demo\<close> knows no hold of that id.\<close>

theorem saga_payment_reserves_witness:
  "committed (snd (handle_payment_event zod_shapes
     (\<lambda>_. Some (payment_succeeded_payload (uid (CHR ''e''))
        (close_row PI_COMPLETED 1000 (pay_intent (CHR ''7'') seat1 PI_PENDING)) (uid (CHR ''c'')) 1000))
     ''e2'' 2000 ''m'' (demo []))) = demo_db"
proof -
  let ?op = "markCompleted (Some known_psp) (uid (CHR ''e'')) (uid (CHR ''c'')) 1000 (pay [])"
  let ?i = "close_row PI_COMPLETED 1000 (pay_intent (CHR ''7'') seat1 PI_PENDING)"
  let ?j = "payment_succeeded_payload (uid (CHR ''e'')) ?i (uid (CHR ''c'')) 1000"
  let ?h = "handle_payment_event zod_shapes (\<lambda>_. Some ?j) ''e2'' 2000 ''m'' (demo [])"
  have 1: "fst ?op = Inr (Closed ?i)" "o_payload (last (outbox (committed (snd ?op)))) = ?j" by code_simp+
  have 2: "is_uuid (uid (CHR ''e''))" "is_uuid (uid (CHR ''c''))" "date_ok 1000"
    "\<forall>i \<in> set (intents (committed (pay []))). intent_ids_ok i" by code_simp+
  have 3: "find (\<lambda>h. h_id h = i_hold_id ?i \<and> held h \<and> (uid (CHR ''e''), ''seat-service'') \<notin> set (consumed_events demo_db))
      (holds demo_db) = None" by code_simp
  have 4: "(\<lambda>_. Some ?j) ''m'' = Some (o_payload (last (outbox (committed (snd ?op)))))" using 1(2) by simp
  show ?thesis
    using saga_payment_reserves [OF zod_shapes_documented 2(1-3) _ _ 2(4) run_pair [OF 1(1)] 4 _ _ _ _
      surjective_pairing [of ?h]] demo_schema_ok 3 by simp
qed

lemma ret_bind: "bindM (retM a) k = k a"
  by (rule ext) (simp add: bindM_def retM_def)

text \<open>C36: What the reprocessor rescues is lost on the other side. An event the reprocessor writes carries
  the trace id "reprocess-" followed by a UUID, which the contract's schemas refuse: the seat service
  sends the message to its dead letter queue and does nothing, so the payment is COMPLETED and the
  seat is never reserved.\<close>

theorem reprocessor_event_refused:
  fixes s :: payment_proc and t :: "'x seat_proc_scheme"
  assumes "zod_documented z" and "quiet s" "reliable s" "tx s = None"
    and "w_type row = TYPE_SUCCEEDED" and "psp_id_of (w_payload row) = Inr psp"
    and "j \<in> set (intents (committed s))" "pending_intent j"
      "text_param pg_text psp \<noteq> None" "i_psp_intent_id j = text_param pg_text psp"
    and "reprocess pg_text (u, eventId, occ) row s = (r, s')"
  shows "\<exists>ob. outbox (committed s') = outbox (committed s) @ [ob] \<and> o_event_type ob = ''payment.succeeded.v1'' \<and>
    (json_parse content = Some (o_payload ob) \<longrightarrow>
       handle_payment_event z json_parse newEventId occ2 content t = (Inr (Nack False), t))"
proof -
  let ?trace = "''reprocess-'' @ u"
  have bad: "\<not> is_uuid ?trace" by (auto simp: is_uuid_def uuid_pattern_def is_hex_def numeral_eq_Suc)
  let ?P = "\<lambda>d'. \<exists>i ob. outbox d' = outbox (committed s) @ [ob] \<and> o_event_type ob = ''payment.succeeded.v1'' \<and>
    o_payload ob = payment_succeeded_payload eventId i ?trace occ"
  have spec: "?P d1" if "mark_completed_spec (text_param pg_text psp) eventId ?trace occ now (committed s) = Inr (a, d1)"
    for now a d1
    using close_spec_cases [OF that] assms(7-10) unfolding closed_from_def by fastforce
  have i: "idle (alone False) (committed s) (checked_out s) (conn.more s) s"
    using assms(2-4) by (rule reliable_idle)
  have no: "close_spec P st ty ev tr now d \<noteq> Inl e" for P st ty ev tr now d e
    by (simp add: close_spec_def Let_def)
  have mark: "wp (query (mark_processed e)) (\<lambda>_ s'. ?P (committed s')) (\<lambda>_ s'. ?P (committed s')) s1"
    if "?P d1" "idle (alone False) d1 n m s1" for e d1 n m s1
    by (rule wp_query_auto [OF that(2)]) (use that(1) in \<open>auto dest!: idleD simp: mark_processed_def\<close>)
  have shape: "reprocess pg_text (u, eventId, occ) row = (try_catch (bindM
      (bindM (markCompleted (text_param pg_text psp) eventId ?trace occ) (\<lambda>_. retM ()))
      (\<lambda>_. query (mark_processed (Some (w_stripe_event_id row))))) (\<lambda>e. retM ()) :: (payment_db, 'y, unit) dbm)"
    by (simp add: reprocess_shape close_of_def assms(5,6) liftM_def markWebhookProcessed_def ret_bind)
  have "wp (reprocess pg_text (u, eventId, occ) row) (\<lambda>_ s'. ?P (committed s')) (\<lambda>_ _. False) s"
    unfolding shape wp_try wp_bind wp_ret
    by (rule mark_completed.wp_reliable [OF i], rule mark [OF spec], assumption+, simp add: no)
  from wpD [OF this assms(11)] obtain i' ob where ob: "outbox (committed s') = outbox (committed s) @ [ob]"
    "o_event_type ob = ''payment.succeeded.v1''" "o_payload ob = payment_succeeded_payload eventId i' ?trace occ"
    by (auto split: sum.splits)
  have "AnyEvent z (o_payload ob) = None"
    using assms(1) bad payment_payload_trace [OF assms(1) bad]
    by (simp add: AnyEvent_def ob(3)) (simp add: payment_succeeded_payload_def schema_defs)
  then show ?thesis
    using ob(1,2) by (auto simp: handle_payment_event_def parse_event_def retM_def)
qed

theorem reprocessor_event_refused_witness:
  "\<exists>ob. outbox (committed (snd (reprocess (\<lambda>_. []) (uid (CHR ''d''), uid (CHR ''e''), 1000) (toy_row known_psp) (pay [])))) = [ob] \<and>
     o_event_type ob = ''payment.succeeded.v1''"
proof -
  let ?op = "reprocess (\<lambda>_. []) (uid (CHR ''d''), uid (CHR ''e''), 1000) (toy_row known_psp) (pay [])"
  have j: "pay_intent (CHR ''7'') seat1 PI_PENDING \<in> set (intents (committed (pay [])))"
    "pending_intent (pay_intent (CHR ''7'') seat1 PI_PENDING)"
    "text_param (\<lambda>_. []) (Some (JStr known_psp)) \<noteq> None"
    "i_psp_intent_id (pay_intent (CHR ''7'') seat1 PI_PENDING) = text_param (\<lambda>_. []) (Some (JStr known_psp))"
    by (simp_all add: pay_db_def pay_intent_def text_param_def known_psp_def)
  have "w_type (toy_row known_psp) = TYPE_SUCCEEDED" by (simp add: toy_row_def)
  from reprocessor_event_refused [OF zod_shapes_documented _ _ _ this toy_row_ok(2) j surjective_pairing [of ?op]]
  show ?thesis by (simp add: pay_db_def) blast
qed

end
